(* ===== verification/Prelude.thy ===== *)
theory Prelude
  imports Main "HOL-Library.Word" "HOL-Library.Monad_Syntax"
begin

unbundle bit_operations_syntax

section \<open>Machine integers, bytes, panics and event loops\<close>

text \<open>
  What every component of the model shares.

  \<^item> The unsigned integers of the Rust code as machine words, and byte strings as lists.
  \<^item> The reads that panic in Rust: an index or a slice out of range. They live in the
    \<open>option\<close> monad, where \<open>None\<close> is the panic. A Rust function that returns an
    \<open>Option\<close> and may also panic therefore has a nested option as its result: the outer
    layer is the panic, the inner layer is the value the code returns.
  \<^item> Big-endian conversions (\<open>to_be_bytes\<close>, \<open>from_be_bytes\<close>) with their round trips.
  \<^item> Event loops: a \<open>loop\<close> around a \<open>select!\<close> is a step function that either goes on
    with a new state or stops with a result. The locale \<open>event_loop\<close> carries an invariant
    of the step through every run.
\<close>

type_synonym u8 = "8 word"
type_synonym u16 = "16 word"
type_synonym u32 = "32 word"
type_synonym u64 = "64 word"
type_synonym u128 = "128 word"
type_synonym bytes = "u8 list"

named_theorems be_simps \<open>big-endian byte conversions\<close>

lemma unat_u8 [simp]: "unat (b :: u8) < 256"
proof -
  have "unat b < 2 ^ LENGTH(8)" by (rule unsigned_less)
  then show ?thesis by simp
qed

lemma unat_u16 [simp]: "unat (w :: u16) < 65536"
proof -
  have "unat w < 2 ^ LENGTH(16)" by (rule unsigned_less)
  then show ?thesis by simp
qed

lemma append_eq_cases:
  assumes "xs @ ys = us @ vs"
  obtains (longer) zs where "xs = us @ zs" "zs @ ys = vs"
    | (shorter) zs where "us = xs @ zs" "zs \<noteq> []"
proof -
  from assms obtain zs where "xs = us @ zs \<and> zs @ ys = vs \<or> xs @ zs = us \<and> ys = zs @ vs"
    unfolding append_eq_append_conv2 by blast
  then show ?thesis
    by (cases "zs = []") (use longer [of zs] longer [of "[]"] shorter [of zs] in auto)
qed

subsection \<open>Reads that panic\<close>

definition idx :: "'a list \<Rightarrow> nat \<Rightarrow> 'a option" where
  "idx xs i = (if i < length xs then Some (xs ! i) else None)"

definition slice :: "'a list \<Rightarrow> nat \<Rightarrow> nat \<Rightarrow> 'a list option" where
  "slice xs a b = (if a \<le> b \<and> b \<le> length xs then Some (take (b - a) (drop a xs)) else None)"

lemma idx_Some [simp]: "i < length xs \<Longrightarrow> idx xs i = Some (xs ! i)"
  by (simp add: idx_def)

lemma idx_None [simp]: "length xs \<le> i \<Longrightarrow> idx xs i = None"
  by (simp add: idx_def)

lemma idx_append_right: "idx (xs @ ys) (length xs + i) = idx ys i"
  by (simp add: idx_def nth_append)

lemma slice_Some [simp]: "a \<le> b \<Longrightarrow> b \<le> length xs \<Longrightarrow> slice xs a b = Some (take (b - a) (drop a xs))"
  by (simp add: slice_def)

lemma slice_middle: "slice (xs @ ys @ zs) (length xs) (length xs + length ys) = Some ys"
  by (simp add: slice_def)

subsection \<open>usize arithmetic\<close>

text \<open>
  A \<open>usize\<close> is 64 bits wide on the platforms the program is built for. Positions are
  natural numbers here, and \<open>checked_add\<close> is the only place where the code asks for the
  overflow.
\<close>

definition checked_add_usize :: "nat \<Rightarrow> nat \<Rightarrow> nat option" where
  "checked_add_usize a b = (if a + b < 2 ^ 64 then Some (a + b) else None)"

lemma checked_add_usize_Some [simp]: "a + b < 2 ^ 64 \<Longrightarrow> checked_add_usize a b = Some (a + b)"
  by (simp add: checked_add_usize_def)

subsection \<open>Big-endian bytes\<close>

definition be_bytes :: "nat \<Rightarrow> 'a::len word \<Rightarrow> bytes" where
  "be_bytes n w = map (\<lambda>i. ucast (drop_bit (8 * i) w)) (rev [0..<n])"

definition of_be :: "bytes \<Rightarrow> 'a::len word" where
  "of_be bs = foldl (\<lambda>acc b. push_bit 8 acc OR ucast b) 0 bs"

lemma length_be_bytes [simp]: "length (be_bytes n w) = n"
  by (simp add: be_bytes_def)

lemma nth_be_bytes: "i < n \<Longrightarrow> be_bytes n w ! i = ucast (drop_bit (8 * (n - Suc i)) w)"
  by (simp add: be_bytes_def rev_nth)

lemma be_bytes_2: "be_bytes 2 w = [ucast (drop_bit 8 w), ucast w]"
  by (simp add: be_bytes_def numeral_2_eq_2)

lemma of_be_snoc: "of_be (bs @ [b]) = push_bit 8 (of_be bs) OR ucast b"
  by (simp add: of_be_def)

lemma bit_of_be:
  "bit (of_be bs :: 'a::len word) k \<longleftrightarrow>
     k < LENGTH('a) \<and> k < 8 * length bs \<and> bit (bs ! (length bs - Suc (k div 8))) (k mod 8)"
proof (induction bs arbitrary: k rule: rev_induct)
  case Nil
  then show ?case by (simp add: of_be_def)
next
  case (snoc b bs)
  show ?case
  proof (cases "k < 8")
    case True
    then show ?thesis
      by (auto simp: of_be_snoc bit_or_iff bit_push_bit_iff bit_ucast_iff nth_append)
  next
    case False
    then obtain j where k: "k = j + 8" by (metis add.commute le_Suc_ex not_less)
    have no: "\<not> bit b (j + 8)" using bit_imp_le_length by fastforce
    have "(j + 8) div 8 = Suc (j div 8)" by simp
    moreover have "j < 8 * length bs \<Longrightarrow> length bs - Suc (j div 8) < length bs" by auto
    ultimately show ?thesis using snoc.IH [of j] no
      by (auto simp: k of_be_snoc bit_or_iff bit_push_bit_iff bit_ucast_iff nth_append)
  qed
qed

lemma of_be_be_bytes_take:
  assumes "8 * n \<le> LENGTH('a)"
  shows "of_be (be_bytes n w) = take_bit (8 * n) (w :: 'a::len word)"
proof (rule bit_word_eqI)
  fix k assume k: "k < LENGTH('a)"
  show "bit (of_be (be_bytes n w) :: 'a word) k = bit (take_bit (8 * n) w) k"
  proof (cases "k < 8 * n")
    case True
    then have d: "k div 8 < n" by auto
    then have "n - Suc (n - Suc (k div 8)) = k div 8" by simp
    then show ?thesis
      using k d True by (simp add: bit_of_be nth_be_bytes bit_ucast_iff bit_drop_bit_eq bit_take_bit_iff)
  next
    case False
    then show ?thesis by (simp add: bit_of_be bit_take_bit_iff)
  qed
qed

lemma of_be_be_bytes [be_simps]: "LENGTH('a) = 8 * n \<Longrightarrow> of_be (be_bytes n w) = (w :: 'a::len word)"
  by (simp add: of_be_be_bytes_take take_bit_word_eq_self)

lemma be_bytes_of_be [be_simps]:
  assumes "length bs = n" and "8 * n \<le> LENGTH('a)"
  shows "be_bytes n (of_be bs :: 'a::len word) = bs"
proof (rule nth_equalityI)
  show "length (be_bytes n (of_be bs :: 'a word)) = length bs" using assms by simp
  fix i assume "i < length (be_bytes n (of_be bs :: 'a word))"
  then have i: "i < n" by simp
  show "be_bytes n (of_be bs :: 'a word) ! i = bs ! i"
  proof (rule bit_word_eqI)
    fix k assume k: "k < LENGTH(8)"
    have "(8 * (n - Suc i) + k) div 8 = n - Suc i" and "(8 * (n - Suc i) + k) mod 8 = k"
      using k by auto
    moreover have "8 * (n - Suc i) + k < 8 * n" using i k by simp
    moreover have "n - Suc (n - Suc i) = i" using i by simp
    ultimately show "bit (be_bytes n (of_be bs :: 'a word) ! i) k = bit (bs ! i) k"
      using i k assms by (simp add: nth_be_bytes bit_ucast_iff bit_drop_bit_eq bit_of_be)
  qed
qed

lemma be_bytes_inj: "LENGTH('a) = 8 * n \<Longrightarrow> be_bytes n v = be_bytes n w \<longleftrightarrow> v = (w :: 'a::len word)"
  using of_be_be_bytes by metis

lemma of_be_2 [be_simps]: "(of_be [ucast (drop_bit 8 w), ucast w] :: u16) = w"
  using of_be_be_bytes [of 2 w] by (simp add: be_bytes_2)

text \<open>The value of a big-endian list as a number.\<close>

lemma unat_of_be_snoc:
  assumes "8 * Suc (length bs) \<le> LENGTH('a)"
  shows "unat (of_be (bs @ [b]) :: 'a::len word) = 256 * unat (of_be bs :: 'a word) + unat b"
proof -
  let ?v = "of_be bs :: 'a word"
  have "unat ?v < 2 ^ (8 * length bs)"
  proof -
    have "take_bit (8 * length bs) ?v = ?v"
      by (rule bit_word_eqI) (auto simp: bit_take_bit_iff bit_of_be)
    then have "take_bit (8 * length bs) (unat ?v) = unat ?v"
      by (metis unsigned_take_bit_eq)
    then show ?thesis by (metis take_bit_nat_less_exp)
  qed
  then have small: "256 * unat ?v + unat b < 2 ^ LENGTH('a)"
  proof -
    assume a: "unat ?v < 2 ^ (8 * length bs)"
    have "unat b < 256" by simp
    then have "256 * unat ?v + unat b < 256 * 2 ^ (8 * length bs)" using a by linarith
    also have "\<dots> = 2 ^ (8 * Suc (length bs))" by (simp add: power_add)
    also have "\<dots> \<le> 2 ^ LENGTH('a)" using assms by (intro power_increasing) simp_all
    finally show ?thesis .
  qed
  have "push_bit 8 ?v AND ucast b = (0 :: 'a word)"
    by (rule bit_word_eqI) (auto simp: bit_and_iff bit_push_bit_iff bit_ucast_iff dest: bit_imp_le_length)
  then have "of_be (bs @ [b]) = push_bit 8 ?v + ucast b"
    by (simp add: of_be_snoc disjunctive_add_eq_or)
  then have "of_be (bs @ [b]) = (word_of_nat (256 * unat ?v + unat b) :: 'a word)"
    by (simp add: push_bit_eq_mult mult.commute)
  then show ?thesis using small by (auto intro: of_nat_inverse)
qed

subsection \<open>Event loops\<close>

text \<open>
  One turn of a loop either goes on with a state or stops with the value the function
  returns. A run over a list of events stops at the first turn that stops.
\<close>

datatype ('s, 'r) ctl = Go 's | Stop 'r

fun run_loop :: "('e \<Rightarrow> 's \<Rightarrow> ('s, 'r) ctl) \<Rightarrow> 'e list \<Rightarrow> 's \<Rightarrow> ('s, 'r) ctl" where
  "run_loop step [] s = Go s"
| "run_loop step (e # es) s = (case step e s of Go s' \<Rightarrow> run_loop step es s' | Stop r \<Rightarrow> Stop r)"

lemma run_loop_append:
  "run_loop step (es @ fs) s =
     (case run_loop step es s of Go s' \<Rightarrow> run_loop step fs s' | Stop r \<Rightarrow> Stop r)"
  by (induction es arbitrary: s) (simp_all split: ctl.split)

text \<open>
  The contract of a loop: \<open>inv\<close> holds of every state the loop goes on with and \<open>post\<close> of
  every result it stops with, as long as every event satisfies \<open>ev\<close>.
\<close>

locale event_loop =
  fixes step :: "'e \<Rightarrow> 's \<Rightarrow> ('s, 'r) ctl"
    and inv :: "'s \<Rightarrow> bool"
    and post :: "'r \<Rightarrow> bool"
    and ev :: "'e \<Rightarrow> bool"
  assumes step_Go: "ev e \<Longrightarrow> inv s \<Longrightarrow> step e s = Go s' \<Longrightarrow> inv s'"
    and step_Stop: "ev e \<Longrightarrow> inv s \<Longrightarrow> step e s = Stop r \<Longrightarrow> post r"
begin

lemma run_Go: "\<forall>e \<in> set es. ev e \<Longrightarrow> inv s \<Longrightarrow> run_loop step es s = Go s' \<Longrightarrow> inv s'"
proof (induction es arbitrary: s)
  case (Cons e es)
  then show ?case using step_Go [of e s] by (auto split: ctl.splits)
qed simp

lemma run_Stop_at: "\<forall>e \<in> set es. ev e \<Longrightarrow> inv s \<Longrightarrow> run_loop step es s = Stop r \<Longrightarrow>
    \<exists>e \<in> set es. \<exists>s'. inv s' \<and> step e s' = Stop r"
proof (induction es arbitrary: s)
  case (Cons e es)
  then show ?case using step_Go [of e s] by (auto split: ctl.splits)
qed simp

lemma run_Stop: "\<forall>e \<in> set es. ev e \<Longrightarrow> inv s \<Longrightarrow> run_loop step es s = Stop r \<Longrightarrow> post r"
proof (induction es arbitrary: s)
  case (Cons e es)
  then show ?case using step_Go [of e s] step_Stop [of e s] by (auto split: ctl.splits)
qed simp

end

text \<open>What holds of a turn, whichever way it ends.\<close>

fun ctl_all :: "('s \<Rightarrow> bool) \<Rightarrow> ('r \<Rightarrow> bool) \<Rightarrow> ('s, 'r) ctl \<Rightarrow> bool" where
  "ctl_all I P (Go s) = I s"
| "ctl_all I P (Stop r) = P r"

lemma run_ends:
  "(\<And>t s. t \<in> set ts \<Longrightarrow> step t s \<noteq> Stop bad) \<Longrightarrow> run_loop step ts s \<noteq> Stop bad"
proof (induction ts arbitrary: s)
  case (Cons t ts)
  show ?case
  proof (cases "step t s")
    case (Go s')
    then show ?thesis using Cons by simp
  next
    case (Stop r)
    then show ?thesis using Cons.prems [of t s] by simp
  qed
qed simp

text \<open>A turn that stops from every state is never passed.\<close>

lemma run_stops:
  assumes "t \<in> set ts" "\<And>s. \<exists>r. step t s = Stop r"
  shows "\<exists>r. run_loop step ts s = Stop r"
  using assms(1)
proof (induction ts arbitrary: s)
  case (Cons u ts)
  then show ?case using assms(2) [of s] by (cases "step u s") auto
qed simp

text \<open>
  Loops that stop with success once something has happened a number of times: \<open>hit\<close> says that
  it happened in a turn, \<open>cnt\<close> is the loop's own counter, and a good result comes only in a
  turn with a hit that brings the counter to \<open>need\<close>.
\<close>

fun count_turns :: "('e \<Rightarrow> 's \<Rightarrow> bool) \<Rightarrow> ('e \<Rightarrow> 's \<Rightarrow> ('s, 'r) ctl) \<Rightarrow> 'e list \<Rightarrow> 's \<Rightarrow> nat" where
  "count_turns hit step [] s = 0"
| "count_turns hit step (e # es) s =
     (if hit e s then 1 else 0) + (case step e s of Go s' \<Rightarrow> count_turns hit step es s' | Stop _ \<Rightarrow> 0)"

locale confirming_loop =
  fixes step :: "'e \<Rightarrow> 's \<Rightarrow> ('s, 'r) ctl"
    and hit :: "'e \<Rightarrow> 's \<Rightarrow> bool"
    and cnt :: "'s \<Rightarrow> nat"
    and good :: "'r \<Rightarrow> bool"
    and need :: nat
  assumes step_counts: "cnt s < need \<Longrightarrow> step e s = Go s' \<Longrightarrow> cnt s' = cnt s + (if hit e s then 1 else 0) \<and> cnt s' < need"
    and step_confirms: "cnt s < need \<Longrightarrow> step e s = Stop r \<Longrightarrow> good r \<Longrightarrow> hit e s \<and> cnt s + 1 = need"
begin

lemma run_counts:
  "cnt s < need \<Longrightarrow> run_loop step es s = Go s' \<Longrightarrow> cnt s' = cnt s + count_turns hit step es s \<and> cnt s' < need"
proof (induction es arbitrary: s)
  case (Cons e es)
  then obtain s1 where s1: "step e s = Go s1" by (auto split: ctl.splits)
  show ?case using Cons.IH [of s1] step_counts [OF Cons.prems(1) s1] Cons.prems(2) s1 by simp
qed simp

lemma run_confirms:
  "cnt s < need \<Longrightarrow> run_loop step es s = Stop r \<Longrightarrow> good r \<Longrightarrow> cnt s + count_turns hit step es s = need"
proof (induction es arbitrary: s)
  case (Cons e es)
  show ?case
  proof (cases "step e s")
    case (Go s1)
    then show ?thesis
      using Cons.IH [of s1] step_counts [OF Cons.prems(1) Go] Cons.prems(2, 3) by simp
  next
    case (Stop r')
    then show ?thesis using step_confirms [OF Cons.prems(1) Stop] Cons.prems(2, 3) by simp
  qed
qed simp

end

end
