(* ===== verification/Rust_Str.thy ===== *)
theory Rust_Str
  imports Prelude
begin

section \<open>The string operations of the Rust standard library the code uses\<close>

text \<open>
  A Rust \<open>str\<close> is its UTF-8 encoding, one \<open>char\<close> of HOL per byte, so that literals are
  written \<open>''...''\<close> and lengths count bytes as \<open>str::len\<close> does.

  \<^item> \<open>trim\<close> removes the Unicode white space of both ends, byte sequence by byte sequence.
  \<^item> \<open>to_lowercase\<close> maps the ASCII letters. The two characters beyond ASCII whose lower case
    holds an ASCII letter (the Kelvin sign and the dotted capital I) lower to a \<open>k\<close> and to
    an \<open>i\<close> followed by a combining dot. No word the code compares with holds a \<open>k\<close> or a
    combining dot, so the comparisons come out as in Rust.
  \<^item> \<open>parse_uint w\<close> is \<open>str::parse\<close> for the unsigned integer of \<open>w\<close> bits: an optional plus
    sign and at least one decimal digit, \<open>None\<close> on overflow.
  \<^item> \<open>from_utf8_lossy\<close> replaces every maximal ill-formed byte sequence by U+FFFD.
\<close>

type_synonym str = string

definition text_bytes :: "str \<Rightarrow> bytes" where
  "text_bytes s = map of_char s"

definition bytes_text :: "bytes \<Rightarrow> str" where
  "bytes_text bs = map (\<lambda>b. char_of (unat b)) bs"

lemma length_text_bytes [simp]: "length (text_bytes s) = length s"
  by (simp add: text_bytes_def)

lemma length_bytes_text [simp]: "length (bytes_text bs) = length bs"
  by (simp add: bytes_text_def)

lemma text_bytes_bytes_text [simp]: "text_bytes (bytes_text bs) = bs"
proof -
  have "of_char (char_of (unat b) :: char) = (b :: u8)" for b :: u8
  proof -
    have "of_char (char_of (unat b) :: char) = (word_of_nat (of_char (char_of (unat b) :: char)) :: u8)"
      by (metis of_nat_of_char)
    also have "\<dots> = b" using unat_u8 [of b] by (simp del: unat_u8)
    finally show ?thesis .
  qed
  then show ?thesis by (simp add: text_bytes_def bytes_text_def map_idI)
qed

lemma unat_of_char_u8 [simp]: "unat (of_char c :: u8) = of_char c"
proof -
  have e: "of_char c = (word_of_nat (of_char c) :: u8)" by (metis of_nat_of_char)
  have "of_char c < (256 :: nat)" by (rule nat_of_char_less_256)
  then show ?thesis by (subst e) (simp add: unat_of_nat take_bit_nat_eq_self)
qed

lemma bytes_text_text_bytes [simp]: "bytes_text (text_bytes s) = s"
  by (simp add: text_bytes_def bytes_text_def map_idI)

subsection \<open>White space and letter case\<close>

definition ws_encodings :: "str list" where
  "ws_encodings =
     map (\<lambda>c. [c]) [CHR 0x20, CHR 0x09, CHR 0x0A, CHR 0x0B, CHR 0x0C, CHR 0x0D]
     @ [[CHR 0xC2, CHR 0x85], [CHR 0xC2, CHR 0xA0], [CHR 0xE1, CHR 0x9A, CHR 0x80]]
     @ map (\<lambda>c. [CHR 0xE2, CHR 0x80, c])
         [CHR 0x80, CHR 0x81, CHR 0x82, CHR 0x83, CHR 0x84, CHR 0x85, CHR 0x86, CHR 0x87,
          CHR 0x88, CHR 0x89, CHR 0x8A, CHR 0xA8, CHR 0xA9, CHR 0xAF]
     @ [[CHR 0xE2, CHR 0x81, CHR 0x9F], [CHR 0xE3, CHR 0x80, CHR 0x80]]"

fun strip_prefix :: "'a list \<Rightarrow> 'a list \<Rightarrow> 'a list option" where
  "strip_prefix [] s = Some s"
| "strip_prefix (p # ps) (c # s) = (if p = c then strip_prefix ps s else None)"
| "strip_prefix (p # ps) [] = None"

fun strip_any :: "'a list list \<Rightarrow> 'a list \<Rightarrow> 'a list option" where
  "strip_any [] s = None"
| "strip_any (p # ps) s = (case strip_prefix p s of Some r \<Rightarrow> Some r | None \<Rightarrow> strip_any ps s)"

lemma strip_prefix_length: "strip_prefix p s = Some r \<Longrightarrow> length r + length p = length s"
  by (induction p s rule: strip_prefix.induct) (auto split: if_splits)

lemma strip_any_length: "strip_any ps s = Some r \<Longrightarrow> length r \<le> length s"
  by (induction ps s rule: strip_any.induct) (auto dest!: strip_prefix_length split: option.splits)

lemma strip_any_shorter: "[] \<notin> set ps \<Longrightarrow> strip_any ps s = Some r \<Longrightarrow> length r < length s"
proof (induction ps s rule: strip_any.induct)
  case (2 p ps s)
  then show ?case using strip_prefix_length [of p s] by (cases p) (fastforce split: option.splits)+
qed simp

fun trim_fuel :: "nat \<Rightarrow> 'a list list \<Rightarrow> 'a list \<Rightarrow> 'a list" where
  "trim_fuel 0 ws s = s"
| "trim_fuel (Suc n) ws s = (case strip_any ws s of Some r \<Rightarrow> trim_fuel n ws r | None \<Rightarrow> s)"

text \<open>Every white space sequence is at least one byte long, so the length is enough fuel.\<close>

definition trim_start :: "str \<Rightarrow> str" where
  "trim_start s = trim_fuel (length s) ws_encodings s"

definition trim_end :: "str \<Rightarrow> str" where
  "trim_end s = rev (trim_fuel (length s) (map rev ws_encodings) (rev s))"

definition trim :: "str \<Rightarrow> str" where
  "trim s = trim_end (trim_start s)"

lemma ws_encodings_nonempty: "[] \<notin> set ws_encodings"
  by (simp add: ws_encodings_def)

text \<open>
  \<open>splitn(2, char::is_whitespace)\<close>, with an empty second part when there is no white space,
  and the text without its white space.
\<close>

fun split_ws :: "str \<Rightarrow> str \<times> str" where
  "split_ws [] = ([], [])"
| "split_ws (c # s) =
     (case strip_any ws_encodings (c # s) of
        Some r \<Rightarrow> ([], r)
      | None \<Rightarrow> (case split_ws s of (a, b) \<Rightarrow> (c # a, b)))"

function remove_ws :: "str \<Rightarrow> str" where
  "remove_ws [] = []"
| "remove_ws (c # s) =
     (case strip_any ws_encodings (c # s) of Some r \<Rightarrow> remove_ws r | None \<Rightarrow> c # remove_ws s)"
  by pat_completeness auto
termination
  by (relation "measure length")
    (auto dest!: strip_any_shorter [OF ws_encodings_nonempty])

definition lower_char :: "char \<Rightarrow> char" where
  "lower_char c =
     (let n = (of_char c :: nat) in if 65 \<le> n \<and> n \<le> 90 then char_of (n + 32) else c)"

definition to_lowercase :: "str \<Rightarrow> str" where
  "to_lowercase s = map lower_char s"

definition eq_ignore_ascii_case :: "str \<Rightarrow> str \<Rightarrow> bool" where
  "eq_ignore_ascii_case s t \<longleftrightarrow> map lower_char s = map lower_char t"

subsection \<open>Splitting\<close>

fun split_on :: "char \<Rightarrow> str \<Rightarrow> str list" where
  "split_on d [] = [[]]"
| "split_on d (c # s) =
     (if c = d then [] # split_on d s
      else case split_on d s of [] \<Rightarrow> [[c]] | w # ws \<Rightarrow> (c # w) # ws)"

fun split_once :: "char \<Rightarrow> str \<Rightarrow> (str \<times> str) option" where
  "split_once d [] = None"
| "split_once d (c # s) =
     (if c = d then Some ([], s)
      else case split_once d s of None \<Rightarrow> None | Some (a, b) \<Rightarrow> Some (c # a, b))"

lemma split_on_nonempty [simp]: "split_on d s \<noteq> []"
  by (induction s) (auto split: list.split)

lemma split_once_Some: "split_once d s = Some (a, b) \<Longrightarrow> s = a @ d # b \<and> d \<notin> set a"
  by (induction s arbitrary: a b) (auto split: if_splits option.splits)

lemma split_once_None: "split_once d s = None \<longleftrightarrow> d \<notin> set s"
  by (induction s) (auto split: option.splits)

lemma split_once_append [simp]: "d \<notin> set a \<Longrightarrow> split_once d (a @ d # b) = Some (a, b)"
  by (induction a) auto

text \<open>\<open>str::rfind\<close> with a predicate: the position of the last byte that satisfies it.\<close>

definition rfind :: "(char \<Rightarrow> bool) \<Rightarrow> str \<Rightarrow> nat option" where
  "rfind P s = (case filter (\<lambda>i. P (s ! i)) [0..<length s] of [] \<Rightarrow> None | is \<Rightarrow> Some (last is))"

subsection \<open>Numbers\<close>

definition digit_val :: "nat \<Rightarrow> char \<Rightarrow> nat option" where
  "digit_val radix c =
     (let n = (of_char c :: nat);
          v = (if 48 \<le> n \<and> n \<le> 57 then Some (n - 48)
               else if 97 \<le> n \<and> n \<le> 122 then Some (n - 87)
               else if 65 \<le> n \<and> n \<le> 90 then Some (n - 55) else None)
      in case v of Some d \<Rightarrow> (if d < radix then Some d else None) | None \<Rightarrow> None)"

fun digits_val :: "nat \<Rightarrow> str \<Rightarrow> nat \<Rightarrow> nat option" where
  "digits_val radix [] acc = Some acc"
| "digits_val radix (c # s) acc =
     (case digit_val radix c of None \<Rightarrow> None | Some d \<Rightarrow> digits_val radix s (radix * acc + d))"

definition parse_uint :: "nat \<Rightarrow> str \<Rightarrow> nat option" where
  "parse_uint w s =
     (let t = (case s of c # r \<Rightarrow> if c = CHR ''+'' then r else s | [] \<Rightarrow> [])
      in if t = [] then None
         else case digits_val 10 t 0 of
           None \<Rightarrow> None
         | Some n \<Rightarrow> if n < 2 ^ w then Some n else None)"

lemma parse_uint_bound: "parse_uint w s = Some n \<Longrightarrow> n < 2 ^ w"
  by (auto simp: parse_uint_def Let_def split: option.splits if_splits list.splits)

text \<open>\<open>Display\<close> of an unsigned integer.\<close>

fun show_nat :: "nat \<Rightarrow> str" where
  "show_nat n = (if n < 10 then [char_of (48 + n)] else show_nat (n div 10) @ [char_of (48 + n mod 10)])"

declare show_nat.simps [simp del]

subsection \<open>Lossy UTF-8 decoding\<close>

definition is_cont :: "u8 \<Rightarrow> bool" where
  "is_cont b \<longleftrightarrow> 0x80 \<le> b \<and> b \<le> 0xBF"

text \<open>The range of the second byte a lead byte allows, and the bytes after it.\<close>

definition utf8_lead :: "u8 \<Rightarrow> (u8 \<times> u8 \<times> nat) option" where
  "utf8_lead b =
     (if 0xC2 \<le> b \<and> b \<le> 0xDF then Some (0x80, 0xBF, 0)
      else if b = 0xE0 then Some (0xA0, 0xBF, 1)
      else if 0xE1 \<le> b \<and> b \<le> 0xEC then Some (0x80, 0xBF, 1)
      else if b = 0xED then Some (0x80, 0x9F, 1)
      else if 0xEE \<le> b \<and> b \<le> 0xEF then Some (0x80, 0xBF, 1)
      else if b = 0xF0 then Some (0x90, 0xBF, 2)
      else if 0xF1 \<le> b \<and> b \<le> 0xF3 then Some (0x80, 0xBF, 2)
      else if b = 0xF4 then Some (0x80, 0x8F, 2)
      else None)"

definition replacement :: bytes where
  "replacement = [0xEF, 0xBF, 0xBD]"

text \<open>
  \<open>take_cont n s\<close> reads \<open>n\<close> continuation bytes: the bytes it could read, whether all
  of them were there, and the rest.
\<close>

fun take_cont :: "nat \<Rightarrow> bytes \<Rightarrow> bytes \<times> bool \<times> bytes" where
  "take_cont 0 s = ([], True, s)"
| "take_cont (Suc n) [] = ([], False, [])"
| "take_cont (Suc n) (b # s) =
     (if is_cont b then (case take_cont n s of (p, ok, r) \<Rightarrow> (b # p, ok, r))
      else ([], False, b # s))"

lemma take_cont_rest: "take_cont n s = (p, ok, r) \<Longrightarrow> length r \<le> length s"
  by (induction n s arbitrary: p rule: take_cont.induct) (fastforce split: if_splits prod.splits)+

function from_utf8_lossy :: "bytes \<Rightarrow> bytes" where
  "from_utf8_lossy [] = []"
| "from_utf8_lossy (b # s) =
     (if b < 0x80 then b # from_utf8_lossy s
      else case utf8_lead b of
        None \<Rightarrow> replacement @ from_utf8_lossy s
      | Some (lo, hi, n) \<Rightarrow>
          (case s of
             [] \<Rightarrow> replacement
           | c # s' \<Rightarrow>
               if lo \<le> c \<and> c \<le> hi then
                 (case take_cont n s' of (p, ok, r) \<Rightarrow>
                    (if ok then b # c # p else replacement) @ from_utf8_lossy r)
               else replacement @ from_utf8_lossy s))"
  by pat_completeness auto
termination
  by (relation "measure length") (auto dest: take_cont_rest [OF sym] simp: le_imp_less_Suc le_SucI)

declare from_utf8_lossy.simps(2) [simp del]

lemma from_utf8_lossy_ascii: "\<forall>b \<in> set s. b < 0x80 \<Longrightarrow> from_utf8_lossy s = s"
  by (induction s) (simp_all add: from_utf8_lossy.simps(2))

end
