(* ===== verification/Errors.thy ===== *)
theory Errors
  imports Rust_Str
begin

section \<open>The error type (error.rs)\<close>

text \<open>
  \<open>AetherError\<close> with its constructors in the order of the source. The wrapped errors of the
  standard library and of quiche are the text they render to, which is all the program does
  with them. \<open>error_text\<close> is the \<open>Display\<close> implementation the attributes generate.
\<close>

datatype aether_error =
    Io str
  | Quic str
  | H3 str
  | Tls str
  | Ech str
  | Masque str
  | NoCleanEndpoint
  | Capsule str
  | Api str
  | Other str

fun error_text :: "aether_error \<Rightarrow> str" where
  "error_text (Io e) = ''io: '' @ e"
| "error_text (Quic e) = ''quic: '' @ e"
| "error_text (H3 e) = ''h3: '' @ e"
| "error_text (Tls e) = ''tls: '' @ e"
| "error_text (Ech e) = ''ech: '' @ e"
| "error_text (Masque e) = ''masque: '' @ e"
| "error_text NoCleanEndpoint = ''prober: no clean endpoint found''"
| "error_text (Capsule e) = ''capsule: '' @ e"
| "error_text (Api e) = ''api: '' @ e"
| "error_text (Other e) = ''other: '' @ e"

type_synonym 'a result = "aether_error + 'a"

definition is_ok :: "'a result \<Rightarrow> bool" where
  "is_ok r = (case r of Inl _ \<Rightarrow> False | Inr _ \<Rightarrow> True)"

definition ok :: "'a result \<Rightarrow> 'a option" where
  "ok r = (case r of Inl _ \<Rightarrow> None | Inr x \<Rightarrow> Some x)"

lemma is_ok_simps [simp]: "is_ok (Inr x)" "\<not> is_ok (Inl e)"
  by (simp_all add: is_ok_def)

lemma ok_simps [simp]: "ok (Inr x) = Some x" "ok (Inl e) = None"
  by (simp_all add: ok_def)

lemma is_ok_iff: "is_ok r \<longleftrightarrow> (\<exists>x. r = Inr x)"
  by (cases r) simp_all

text \<open>The question mark operator.\<close>

definition proceed :: "'a result \<Rightarrow> ('a \<Rightarrow> 'b result) \<Rightarrow> 'b result" where
  "proceed r k = (case r of Inl e \<Rightarrow> Inl e | Inr x \<Rightarrow> k x)"

lemma proceed_simps [simp]: "proceed (Inl e) k = Inl e" "proceed (Inr x) k = k x"
  by (simp_all add: proceed_def)

lemma proceed_Inr: "proceed r k = Inr y \<longleftrightarrow> (\<exists>x. r = Inr x \<and> k x = Inr y)"
  by (cases r) simp_all

subsection \<open>Calls that change state\<close>

text \<open>The question mark operator on a call that changes a state.\<close>

definition andthen :: "'s \<times> 'a result \<Rightarrow> ('a \<Rightarrow> 's \<Rightarrow> 's \<times> 'b result) \<Rightarrow> 's \<times> 'b result" where
  "andthen r k = (case r of (s, Inl e) \<Rightarrow> (s, Inl e) | (s, Inr x) \<Rightarrow> k x s)"

lemma andthen_simps [simp]:
  "andthen (s, Inl e) k = (s, Inl e)" "andthen (s, Inr x) k = k x s"
  by (simp_all add: andthen_def)

text \<open>\<open>andthen\<close> for the calls that may panic.\<close>

definition andthen_p :: "'s \<times> 'a result \<Rightarrow> ('a \<Rightarrow> 's \<Rightarrow> ('s \<times> 'b result) option) \<Rightarrow> ('s \<times> 'b result) option" where
  "andthen_p r k = (case r of (s, Inl e) \<Rightarrow> Some (s, Inl e) | (s, Inr x) \<Rightarrow> k x s)"

lemma andthen_p_simps [simp]:
  "andthen_p (s, Inl e) k = Some (s, Inl e)" "andthen_p (s, Inr x) k = k x s"
  by (simp_all add: andthen_p_def)

text \<open>\<open>StatusCode::is_success\<close> of the http crate.\<close>

definition is_success :: "nat \<Rightarrow> bool" where
  "is_success status \<longleftrightarrow> 200 \<le> status \<and> status < 300"

end
