(* ===== verification/Octets.thy ===== *)
theory Octets
  imports Errors
begin

section \<open>The octets crate: the interface the MASQUE code relies on\<close>

text \<open>
  The octets crate is not part of the repository. A reader is a cursor over the bytes that
  are left and a writer a buffer of fixed size that is filled from the front; both refuse an
  operation that does not fit (\<open>BufferTooShortError\<close>). The QUIC variable-length integers
  are the parameter of the model: \<open>vput v\<close> is what \<open>put_varint\<close> writes for \<open>v\<close>, and
  \<open>vget bs\<close> is the value \<open>get_varint\<close> reads from \<open>bs\<close> with the number of bytes it takes.

  The locale \<open>octets_crate\<close> states the documented behaviour of that parameter (RFC 9000,
  section 16), and the last section interprets it on the encoding of the RFC.
\<close>

record octets =
  vput :: "u64 \<Rightarrow> bytes"
  vget :: "bytes \<Rightarrow> (u64 \<times> nat) option"
  too_short :: str

subsection \<open>Reading\<close>

definition get_varint :: "octets \<Rightarrow> bytes \<Rightarrow> (u64 \<times> bytes) option" where
  "get_varint oc bs = map_option (\<lambda>(v, n). (v, drop n bs)) (vget oc bs)"

definition get_u8 :: "bytes \<Rightarrow> (u8 \<times> bytes) option" where
  "get_u8 bs = (case bs of [] \<Rightarrow> None | b # r \<Rightarrow> Some (b, r))"

definition get_bytes :: "nat \<Rightarrow> bytes \<Rightarrow> (bytes \<times> bytes) option" where
  "get_bytes n bs = (if n \<le> length bs then Some (take n bs, drop n bs) else None)"

lemma get_u8_length: "get_u8 bs = Some (b, r) \<Longrightarrow> length bs = Suc (length r)"
  by (auto simp: get_u8_def split: list.splits)

lemma get_bytes_length: "get_bytes n bs = Some (x, r) \<Longrightarrow> length bs = n + length r"
  by (auto simp: get_bytes_def split: if_splits)

lemma get_varint_length: "get_varint oc bs = Some (v, r) \<Longrightarrow> length r \<le> length bs"
  by (auto simp: get_varint_def)

lemma get_u8_Cons [simp]: "get_u8 (b # r) = Some (b, r)"
  by (simp add: get_u8_def)

lemma get_bytes_append [simp]: "length x = n \<Longrightarrow> get_bytes n (x @ r) = Some (x, r)"
  by (simp add: get_bytes_def)

subsection \<open>Writing\<close>

text \<open>A writer: what was written so far and how much room is left of the zeroed buffer.\<close>

type_synonym octets_mut = "bytes \<times> nat"

definition om_new :: "nat \<Rightarrow> octets_mut" where
  "om_new cap = ([], cap)"

definition om_put :: "bytes \<Rightarrow> octets_mut \<Rightarrow> octets_mut option" where
  "om_put bs b = (if length bs \<le> snd b then Some (fst b @ bs, snd b - length bs) else None)"

text \<open>\<open>let _ = b.put_...\<close>: a failed write leaves the buffer as it was.\<close>

definition om_try :: "bytes \<Rightarrow> octets_mut \<Rightarrow> octets_mut" where
  "om_try bs b = (case om_put bs b of Some b' \<Rightarrow> b' | None \<Rightarrow> b)"

definition om_bytes :: "octets_mut \<Rightarrow> bytes" where
  "om_bytes b = fst b @ replicate (snd b) 0"

lemma om_put_fits [simp]: "length bs \<le> n \<Longrightarrow> om_put bs (w, n) = Some (w @ bs, n - length bs)"
  by (simp add: om_put_def)

lemma om_try_fits [simp]: "length bs \<le> n \<Longrightarrow> om_try bs (w, n) = (w @ bs, n - length bs)"
  by (simp add: om_try_def)

lemma om_bytes_full [simp]: "om_bytes (w, 0) = w"
  by (simp add: om_bytes_def)

subsection \<open>The contract of the variable-length integers\<close>

definition varint_size :: "u64 \<Rightarrow> nat" where
  "varint_size v = (if v < 64 then 1 else if v < 16384 then 2 else if v < 1073741824 then 4 else 8)"

definition varint_max :: u64 where
  "varint_max = 4611686018427387904"

locale octets_crate =
  fixes oc :: octets
  assumes vput_length: "v < varint_max \<Longrightarrow> length (vput oc v) = varint_size v"
    and vget_vput: "v < varint_max \<Longrightarrow> vget oc (vput oc v @ r) = Some (v, length (vput oc v))"
    and vget_short: "v < varint_max \<Longrightarrow> vput oc v = p @ q \<Longrightarrow> q \<noteq> [] \<Longrightarrow> vget oc p = None"
    and vget_takes: "vget oc bs = Some (v, n) \<Longrightarrow> 0 < n \<and> n \<le> length bs"
begin

lemma vput_nonempty: "v < varint_max \<Longrightarrow> vput oc v \<noteq> []"
  using vput_length [of v] by (auto simp: varint_size_def split: if_splits)

lemma get_varint_vput [simp]: "v < varint_max \<Longrightarrow> get_varint oc (vput oc v @ r) = Some (v, r)"
  by (simp add: get_varint_def vget_vput)

lemma get_varint_short: "v < varint_max \<Longrightarrow> vput oc v = p @ q \<Longrightarrow> q \<noteq> [] \<Longrightarrow> get_varint oc p = None"
  by (simp add: get_varint_def vget_short)

lemma get_varint_takes: "get_varint oc bs = Some (v, r) \<Longrightarrow> length r < length bs"
  by (auto simp: get_varint_def dest: vget_takes)

end

subsection \<open>The encoding of RFC 9000\<close>

text \<open>The two top bits of the first byte give the base-2 logarithm of the length.\<close>

definition rfc_tag :: "u64 \<Rightarrow> nat" where
  "rfc_tag v = (if v < 64 then 0 else if v < 16384 then 1 else if v < 1073741824 then 2 else 3)"

definition rfc_vput :: "u64 \<Rightarrow> bytes" where
  "rfc_vput v = (let n = 2 ^ rfc_tag v in be_bytes n (v OR push_bit (8 * n - 2) (word_of_nat (rfc_tag v))))"

definition rfc_vget :: "bytes \<Rightarrow> (u64 \<times> nat) option" where
  "rfc_vget bs =
     (case bs of
        [] \<Rightarrow> None
      | b # _ \<Rightarrow>
          let n = 2 ^ unat (drop_bit 6 b)
          in if length bs < n then None else Some (take_bit (8 * n - 2) (of_be (take n bs)), n))"

definition rfc_octets :: octets where
  "rfc_octets = \<lparr>vput = rfc_vput, vget = rfc_vget, too_short = ''BufferTooShortError''\<rparr>"

lemma rfc_tag_cases: "rfc_tag v \<in> {0, 1, 2, 3}"
  by (simp add: rfc_tag_def)

lemma rfc_size: "varint_size v = 2 ^ rfc_tag v"
  by (simp add: varint_size_def rfc_tag_def)

lemma rfc_tag_bits: "v < varint_max \<Longrightarrow> v < 2 ^ (8 * 2 ^ rfc_tag v - 2)"
  by (auto simp: rfc_tag_def varint_max_def)

lemma less_exp_no_bits: "v < 2 ^ k \<Longrightarrow> k \<le> i \<Longrightarrow> k < LENGTH('a) \<Longrightarrow> \<not> bit (v :: 'a::len word) i"
  by (metis bit_take_bit_iff leD less_mask_eq take_bit_eq_mask)

lemma rfc_vput_length: "length (rfc_vput v) = varint_size v"
  by (simp add: rfc_vput_def Let_def rfc_size)

lemma rfc_first_byte:
  assumes v: "v < 2 ^ (8 * m + 6)" and t: "t < 4" and m: "m < 8"
  shows "drop_bit 6 (be_bytes (Suc m) (v OR push_bit (8 * m + 6) (word_of_nat t :: u64)) ! 0) = (word_of_nat t :: u8)"
    (is "drop_bit 6 (be_bytes _ ?w ! 0) = _")
proof (rule bit_word_eqI)
  fix i assume i: "i < LENGTH(8)"
  have no: "\<not> bit v k" if "8 * m + 6 \<le> k" for k
    using less_exp_no_bits [OF v that] m by simp
  have "take_bit 2 t = t" using t by (simp add: take_bit_nat_eq_self)
  then have small: "\<not> bit t k" if "2 \<le> k" for k
    using that by (metis bit_take_bit_iff leD)
  show "bit (drop_bit 6 (be_bytes (Suc m) ?w ! 0)) i = bit (word_of_nat t :: u8) i"
  proof (cases "i < 2")
    case True
    then have "8 * m + (6 + i) < 64" using m by simp
    then show ?thesis using True i no [of "8 * m + 6 + i"]
      by (simp add: nth_be_bytes bit_drop_bit_eq bit_ucast_iff bit_or_iff bit_push_bit_iff
          bit_of_nat_iff ac_simps)
  next
    case False
    then have "\<not> bit (be_bytes (Suc m) ?w ! 0) (6 + i)"
      by (auto dest: bit_imp_le_length)
    then show ?thesis using False small [of i]
      by (simp add: bit_drop_bit_eq bit_of_nat_iff)
  qed
qed

lemma rfc_vput_Suc:
  obtains m where "2 ^ rfc_tag v = Suc m" "m < 8"
    "rfc_vput v = be_bytes (Suc m) (v OR push_bit (8 * m + 6) (word_of_nat (rfc_tag v)))"
    "v < varint_max \<Longrightarrow> v < 2 ^ (8 * m + 6)"
proof
  let ?m = "2 ^ rfc_tag v - 1 :: nat"
  show m: "2 ^ rfc_tag v = Suc ?m" by simp
  show "?m < 8" by (auto simp: rfc_tag_def)
  have e: "8 * 2 ^ rfc_tag v - 2 = 8 * ?m + 6" using m by linarith
  show "rfc_vput v = be_bytes (Suc ?m) (v OR push_bit (8 * ?m + 6) (word_of_nat (rfc_tag v)))"
    unfolding rfc_vput_def Let_def e by (simp flip: m)
  show "v < varint_max \<Longrightarrow> v < 2 ^ (8 * ?m + 6)"
    using rfc_tag_bits [of v] unfolding e .
qed

lemma rfc_tag_less [simp]: "rfc_tag v < 4"
  by (simp add: rfc_tag_def)

lemma rfc_vget_len:
  assumes v: "v < varint_max" and pq: "rfc_vput v = p @ q" and p: "p \<noteq> []"
  shows "rfc_vget (p @ r) =
    (if length (p @ r) < 2 ^ rfc_tag v then None
     else Some (take_bit (8 * 2 ^ rfc_tag v - 2) (of_be (take (2 ^ rfc_tag v) (p @ r))), 2 ^ rfc_tag v))"
proof -
  obtain m where m: "2 ^ rfc_tag v = Suc m" "m < 8" "v < 2 ^ (8 * m + 6)"
    and put: "rfc_vput v = be_bytes (Suc m) (v OR push_bit (8 * m + 6) (word_of_nat (rfc_tag v)))"
    using v by (metis rfc_vput_Suc)
  obtain b p' where p': "p = b # p'" using p by (cases p) auto
  have "b = rfc_vput v ! 0" using pq p' by simp
  then have "drop_bit 6 b = (word_of_nat (rfc_tag v) :: u8)"
    using rfc_first_byte [OF m(3) rfc_tag_less m(2)] put by simp
  moreover have "unat (word_of_nat (rfc_tag v) :: u8) = rfc_tag v"
    by (simp add: rfc_tag_def)
  ultimately have "unat (drop_bit 6 b) = rfc_tag v" by simp
  then show ?thesis by (simp add: rfc_vget_def p' Let_def)
qed

lemma rfc_vget_vput:
  assumes v: "v < varint_max"
  shows "rfc_vget (rfc_vput v @ r) = Some (v, length (rfc_vput v))"
proof -
  obtain m where m: "2 ^ rfc_tag v = Suc m" "m < 8" "v < 2 ^ (8 * m + 6)"
    and put: "rfc_vput v = be_bytes (Suc m) (v OR push_bit (8 * m + 6) (word_of_nat (rfc_tag v)))"
    using v by (metis rfc_vput_Suc)
  have ne: "rfc_vput v \<noteq> []" using put by (metis length_be_bytes list.size(3) nat.distinct(1))
  have len: "length (rfc_vput v) = Suc m" using put by simp
  have "of_be (rfc_vput v) = take_bit (8 * Suc m) (v OR push_bit (8 * m + 6) (word_of_nat (rfc_tag v)))"
    unfolding put using m(2) by (intro of_be_be_bytes_take) simp
  then have "take_bit (8 * m + 6) (of_be (rfc_vput v)) = take_bit (8 * m + 6) v"
    by (simp add: take_bit_push_bit)
  also have "\<dots> = v"
    using less_exp_no_bits [OF m(3)] m(2) by (intro bit_word_eqI) (auto simp: bit_take_bit_iff linorder_not_le [symmetric])
  finally show ?thesis
    using rfc_vget_len [OF v, of "rfc_vput v" "[]" r] ne len by (simp add: m(1) add.commute)
qed

interpretation rfc: octets_crate rfc_octets
proof
  fix v r p q bs n assume v: "v < varint_max"
  show "length (vput rfc_octets v) = varint_size v"
    by (simp add: rfc_octets_def rfc_vput_length)
  show "vget rfc_octets (vput rfc_octets v @ r) = Some (v, length (vput rfc_octets v))"
    using rfc_vget_vput [OF v] by (simp add: rfc_octets_def)
  assume "vput rfc_octets v = p @ q" and q: "q \<noteq> []"
  then have pq: "rfc_vput v = p @ q" by (simp add: rfc_octets_def)
  then have "length p < 2 ^ rfc_tag v"
    using q rfc_vput_length [of v] by (cases q) (simp_all add: rfc_size)
  then show "vget rfc_octets p = None"
    using rfc_vget_len [OF v pq, of "[]"] by (cases "p = []") (auto simp: rfc_octets_def rfc_vget_def)
next
  fix bs v n assume "vget rfc_octets bs = Some (v, n)"
  then show "0 < n \<and> n \<le> length bs"
    by (auto simp: rfc_octets_def rfc_vget_def Let_def split: list.splits if_splits)
qed

end
