(* ===== verification/Consts.thy ===== *)
theory Consts
  imports Rust_Str
begin

section \<open>Constants (consts.rs)\<close>

text \<open>The constants of consts.rs, under their names.\<close>

definition API_URL :: str where "API_URL = ''https://api.cloudflareclient.com''"
definition API_VERSION :: str where "API_VERSION = ''v0a4471''"
definition CONNECT_SNI :: str where "CONNECT_SNI = ''consumer-masque.cloudflareclient.com''"
definition L4_CONNECT_SNI :: str where "L4_CONNECT_SNI = ''consumer-masque-proxy.cloudflareclient.com''"
definition CONNECT_URI :: str where "CONNECT_URI = ''https://cloudflareaccess.com''"
definition ECH_PUBLIC_NAME :: str where "ECH_PUBLIC_NAME = ''cloudflare-ech.com''"
definition DEFAULT_MODEL :: str where "DEFAULT_MODEL = ''PC''"
definition DEFAULT_LOCALE :: str where "DEFAULT_LOCALE = ''en_US''"
definition KEY_TYPE_MASQUE :: str where "KEY_TYPE_MASQUE = ''secp256r1''"
definition TUN_TYPE_MASQUE :: str where "TUN_TYPE_MASQUE = ''masque''"
definition UA_REGISTER :: str where "UA_REGISTER = ''WARP for Android''"
definition CF_CLIENT_VERSION :: str where "CF_CLIENT_VERSION = ''a-6.35-4471''"
definition ALPN_H3 :: bytes where "ALPN_H3 = text_bytes ''h3''"
definition CF_CONNECT_PROTOCOL :: str where "CF_CONNECT_PROTOCOL = ''cf-connect-ip''"
definition H3_DATAGRAM_00 :: u64 where "H3_DATAGRAM_00 = 0x276"
definition CONNECT_IP_CONTEXT_ID :: u64 where "CONNECT_IP_CONTEXT_ID = 0"

definition CDN_ANYCAST_POOL :: "str list" where
  "CDN_ANYCAST_POOL =
     [''104.16.0.0'', ''104.17.0.0'', ''104.18.0.0'', ''104.19.0.0'', ''104.20.0.0'', ''104.21.0.0'', ''104.22.0.0'',
      ''104.24.0.0'', ''104.25.0.0'', ''104.26.0.0'', ''104.27.0.0'', ''104.28.0.0'', ''172.64.0.0'', ''172.65.0.0'',
      ''172.66.0.0'', ''172.67.0.0'', ''188.114.96.0'', ''188.114.97.0'', ''188.114.98.0'', ''188.114.99.0'']"

definition QUIC_PORT :: u16 where "QUIC_PORT = 443"

end
