(* ===== verification/Masque.thy ===== *)
theory Masque
  imports Octets Consts
begin

section \<open>CONNECT-IP datagrams and capsules (masque.rs)\<close>

text \<open>
  The wire formats of the MASQUE tunnel: IP packets in HTTP datagrams
  (\<open>encode_ip_datagram\<close>, \<open>decode_ip_datagram\<close>), capsules (\<open>encode_capsule\<close> and its two
  callers), and \<open>CapsuleParser\<close>, which takes capsules out of a byte stream that arrives in
  chunks of any size. The octets crate is the parameter \<open>oc\<close>.
\<close>

definition CAPSULE_ADDRESS_ASSIGN :: u64 where "CAPSULE_ADDRESS_ASSIGN = 0x01"
definition CAPSULE_ADDRESS_REQUEST :: u64 where "CAPSULE_ADDRESS_REQUEST = 0x02"
definition CAPSULE_ROUTE_ADVERTISEMENT :: u64 where "CAPSULE_ROUTE_ADVERTISEMENT = 0x03"
definition CAPSULE_DATAGRAM :: u64 where "CAPSULE_DATAGRAM = 0x00"

lemmas capsule_kinds =
  CAPSULE_ADDRESS_ASSIGN_def CAPSULE_ADDRESS_REQUEST_def CAPSULE_ROUTE_ADVERTISEMENT_def CAPSULE_DATAGRAM_def

record assigned_address =
  request_id :: u64
  ip_version :: u8
  address :: bytes
  prefix_len :: u8

record route_advertisement =
  ra_ip_version :: u8
  ra_start :: bytes
  ra_end :: bytes
  ra_protocol :: u8

datatype capsule =
    AddressAssign "assigned_address list"
  | AddressRequest
  | Datagram bytes
  | RouteAdvertisement "route_advertisement list"
  | Unknown (kind: u64) (payload: bytes)

definition connect_ip_request :: "str \<Rightarrow> str \<Rightarrow> (str \<times> str) list" where
  "connect_ip_request authority path =
     [('':method'', ''CONNECT''),
      ('':protocol'', CF_CONNECT_PROTOCOL),
      ('':scheme'', ''https''),
      ('':authority'', authority),
      ('':path'', path),
      (''user-agent'', ''''),
      (''capsule-protocol'', ''?1'')]"

subsection \<open>Varint lengths and errors\<close>

definition varint_len :: "u64 \<Rightarrow> nat" where
  "varint_len v = (if v < 64 then 1 else if v < 16384 then 2 else if v < 1073741824 then 4 else 8)"

definition oct :: "octets \<Rightarrow> aether_error" where
  "oct oc = Capsule (too_short oc)"

text \<open>\<open>map_err(oct)\<close> on a reader and on a writer.\<close>

definition or_oct :: "octets \<Rightarrow> 'a option \<Rightarrow> 'a result" where
  "or_oct oc r = (case r of None \<Rightarrow> Inl (oct oc) | Some x \<Rightarrow> Inr x)"

lemma or_oct_simps [simp]: "or_oct oc None = Inl (oct oc)" "or_oct oc (Some x) = Inr x"
  by (simp_all add: or_oct_def)

lemma or_oct_Inr [simp]: "or_oct oc r = Inr x \<longleftrightarrow> r = Some x"
  by (cases r) simp_all

lemma varint_len_size [simp]: "varint_len v = varint_size v"
  by (simp add: varint_len_def varint_size_def)

subsection \<open>IP packets in datagrams\<close>

definition quarter_stream_id :: "u64 \<Rightarrow> u64" where
  "quarter_stream_id stream_id = stream_id div 4"

definition encode_ip_datagram :: "octets \<Rightarrow> u64 \<Rightarrow> bytes \<Rightarrow> bytes result" where
  "encode_ip_datagram oc stream_id ip_packet =
     (let qsid = quarter_stream_id stream_id;
          ctx = CONNECT_IP_CONTEXT_ID;
          cap = varint_len qsid + varint_len ctx + length ip_packet;
          b = om_new cap
      in case or_oct oc (om_put (vput oc qsid) b) of
           Inl e \<Rightarrow> Inl e
         | Inr b \<Rightarrow>
             (case or_oct oc (om_put (vput oc ctx) b) of
                Inl e \<Rightarrow> Inl e
              | Inr b \<Rightarrow>
                  (case or_oct oc (om_put ip_packet b) of
                     Inl e \<Rightarrow> Inl e
                   | Inr b \<Rightarrow> Inr (om_bytes b))))"

definition decode_ip_datagram :: "octets \<Rightarrow> bytes \<Rightarrow> u64 \<Rightarrow> bytes option result" where
  "decode_ip_datagram oc datagram expect_stream_id =
     (case or_oct oc (get_varint oc datagram) of
        Inl e \<Rightarrow> Inl e
      | Inr (qsid, b) \<Rightarrow>
          if qsid \<noteq> quarter_stream_id expect_stream_id then Inr None
          else
            (case or_oct oc (get_varint oc b) of
               Inl e \<Rightarrow> Inl e
             | Inr (ctx, b) \<Rightarrow>
                 if ctx \<noteq> CONNECT_IP_CONTEXT_ID then Inr None
                 else
                   (case or_oct oc (get_bytes (length b) b) of
                      Inl e \<Rightarrow> Inl e
                    | Inr (p, _) \<Rightarrow> Inr (Some p))))"

subsection \<open>Capsules\<close>

definition encode_capsule :: "octets \<Rightarrow> u64 \<Rightarrow> bytes \<Rightarrow> bytes" where
  "encode_capsule oc knd val =
     (let cap = varint_len knd + varint_len (word_of_nat (length val)) + length val;
          b = om_new cap;
          b = om_try (vput oc knd) b;
          b = om_try (vput oc (word_of_nat (length val))) b;
          b = om_try val b
      in om_bytes b)"

definition encode_address_request :: "octets \<Rightarrow> u64 \<Rightarrow> u8 \<Rightarrow> u8 \<Rightarrow> bytes" where
  "encode_address_request oc rid version prefix =
     (let value_len = varint_len rid + 1 + 1;
          b = om_new value_len;
          b = om_try (vput oc rid) b;
          b = om_try [version] b;
          b = om_try [prefix] b
      in encode_capsule oc CAPSULE_ADDRESS_REQUEST (om_bytes b))"

definition encode_datagram_capsule :: "octets \<Rightarrow> bytes \<Rightarrow> bytes" where
  "encode_datagram_capsule oc ip_packet = encode_capsule oc CAPSULE_DATAGRAM ip_packet"

definition addr_len :: "u8 \<Rightarrow> nat result" where
  "addr_len version =
     (if version = 4 then Inr 4 else if version = 6 then Inr 16
      else Inl (Capsule (''bad ip version '' @ show_nat (unat version))))"

text \<open>One turn of each loop: the entry it reads and the bytes left after it.\<close>

definition read_assigned :: "octets \<Rightarrow> bytes \<Rightarrow> (assigned_address \<times> bytes) result" where
  "read_assigned oc b =
     (case or_oct oc (get_varint oc b) of
        Inl e \<Rightarrow> Inl e
      | Inr (rid, b) \<Rightarrow>
     (case or_oct oc (get_u8 b) of
        Inl e \<Rightarrow> Inl e
      | Inr (version, b) \<Rightarrow>
     (case addr_len version of
        Inl e \<Rightarrow> Inl e
      | Inr n \<Rightarrow>
     (case or_oct oc (get_bytes n b) of
        Inl e \<Rightarrow> Inl e
      | Inr (addr, b) \<Rightarrow>
     (case or_oct oc (get_u8 b) of
        Inl e \<Rightarrow> Inl e
      | Inr (prefix, b) \<Rightarrow>
          Inr (\<lparr>request_id = rid, ip_version = version, address = addr, prefix_len = prefix\<rparr>, b))))))"

definition read_route :: "octets \<Rightarrow> bytes \<Rightarrow> (route_advertisement \<times> bytes) result" where
  "read_route oc b =
     (case or_oct oc (get_u8 b) of
        Inl e \<Rightarrow> Inl e
      | Inr (version, b) \<Rightarrow>
     (case addr_len version of
        Inl e \<Rightarrow> Inl e
      | Inr n \<Rightarrow>
     (case or_oct oc (get_bytes n b) of
        Inl e \<Rightarrow> Inl e
      | Inr (start, b) \<Rightarrow>
     (case or_oct oc (get_bytes n b) of
        Inl e \<Rightarrow> Inl e
      | Inr (stop, b) \<Rightarrow>
     (case or_oct oc (get_u8 b) of
        Inl e \<Rightarrow> Inl e
      | Inr (proto, b) \<Rightarrow>
          Inr (\<lparr>ra_ip_version = version, ra_start = start, ra_end = stop, ra_protocol = proto\<rparr>, b))))))"

lemma read_assigned_shorter: "read_assigned oc b = Inr (a, r) \<Longrightarrow> length r < length b"
  by (auto simp: read_assigned_def split: sum.splits
      dest!: get_varint_length get_u8_length get_bytes_length)

lemma read_route_shorter: "read_route oc b = Inr (a, r) \<Longrightarrow> length r < length b"
  by (auto simp: read_route_def split: sum.splits dest!: get_u8_length get_bytes_length)

function parse_address_assign :: "octets \<Rightarrow> bytes \<Rightarrow> assigned_address list result" where
  "parse_address_assign oc b =
     (if b = [] then Inr []
      else case read_assigned oc b of
        Inl e \<Rightarrow> Inl e
      | Inr (a, r) \<Rightarrow>
          (case parse_address_assign oc r of Inl e \<Rightarrow> Inl e | Inr out \<Rightarrow> Inr (a # out)))"
  by pat_completeness auto
termination
  by (relation "measure (\<lambda>(oc, b). length b)") (auto dest: read_assigned_shorter)

function parse_route_advertisement :: "octets \<Rightarrow> bytes \<Rightarrow> route_advertisement list result" where
  "parse_route_advertisement oc b =
     (if b = [] then Inr []
      else case read_route oc b of
        Inl e \<Rightarrow> Inl e
      | Inr (a, r) \<Rightarrow>
          (case parse_route_advertisement oc r of Inl e \<Rightarrow> Inl e | Inr out \<Rightarrow> Inr (a # out)))"
  by pat_completeness auto
termination
  by (relation "measure (\<lambda>(oc, b). length b)") (auto dest: read_route_shorter)

declare parse_address_assign.simps [simp del] parse_route_advertisement.simps [simp del]

subsection \<open>The streaming parser\<close>

record capsule_parser =
  buf :: bytes

definition parser_new :: capsule_parser where
  "parser_new = \<lparr>buf = []\<rparr>"

definition parser_push :: "bytes \<Rightarrow> capsule_parser \<Rightarrow> capsule_parser" where
  "parser_push data p = p\<lparr>buf := buf p @ data\<rparr>"

definition capsule_of :: "octets \<Rightarrow> u64 \<Rightarrow> bytes \<Rightarrow> capsule result" where
  "capsule_of oc knd val =
     (if knd = CAPSULE_ADDRESS_ASSIGN then map_sum id AddressAssign (parse_address_assign oc val)
      else if knd = CAPSULE_ADDRESS_REQUEST then Inr AddressRequest
      else if knd = CAPSULE_ROUTE_ADVERTISEMENT then
        map_sum id RouteAdvertisement (parse_route_advertisement oc val)
      else if knd = CAPSULE_DATAGRAM then Inr (Datagram val)
      else Inr (Unknown knd val))"

text \<open>\<open>CapsuleParser::next\<close>: the result with the parser after it.\<close>

definition parser_next :: "octets \<Rightarrow> capsule_parser \<Rightarrow> capsule option result \<times> capsule_parser" where
  "parser_next oc p =
     (case get_varint oc (buf p) of
        None \<Rightarrow> (Inr None, p)
      | Some (knd, b) \<Rightarrow>
          (case get_varint oc b of
             None \<Rightarrow> (Inr None, p)
           | Some (l, b) \<Rightarrow>
               let len = unat l
               in if length b < len then (Inr None, p)
                  else
                    (case or_oct oc (get_bytes len b) of
                       Inl e \<Rightarrow> (Inl e, p)
                     | Inr (val, b) \<Rightarrow> (map_sum id Some (capsule_of oc knd val), p\<lparr>buf := b\<rparr>))))"

subsection \<open>Entry lists\<close>

text \<open>
  The two \<open>while b.cap() > 0\<close> loops share this contract: \<open>enc\<close> writes an entry that is
  \<open>ok\<close>, \<open>rd\<close> reads one back and \<open>rds\<close> reads entries until the bytes are used up.
\<close>

locale entry_list =
  fixes enc :: "'a \<Rightarrow> bytes" and ok :: "'a \<Rightarrow> bool" and wf :: "'a \<Rightarrow> bool"
    and rd :: "bytes \<Rightarrow> ('a \<times> bytes) result" and rds :: "bytes \<Rightarrow> 'a list result"
  assumes rds_unfold: "rds b =
      (if b = [] then Inr []
       else case rd b of
         Inl e \<Rightarrow> Inl e
       | Inr (a, r) \<Rightarrow> (case rds r of Inl e \<Rightarrow> Inl e | Inr out \<Rightarrow> Inr (a # out)))"
    and rd_enc: "ok a \<Longrightarrow> rd (enc a @ r) = Inr (a, r)"
    and enc_nonempty: "ok a \<Longrightarrow> enc a \<noteq> []"
    and rd_wf: "rd b = Inr (a, r) \<Longrightarrow> wf a"
    and rd_shorter: "rd b = Inr (a, r) \<Longrightarrow> length r < length b"
begin

lemma rds_Nil [simp]: "rds [] = Inr []"
  by (subst rds_unfold) simp

lemma rds_enc: "\<forall>a \<in> set xs. ok a \<Longrightarrow> rds (concat (map enc xs)) = Inr xs"
proof (induction xs)
  case (Cons a xs)
  then show ?case
    by (subst rds_unfold) (simp add: enc_nonempty rd_enc)
qed simp

lemma rds_wf: "rds b = Inr xs \<Longrightarrow> \<forall>a \<in> set xs. wf a"
proof (induction b arbitrary: xs rule: length_induct)
  case (1 b)
  show ?case
  proof (cases "b = []")
    case True
    then show ?thesis using "1.prems" by simp
  next
    case False
    then obtain a r ys where rd: "rd b = Inr (a, r)" and "rds r = Inr ys" and xs: "xs = a # ys"
      using "1.prems" by (subst (asm) rds_unfold) (auto split: sum.splits)
    then have "\<forall>a \<in> set ys. wf a" using "1.IH" rd_shorter by blast
    then show ?thesis using rd_wf [OF rd] xs by simp
  qed
qed

end

definition addr_ok :: "u8 \<Rightarrow> bytes \<Rightarrow> bool" where
  "addr_ok version addr \<longleftrightarrow> version = 4 \<and> length addr = 4 \<or> version = 6 \<and> length addr = 16"

definition assigned_wf :: "assigned_address \<Rightarrow> bool" where
  "assigned_wf a \<longleftrightarrow> addr_ok (ip_version a) (address a)"

definition route_wf :: "route_advertisement \<Rightarrow> bool" where
  "route_wf a \<longleftrightarrow> addr_ok (ra_ip_version a) (ra_start a) \<and> addr_ok (ra_ip_version a) (ra_end a)"

definition enc_assigned :: "octets \<Rightarrow> assigned_address \<Rightarrow> bytes" where
  "enc_assigned oc a = vput oc (request_id a) @ [ip_version a] @ address a @ [prefix_len a]"

definition enc_route :: "route_advertisement \<Rightarrow> bytes" where
  "enc_route a = [ra_ip_version a] @ ra_start a @ ra_end a @ [ra_protocol a]"

lemma addr_len_ok: "addr_ok version addr \<longleftrightarrow> addr_len version = Inr (length addr)"
  by (auto simp: addr_ok_def addr_len_def)

lemma addr_len_get: "addr_len version = Inr n \<Longrightarrow> get_bytes n b = Some (addr, r) \<Longrightarrow> addr_ok version addr"
  by (auto simp: addr_len_ok get_bytes_def split: if_splits)

lemma read_assigned_wf: "read_assigned oc b = Inr (a, r) \<Longrightarrow> assigned_wf a"
  by (auto simp: read_assigned_def assigned_wf_def split: sum.splits) (blast intro: addr_len_get)

lemma read_route_wf: "read_route oc b = Inr (a, r) \<Longrightarrow> route_wf a"
  by (auto simp: read_route_def route_wf_def split: sum.splits) (blast intro: addr_len_get)+

interpretation routes: entry_list enc_route route_wf route_wf "read_route oc" "parse_route_advertisement oc" for oc
proof
  show "read_route oc (enc_route a @ r) = Inr (a, r)" if "route_wf a" for a r
    using that by (cases a) (auto simp: route_wf_def enc_route_def read_route_def addr_len_ok)
qed (use read_route_shorter read_route_wf in
      \<open>auto simp: parse_route_advertisement.simps [symmetric] enc_route_def\<close>)

sublocale octets_crate \<subseteq> assigned:
  entry_list "enc_assigned oc" "\<lambda>a. request_id a < varint_max \<and> assigned_wf a" assigned_wf
    "read_assigned oc" "parse_address_assign oc"
proof
  show "read_assigned oc (enc_assigned oc a @ r) = Inr (a, r)"
    if "request_id a < varint_max \<and> assigned_wf a" for a r
    using that by (cases a) (auto simp: assigned_wf_def enc_assigned_def read_assigned_def addr_len_ok)
qed (use read_assigned_shorter read_assigned_wf in
      \<open>auto simp: parse_address_assign.simps [symmetric] enc_assigned_def\<close>)

subsection \<open>Frames\<close>

text \<open>
  A frame is a capsule on the wire: its kind and its value. The loops that call \<open>next\<close> until
  it returns no capsule take the whole frames out of the buffer; \<open>drain\<close> is what they read.
  Each frame takes at least one byte, so the length of the buffer is enough fuel.
\<close>

definition frame_ok :: "octets \<Rightarrow> u64 \<times> bytes \<Rightarrow> bool" where
  "frame_ok oc f \<longleftrightarrow>
     fst f < varint_max \<and> length (snd f) < 2 ^ 62 \<and> (\<exists>c. capsule_of oc (fst f) (snd f) = Inr c)"

definition frame_capsule :: "octets \<Rightarrow> u64 \<times> bytes \<Rightarrow> capsule" where
  "frame_capsule oc f = projr (capsule_of oc (fst f) (snd f))"

definition wire :: "octets \<Rightarrow> (u64 \<times> bytes) list \<Rightarrow> bytes" where
  "wire oc fs = concat (map (\<lambda>f. encode_capsule oc (fst f) (snd f)) fs)"

fun drain_fuel :: "nat \<Rightarrow> octets \<Rightarrow> capsule_parser \<Rightarrow> capsule list \<times> capsule_parser" where
  "drain_fuel 0 oc p = ([], p)"
| "drain_fuel (Suc n) oc p =
     (case parser_next oc p of
        (Inr (Some c), p') \<Rightarrow> (case drain_fuel n oc p' of (cs, q) \<Rightarrow> (c # cs, q))
      | (_, p') \<Rightarrow> ([], p'))"

definition drain :: "octets \<Rightarrow> capsule_parser \<Rightarrow> capsule list \<times> capsule_parser" where
  "drain oc p = drain_fuel (Suc (length (buf p))) oc p"

text \<open>Chunks pushed one after the other, the buffer drained after each.\<close>

fun feed :: "octets \<Rightarrow> bytes list \<Rightarrow> capsule_parser \<Rightarrow> capsule list \<times> capsule_parser" where
  "feed oc [] p = ([], p)"
| "feed oc (d # ds) p =
     (case drain oc (parser_push d p) of
        (cs, p') \<Rightarrow> (case feed oc ds p' of (cs', q) \<Rightarrow> (cs @ cs', q)))"

context octets_crate
begin

lemma of_len_less [simp]: "n < 2 ^ 62 \<Longrightarrow> (word_of_nat n :: u64) < varint_max"
  by (simp add: varint_max_def word_less_nat_alt unat_of_nat take_bit_nat_eq_self)

lemma unat_of_len [simp]: "n < 2 ^ 62 \<Longrightarrow> unat (word_of_nat n :: u64) = n"
  by (simp add: unat_of_nat take_bit_nat_eq_self)

lemma encode_capsule_eq:
  "k < varint_max \<Longrightarrow> length v < 2 ^ 62 \<Longrightarrow>
     encode_capsule oc k v = vput oc k @ vput oc (word_of_nat (length v)) @ v"
  by (simp add: encode_capsule_def om_new_def Let_def vput_length del: of_nat_less_iff)

lemma next_frame:
  assumes "frame_ok oc f"
  shows "parser_next oc \<lparr>buf = encode_capsule oc (fst f) (snd f) @ r\<rparr> =
    (Inr (Some (frame_capsule oc f)), \<lparr>buf = r\<rparr>)"
  using assms
  by (auto simp: frame_ok_def encode_capsule_eq parser_next_def frame_capsule_def Let_def)

lemma next_partial:
  assumes ok: "frame_ok oc f" and pq: "encode_capsule oc (fst f) (snd f) = p @ q" and q: "q \<noteq> []"
  shows "parser_next oc \<lparr>buf = p\<rparr> = (Inr None, \<lparr>buf = p\<rparr>)"
proof -
  let ?k = "fst f" and ?v = "snd f"
  let ?l = "word_of_nat (length ?v) :: u64"
  have k: "?k < varint_max" and v: "length ?v < 2 ^ 62" using ok by (auto simp: frame_ok_def)
  then have e: "vput oc ?k @ vput oc ?l @ ?v = p @ q" using pq encode_capsule_eq by simp
  consider (kind) u where "vput oc ?k = p @ u" "u \<noteq> []"
    | (len) p2 u where "p = vput oc ?k @ p2" "vput oc ?l = p2 @ u" "u \<noteq> []"
    | (val) p3 where "p = vput oc ?k @ vput oc ?l @ p3" "?v = p3 @ q"
    using e q by (fastforce simp: append_eq_append_conv2)
  then show ?thesis
  proof cases
    case kind
    then have "get_varint oc p = None" using get_varint_short k by blast
    then show ?thesis by (simp add: parser_next_def)
  next
    case len
    then have "get_varint oc p2 = None" using get_varint_short v of_len_less by blast
    then show ?thesis using k by (simp add: parser_next_def len(1))
  next
    case val
    then have "length p3 < length ?v" using q by simp
    then show ?thesis using k v by (simp add: parser_next_def val(1))
  qed
qed

lemma next_shorter:
  "parser_next oc p = (Inr (Some c), p') \<Longrightarrow> length (buf p') < length (buf p)"
  by (auto simp: parser_next_def Let_def split: option.splits if_splits sum.splits
      dest!: get_varint_takes get_bytes_length)

lemma drain_fuel_enough:
  "length (buf p) < n \<Longrightarrow> length (buf p) < m \<Longrightarrow> drain_fuel n oc p = drain_fuel m oc p"
proof (induction n arbitrary: m p)
  case (Suc n)
  then obtain k where m: "m = Suc k" by (cases m) auto
  show ?case
  proof (cases "\<exists>c. fst (parser_next oc p) = Inr (Some c)")
    case True
    then obtain c p' where nx: "parser_next oc p = (Inr (Some c), p')"
      by (metis prod.collapse)
    then show ?thesis using Suc.IH [of p' k] Suc.prems next_shorter [OF nx] m by simp
  next
    case False
    then show ?thesis by (auto simp: m split: prod.splits sum.splits option.splits)
  qed
qed simp

lemma drain_unfold:
  "drain oc p =
     (case parser_next oc p of
        (Inr (Some c), p') \<Rightarrow> (case drain oc p' of (cs, q) \<Rightarrow> (c # cs, q))
      | (_, p') \<Rightarrow> ([], p'))"
proof (cases "\<exists>c. fst (parser_next oc p) = Inr (Some c)")
  case True
  then obtain c p' where nx: "parser_next oc p = (Inr (Some c), p')"
    by (metis prod.collapse)
  then show ?thesis
    using drain_fuel_enough [of p' "length (buf p)" "Suc (length (buf p'))"] next_shorter [OF nx]
    by (simp add: drain_def)
next
  case False
  then show ?thesis by (auto simp: drain_def split: prod.splits sum.splits option.splits)
qed

lemma wire_Cons: "wire oc (f # fs) = encode_capsule oc (fst f) (snd f) @ wire oc fs"
  by (simp add: wire_def)

lemma wire_Nil [simp]: "wire oc [] = []"
  by (simp add: wire_def)

lemma next_empty: "parser_next oc \<lparr>buf = []\<rparr> = (Inr None, \<lparr>buf = []\<rparr>)"
proof -
  have "vget oc [] = None"
    using vget_takes [of "[]"] by (cases "vget oc []") fastforce+
  then show ?thesis by (simp add: parser_next_def get_varint_def)
qed

lemma drain_wire:
  "\<forall>f \<in> set fs. frame_ok oc f \<Longrightarrow> b @ future = wire oc fs \<Longrightarrow>
    \<exists>ds rest b'. fs = ds @ rest \<and> drain oc \<lparr>buf = b\<rparr> = (map (frame_capsule oc) ds, \<lparr>buf = b'\<rparr>)
      \<and> b' @ future = wire oc rest \<and> parser_next oc \<lparr>buf = b'\<rparr> = (Inr None, \<lparr>buf = b'\<rparr>)"
proof (induction fs arbitrary: b)
  case Nil
  then have "b = []" by simp
  then have "drain oc \<lparr>buf = b\<rparr> = ([], \<lparr>buf = b\<rparr>)"
    by (subst drain_unfold) (simp add: next_empty)
  then show ?case using Nil \<open>b = []\<close> next_empty by simp
next
  case (Cons f fs)
  let ?e = "encode_capsule oc (fst f) (snd f)"
  have ok: "frame_ok oc f" and eq: "b @ future = ?e @ wire oc fs"
    using Cons.prems by (simp_all add: wire_Cons)
  show ?case
  proof (cases rule: append_eq_cases [OF eq, case_names whole part])
    case whole: (whole b2)
    obtain ds rest b' where IH: "fs = ds @ rest"
      "drain oc \<lparr>buf = b2\<rparr> = (map (frame_capsule oc) ds, \<lparr>buf = b'\<rparr>)"
      "b' @ future = wire oc rest" "parser_next oc \<lparr>buf = b'\<rparr> = (Inr None, \<lparr>buf = b'\<rparr>)"
      using Cons.IH [of b2] Cons.prems whole by auto
    have "drain oc \<lparr>buf = b\<rparr> = (map (frame_capsule oc) (f # ds), \<lparr>buf = b'\<rparr>)"
      by (subst drain_unfold) (simp add: whole(1) next_frame [OF ok] IH(2))
    then show ?thesis using IH by (intro exI [of _ "f # ds"] exI [of _ rest] exI [of _ b']) simp
  next
    case part: (part q)
    have nx: "parser_next oc \<lparr>buf = b\<rparr> = (Inr None, \<lparr>buf = b\<rparr>)"
      using next_partial [OF ok part] .
    then have "drain oc \<lparr>buf = b\<rparr> = ([], \<lparr>buf = b\<rparr>)"
      by (subst drain_unfold) simp
    then show ?thesis using nx Cons.prems(2)
      by (intro exI [of _ "[]"] exI [of _ "f # fs"] exI [of _ b]) simp
  qed
qed

lemma feed_wire:
  "\<forall>f \<in> set fs. frame_ok oc f \<Longrightarrow> b @ concat ds = wire oc fs \<Longrightarrow>
    parser_next oc \<lparr>buf = b\<rparr> = (Inr None, \<lparr>buf = b\<rparr>) \<Longrightarrow>
    feed oc ds \<lparr>buf = b\<rparr> = (map (frame_capsule oc) fs, \<lparr>buf = []\<rparr>)"
proof (induction ds arbitrary: b fs)
  case Nil
  show ?case
  proof (cases fs)
    case (Cons f fs')
    then show ?thesis using Nil next_frame [of f "wire oc fs'"] by (simp add: wire_Cons)
  qed (use Nil in simp)
next
  case (Cons d ds)
  have "(b @ d) @ concat ds = wire oc fs" using Cons.prems(2) by simp
  then obtain as rest b' where A: "fs = as @ rest"
    "drain oc \<lparr>buf = b @ d\<rparr> = (map (frame_capsule oc) as, \<lparr>buf = b'\<rparr>)"
    "b' @ concat ds = wire oc rest" "parser_next oc \<lparr>buf = b'\<rparr> = (Inr None, \<lparr>buf = b'\<rparr>)"
    using drain_wire [OF Cons.prems(1)] by blast
  have "feed oc ds \<lparr>buf = b'\<rparr> = (map (frame_capsule oc) rest, \<lparr>buf = []\<rparr>)"
    using Cons.IH A Cons.prems(1) by simp
  then show ?case using A(1,2) by (simp add: parser_push_def)
qed

lemma zero_less_varint_max [simp]: "0 < varint_max"
  by (simp add: varint_max_def)

lemma quarter_less_varint_max [simp]: "quarter_stream_id sid < varint_max"
proof -
  have "unat sid < 2 ^ LENGTH(64)" by (rule unsigned_less)
  then show ?thesis
    by (simp add: quarter_stream_id_def varint_max_def word_less_nat_alt unat_div)
qed

lemma encode_ip_datagram_eq:
  "encode_ip_datagram oc sid pkt = Inr (vput oc (quarter_stream_id sid) @ vput oc 0 @ pkt)"
  by (simp add: encode_ip_datagram_def Let_def om_new_def vput_length CONNECT_IP_CONTEXT_ID_def)

lemma decode_encoded:
  "decode_ip_datagram oc (vput oc (quarter_stream_id sid) @ vput oc 0 @ pkt) sid' =
     Inr (if quarter_stream_id sid = quarter_stream_id sid' then Some pkt else None)"
  by (simp add: decode_ip_datagram_def CONNECT_IP_CONTEXT_ID_def get_bytes_def)

lemma assigned_rds_enc:
  "\<forall>a \<in> set as. request_id a < varint_max \<and> assigned_wf a \<Longrightarrow>
    parse_address_assign oc (concat (map (enc_assigned oc) as)) = Inr as"
  by (rule assigned.rds_enc)

lemma feed_new:
  "\<forall>f \<in> set fs. frame_ok oc f \<Longrightarrow> concat ds = wire oc fs \<Longrightarrow>
    feed oc ds parser_new = (map (frame_capsule oc) fs, parser_new)"
  using feed_wire [of fs "[]" ds] by (simp add: parser_new_def next_empty)

end

subsection \<open>Properties\<close>

text \<open>An IP packet encoded for a stream always fits its buffer, and decoding the datagram
  yields the packet again for the same stream and nothing (without an error) for a stream with
  another quarter stream id.\<close>

theorem ip_datagram_roundtrip:
  assumes "octets_crate oc"
  shows "\<exists>d. encode_ip_datagram oc sid pkt = Inr d \<and>
    decode_ip_datagram oc d sid' =
      Inr (if quarter_stream_id sid = quarter_stream_id sid' then Some pkt else None)"
  using octets_crate.encode_ip_datagram_eq [OF assms] octets_crate.decode_encoded [OF assms] by blast

theorem ip_datagram_roundtrip_witness:
  "(\<exists>d. encode_ip_datagram rfc_octets 8 [0x45, 0] = Inr d \<and> decode_ip_datagram rfc_octets d 8 = Inr (Some [0x45, 0]))
   \<and> (\<exists>d. encode_ip_datagram rfc_octets 8 [0x45, 0] = Inr d \<and> decode_ip_datagram rfc_octets d 4 = Inr None)"
  using ip_datagram_roundtrip [OF rfc.octets_crate_axioms, of 8 "[0x45, 0]" 8]
    ip_datagram_roundtrip [OF rfc.octets_crate_axioms, of 8 "[0x45, 0]" 4]
  by (simp add: quarter_stream_id_def)

text \<open>C4. However the bytes of a sequence of well-formed capsules are cut into chunks, pushing
  the chunks one after the other and draining the parser after each yields exactly these
  capsules, in order, and leaves the buffer empty.\<close>

theorem capsule_stream_chunking:
  assumes "octets_crate oc"
    and "\<forall>f \<in> set fs. frame_ok oc f"
    and "concat chunks = wire oc fs"
  shows "feed oc chunks parser_new = (map (frame_capsule oc) fs, parser_new)"
  using octets_crate.feed_new [OF assms] .

theorem capsule_stream_chunking_witness:
  "feed rfc_octets [[0], [3, 7], [], [8, 9, 0x2A, 1], [5]] parser_new =
     ([Datagram [7, 8, 9], Unknown 42 [5]], parser_new)"
proof -
  let ?fs = "[(0, [7, 8, 9]), (42, [5])] :: (u64 \<times> bytes) list"
  have "\<forall>f \<in> set ?fs. frame_ok rfc_octets f"
    by (simp add: frame_ok_def capsule_of_def capsule_kinds varint_max_def)
  moreover have "concat [[0], [3, 7], [], [8, 9, 0x2A, 1], [5]] = wire rfc_octets ?fs"
    by (simp add: wire_def rfc.encode_capsule_eq varint_max_def)
      (simp add: rfc_octets_def rfc_vput_def rfc_tag_def be_bytes_def)
  ultimately show ?thesis
    using capsule_stream_chunking [OF rfc.octets_crate_axioms, of ?fs]
    by (simp add: frame_capsule_def capsule_of_def capsule_kinds del: feed.simps)
qed

text \<open>Parsing the value of an ADDRESS_ASSIGN capsule gives back the list of addresses it was
  written from, whatever their number and versions.\<close>

theorem address_assign_roundtrip:
  assumes "octets_crate oc"
    and "\<forall>a \<in> set as. request_id a < varint_max \<and> assigned_wf a"
  shows "parse_address_assign oc (concat (map (enc_assigned oc) as)) = Inr as"
  using octets_crate.assigned_rds_enc [OF assms] .

theorem address_assign_roundtrip_witness:
  "parse_address_assign rfc_octets [1, 4, 172, 16, 0, 2, 32, 0, 4, 10, 0, 0, 1, 24] =
     Inr [\<lparr>request_id = 1, ip_version = 4, address = [172, 16, 0, 2], prefix_len = 32\<rparr>,
          \<lparr>request_id = 0, ip_version = 4, address = [10, 0, 0, 1], prefix_len = 24\<rparr>]"
  using address_assign_roundtrip [OF rfc.octets_crate_axioms,
      of "[\<lparr>request_id = 1, ip_version = 4, address = [172, 16, 0, 2], prefix_len = 32\<rparr>,
           \<lparr>request_id = 0, ip_version = 4, address = [10, 0, 0, 1], prefix_len = 24\<rparr>]"]
  by (simp add: assigned_wf_def addr_ok_def varint_max_def enc_assigned_def rfc_octets_def
      rfc_vput_def rfc_tag_def be_bytes_def)

end
