(* ===== verification/Net_Addr.thy ===== *)
theory Net_Addr
  imports Errors
begin

section \<open>Addresses of the standard library\<close>

text \<open>
  \<open>IpAddr\<close>, \<open>SocketAddr\<close> and their \<open>FromStr\<close> parsers. An address is the number its octets
  spell in network order, so that \<open>u32::from\<close> and \<open>Ipv4Addr::from\<close> are the identity and
  \<open>octets\<close> is \<open>be_bytes\<close>. The parsers follow core::net::parser: each reader takes the text
  and returns the value it read with the rest, or \<open>None\<close> where the library's reader
  restores its position. The flow label and the scope of a \<open>SocketAddrV6\<close> are read and not
  kept, since the program never looks at them.
\<close>

datatype ip_addr = IpV4 u32 | IpV6 u128

datatype sock_addr = SockAddr (sa_ip: ip_addr) (sa_port: u16)

definition ipv4_new :: "u8 \<Rightarrow> u8 \<Rightarrow> u8 \<Rightarrow> u8 \<Rightarrow> u32" where
  "ipv4_new a b c d = of_be [a, b, c, d]"

definition ipv4_octets :: "u32 \<Rightarrow> bytes" where
  "ipv4_octets a = be_bytes 4 a"

definition ipv6_octets :: "u128 \<Rightarrow> bytes" where
  "ipv6_octets a = be_bytes 16 a"

fun is_ipv4 :: "sock_addr \<Rightarrow> bool" where
  "is_ipv4 (SockAddr (IpV4 _) _) = True"
| "is_ipv4 (SockAddr (IpV6 _) _) = False"

lemma length_ip_octets [simp]: "length (ipv4_octets a) = 4" "length (ipv6_octets b) = 16"
  by (simp_all add: ipv4_octets_def ipv6_octets_def)

lemma of_be_ip_octets [simp]: "of_be (ipv4_octets a) = a" "of_be (ipv6_octets b) = b"
  by (simp_all add: ipv4_octets_def ipv6_octets_def of_be_be_bytes)

lemma ip_octets_of_be [simp]:
  "length bs = 4 \<Longrightarrow> ipv4_octets (of_be bs) = bs"
  "length bs = 16 \<Longrightarrow> ipv6_octets (of_be bs) = bs"
  by (simp_all add: ipv4_octets_def ipv6_octets_def be_bytes_of_be)

lemma be_bytes_4: "be_bytes 4 w = [ucast (drop_bit 24 w), ucast (drop_bit 16 w), ucast (drop_bit 8 w), ucast w]"
  by (simp add: be_bytes_def numeral_eq_Suc)

lemma ipv4_octets_new [simp]: "ipv4_octets (ipv4_new a b c d) = [a, b, c, d]"
  by (simp add: ipv4_new_def)

subsection \<open>Readers\<close>

definition read_char :: "char \<Rightarrow> str \<Rightarrow> str option" where
  "read_char c s = (case s of [] \<Rightarrow> None | x # r \<Rightarrow> if x = c then Some r else None)"

text \<open>
  The digits of a number of at most \<open>max_digits\<close> digits: the value, how many digits and the
  rest; \<open>None\<close> as soon as there is one digit too many.
\<close>

fun read_digits :: "nat \<Rightarrow> nat \<Rightarrow> nat \<Rightarrow> nat \<Rightarrow> str \<Rightarrow> (nat \<times> nat \<times> str) option" where
  "read_digits radix max_digits v count [] = Some (v, count, [])"
| "read_digits radix max_digits v count (c # s) =
     (case digit_val radix c of
        None \<Rightarrow> Some (v, count, c # s)
      | Some d \<Rightarrow> if max_digits < Suc count then None
                  else read_digits radix max_digits (radix * v + d) (Suc count) s)"

definition read_number :: "nat \<Rightarrow> nat \<Rightarrow> bool \<Rightarrow> nat \<Rightarrow> str \<Rightarrow> (nat \<times> str) option" where
  "read_number radix max_digits allow_zero_prefix bound s =
     (case read_digits radix max_digits 0 0 s of
        None \<Rightarrow> None
      | Some (v, count, r) \<Rightarrow>
          if count = 0 then None
          else if \<not> allow_zero_prefix \<and> s \<noteq> [] \<and> hd s = CHR ''0'' \<and> 1 < count then None
          else if v < bound then Some (v, r) else None)"

text \<open>A separator comes before every element but the first.\<close>

definition read_sep :: "char \<Rightarrow> nat \<Rightarrow> str \<Rightarrow> str option" where
  "read_sep c i s = (if i = 0 then Some s else read_char c s)"

fun read_octets :: "nat \<Rightarrow> nat \<Rightarrow> str \<Rightarrow> (bytes \<times> str) option" where
  "read_octets i 0 s = Some ([], s)"
| "read_octets i (Suc n) s =
     (case read_sep (CHR ''.'') i s of
        None \<Rightarrow> None
      | Some s' \<Rightarrow>
          (case read_number 10 3 False 256 s' of
             None \<Rightarrow> None
           | Some (v, r) \<Rightarrow>
               (case read_octets (Suc i) n r of
                  None \<Rightarrow> None
                | Some (vs, r') \<Rightarrow> Some (word_of_nat v # vs, r'))))"

definition read_ipv4 :: "str \<Rightarrow> (u32 \<times> str) option" where
  "read_ipv4 s = (case read_octets 0 4 s of None \<Rightarrow> None | Some (vs, r) \<Rightarrow> Some (of_be vs, r))"

text \<open>
  \<open>read_groups i left s\<close> reads the groups numbered from \<open>i\<close>, of which \<open>left\<close> more fit: an
  embedded IPv4 address where at least two groups are left, else a group of hexadecimal
  digits; it stops at the first position where neither can be read. It returns the groups,
  whether an IPv4 address was read, and the rest.
\<close>

fun read_groups :: "nat \<Rightarrow> nat \<Rightarrow> str \<Rightarrow> u16 list \<times> bool \<times> str" where
  "read_groups i 0 s = ([], False, s)"
| "read_groups i (Suc left) s =
     (case (if 0 < left then Option.bind (read_sep (CHR '':'') i s) read_ipv4 else None) of
        Some (a, r) \<Rightarrow> ([of_be (take 2 (ipv4_octets a)), of_be (drop 2 (ipv4_octets a))], True, r)
      | None \<Rightarrow>
          (case Option.bind (read_sep (CHR '':'') i s) (read_number 16 4 True 65536) of
             None \<Rightarrow> ([], False, s)
           | Some (g, r) \<Rightarrow>
               (case read_groups (Suc i) left r of
                  (gs, v4, r') \<Rightarrow> (word_of_nat g # gs, v4, r'))))"

definition ipv6_of_groups :: "u16 list \<Rightarrow> u128" where
  "ipv6_of_groups gs = of_be (concat (map (be_bytes 2) gs))"

definition read_ipv6 :: "str \<Rightarrow> (u128 \<times> str) option" where
  "read_ipv6 s =
     (case read_groups 0 8 s of
        (hd6, v4, r) \<Rightarrow>
          if length hd6 = 8 then Some (ipv6_of_groups hd6, r)
          else if v4 then None
          else
            (case Option.bind (read_char (CHR '':'') r) (read_char (CHR '':'')) of
               None \<Rightarrow> None
             | Some r' \<Rightarrow>
                 (case read_groups 0 (8 - (length hd6 + 1)) r' of
                    (tl6, _, r'') \<Rightarrow>
                      Some (ipv6_of_groups (hd6 @ replicate (8 - length hd6 - length tl6) 0 @ tl6), r''))))"

text \<open>A \<open>FromStr\<close> parser wants the whole text read.\<close>

definition read_all :: "(str \<Rightarrow> ('a \<times> str) option) \<Rightarrow> str \<Rightarrow> 'a option" where
  "read_all p s = (case p s of Some (v, []) \<Rightarrow> Some v | _ \<Rightarrow> None)"

definition parse_ipv4 :: "str \<Rightarrow> u32 option" where
  "parse_ipv4 s = (if 15 < length s then None else read_all read_ipv4 s)"

definition parse_ipv6 :: "str \<Rightarrow> u128 option" where
  "parse_ipv6 s = read_all read_ipv6 s"

definition read_ip :: "str \<Rightarrow> (ip_addr \<times> str) option" where
  "read_ip s =
     (case read_ipv4 s of
        Some (a, r) \<Rightarrow> Some (IpV4 a, r)
      | None \<Rightarrow> map_option (\<lambda>(a, r). (IpV6 a, r)) (read_ipv6 s))"

definition parse_ip :: "str \<Rightarrow> ip_addr option" where
  "parse_ip s = read_all read_ip s"

definition read_port :: "str \<Rightarrow> (u16 \<times> str) option" where
  "read_port s =
     (case read_char (CHR '':'') s of
        None \<Rightarrow> None
      | Some r \<Rightarrow>
          let ds = takeWhile (\<lambda>c. digit_val 10 c \<noteq> None) r
          in if ds = [] then None
             else
               (case digits_val 10 ds 0 of
                  Some p \<Rightarrow> if p < 65536 then Some (word_of_nat p, drop (length ds) r) else None
                | None \<Rightarrow> None))"

definition read_scope :: "str \<Rightarrow> str option" where
  "read_scope s =
     (case read_char (CHR ''%'') s of
        None \<Rightarrow> Some s
      | Some r \<Rightarrow>
          let ds = takeWhile (\<lambda>c. digit_val 10 c \<noteq> None) r
          in if ds \<noteq> [] \<and> the (digits_val 10 ds 0) < 2 ^ 32 then Some (drop (length ds) r) else Some s)"

definition read_sock_v4 :: "str \<Rightarrow> (sock_addr \<times> str) option" where
  "read_sock_v4 s =
     (case read_ipv4 s of
        None \<Rightarrow> None
      | Some (a, r) \<Rightarrow> map_option (\<lambda>(p, r'). (SockAddr (IpV4 a) p, r')) (read_port r))"

definition read_sock_v6 :: "str \<Rightarrow> (sock_addr \<times> str) option" where
  "read_sock_v6 s =
     (case Option.bind (read_char (CHR ''['') s) read_ipv6 of
        None \<Rightarrow> None
      | Some (a, r) \<Rightarrow>
          map_option (\<lambda>(p, r'). (SockAddr (IpV6 a) p, r'))
            (Option.bind (Option.bind (read_scope r) (read_char (CHR '']''))) read_port))"

definition parse_sock_addr :: "str \<Rightarrow> sock_addr option" where
  "parse_sock_addr s =
     read_all (\<lambda>s. case read_sock_v4 s of Some x \<Rightarrow> Some x | None \<Rightarrow> read_sock_v6 s) s"

end
