(* ===== verification/Dns.thy ===== *)
theory Dns
  imports Net_Addr
begin

section \<open>The ECH bootstrap over DNS (dns.rs)\<close>

text \<open>
  \<open>build_query\<close> and the parser of HTTPS answers, \<open>parse_https_ech\<close>, with its two helpers,
  and the loop over hosts and servers, \<open>fetch_ech_config\<close>. The parsers index the message, so
  their results live in the panic monad of the prelude; \<open>skip_name\<close> reads with \<open>get\<close> and
  cannot panic. The abstract side is a DNS message (questions and resource records) with its
  wire format, against which the parsers are proved; the A-record parser of socks.rs is proved
  against the same format.
\<close>

definition BOOTSTRAP_DNS :: "str list" where
  "BOOTSTRAP_DNS = [''1.1.1.1:53'', ''1.0.0.1:53'', ''8.8.8.8:53'']"

definition ECH_HOSTS :: "str list" where
  "ECH_HOSTS = [''cloudflare-ech.com'', ''crypto.cloudflare.com'']"

definition RR_HTTPS :: u16 where "RR_HTTPS = 65"
definition SVCPARAM_ECH :: u16 where "SVCPARAM_ECH = 5"

subsection \<open>Building a query\<close>

definition label_bytes :: "bytes \<Rightarrow> bytes" where
  "label_bytes l = word_of_nat (length l) # l"

definition build_query :: "u16 \<Rightarrow> str \<Rightarrow> u16 \<Rightarrow> bytes" where
  "build_query i name qtype =
     be_bytes 2 i @ [0x01, 0x00] @ [0x00, 0x01] @ [0x00, 0x00, 0x00, 0x00, 0x00, 0x00]
     @ concat (map (\<lambda>label. if label = [] then [] else label_bytes (text_bytes label)) (split_on (CHR ''.'') name))
     @ [0x00] @ be_bytes 2 qtype @ [0x00, 0x01]"

subsection \<open>Parsing an answer\<close>

function skip_name :: "bytes \<Rightarrow> nat \<Rightarrow> nat option" where
  "skip_name buf pos =
     (if pos < length buf then
        (let len = buf ! pos in
           if len AND 0xc0 = 0xc0 then Some (pos + 2)
           else if len = 0 then Some (pos + 1)
           else skip_name buf (pos + (1 + unat len)))
      else None)"
  by pat_completeness auto
termination by (relation "measure (\<lambda>(buf, pos). length buf - pos)") auto

declare skip_name.simps [simp del]

fun skip_questions :: "bytes \<Rightarrow> nat \<Rightarrow> nat \<Rightarrow> nat option" where
  "skip_questions msg 0 pos = Some pos"
| "skip_questions msg (Suc n) pos =
     (case skip_name msg pos of
        None \<Rightarrow> None
      | Some p \<Rightarrow>
          (case checked_add_usize p 4 of
             None \<Rightarrow> None
           | Some p' \<Rightarrow> skip_questions msg n p'))"

text \<open>A big-endian 16-bit read of two indexed bytes.\<close>

definition u16_at :: "bytes \<Rightarrow> nat \<Rightarrow> u16 option" where
  "u16_at msg p = do { a \<leftarrow> idx msg p; b \<leftarrow> idx msg (p + 1); Some (of_be [a, b]) }"

function svcparams_loop :: "bytes \<Rightarrow> nat \<Rightarrow> nat \<Rightarrow> bytes option option" where
  "svcparams_loop msg fin p =
     (if p + 4 \<le> fin then do {
        key \<leftarrow> u16_at msg p;
        l \<leftarrow> u16_at msg (p + 2);
        (let len = unat l; p = p + 4 in
           if fin < p + len then Some None
           else if key = SVCPARAM_ECH then do { v \<leftarrow> slice msg p (p + len); Some (Some v) }
           else svcparams_loop msg fin (p + len))
      } else Some None)"
  by pat_completeness auto
termination by (relation "measure (\<lambda>(msg, fin, p). fin - p)") auto

declare svcparams_loop.simps [simp del]

definition parse_svcparams_ech :: "bytes \<Rightarrow> nat \<Rightarrow> nat \<Rightarrow> bytes option option" where
  "parse_svcparams_ech msg rdata_start rdlen =
     (let fin = rdata_start + rdlen in
        if fin < rdata_start + 2 then Some None
        else
          (case skip_name msg (rdata_start + 2) of
             None \<Rightarrow> Some None
           | Some p \<Rightarrow> svcparams_loop msg fin p))"

fun https_answers :: "bytes \<Rightarrow> nat \<Rightarrow> nat \<Rightarrow> bytes option option" where
  "https_answers msg 0 pos = Some None"
| "https_answers msg (Suc n) pos =
     (case skip_name msg pos of
        None \<Rightarrow> Some None
      | Some pos \<Rightarrow>
          if length msg < pos + 10 then Some None
          else do {
            rtype \<leftarrow> u16_at msg pos;
            l \<leftarrow> u16_at msg (pos + 8);
            (let rdlen = unat l; pos = pos + 10 in
               if length msg < pos + rdlen then Some None
               else do {
                 hit \<leftarrow> (if rtype = RR_HTTPS then parse_svcparams_ech msg pos rdlen else Some None);
                 (case hit of
                    Some ech \<Rightarrow> Some (Some ech)
                  | None \<Rightarrow> https_answers msg n (pos + rdlen))
               })
          })"

definition parse_https_ech :: "bytes \<Rightarrow> bytes option option" where
  "parse_https_ech msg =
     (if length msg < 12 then Some None
      else do {
        qd \<leftarrow> u16_at msg 4;
        an \<leftarrow> u16_at msg 6;
        (case skip_questions msg (unat qd) 12 of
           None \<Rightarrow> Some None
         | Some pos \<Rightarrow> https_answers msg (unat an) pos)
      })"

subsection \<open>The loop over hosts and servers\<close>

text \<open>
  What the socket does with a query: any of its calls may fail, the answer may not come within
  three seconds, or a datagram arrives, of which the buffer keeps 4096 bytes. \<open>ask\<close> stands
  for the network, and the ids the code draws are the sequence \<open>ids\<close>.
\<close>

datatype udp_outcome = Failed str | TimedOut | Answer bytes

definition query_ech :: "(sock_addr \<Rightarrow> bytes \<Rightarrow> udp_outcome) \<Rightarrow> u16 \<Rightarrow> sock_addr \<Rightarrow> str \<Rightarrow> bytes result option" where
  "query_ech ask i server host =
     (case ask server (build_query i host RR_HTTPS) of
        Failed e \<Rightarrow> Some (Inl (Io e))
      | TimedOut \<Rightarrow> Some (Inl (Ech ''dns timeout''))
      | Answer d \<Rightarrow> do {
          r \<leftarrow> parse_https_ech (take 4096 d);
          Some (case r of None \<Rightarrow> Inl (Ech ''no ech svcparam'') | Some e \<Rightarrow> Inr e)
        })"

fun fetch_servers :: "(sock_addr \<Rightarrow> bytes \<Rightarrow> udp_outcome) \<Rightarrow> (nat \<Rightarrow> u16) \<Rightarrow> str \<Rightarrow> str list \<Rightarrow> nat
    \<Rightarrow> (nat \<times> bytes option) option" where
  "fetch_servers ask ids host [] k = Some (k, None)"
| "fetch_servers ask ids host (s # ss) k =
     (case parse_sock_addr s of
        None \<Rightarrow> fetch_servers ask ids host ss k
      | Some a \<Rightarrow> do {
          r \<leftarrow> query_ech ask (ids k) a host;
          (case r of
             Inr ech \<Rightarrow> if ech \<noteq> [] then Some (Suc k, Some ech) else fetch_servers ask ids host ss (Suc k)
           | Inl _ \<Rightarrow> fetch_servers ask ids host ss (Suc k))
        })"

fun fetch_hosts :: "(sock_addr \<Rightarrow> bytes \<Rightarrow> udp_outcome) \<Rightarrow> (nat \<Rightarrow> u16) \<Rightarrow> str list \<Rightarrow> nat \<Rightarrow> bytes result option" where
  "fetch_hosts ask ids [] k = Some (Inl (Ech ''no ECHConfigList resolved''))"
| "fetch_hosts ask ids (h # hs) k = do {
     (k, r) \<leftarrow> fetch_servers ask ids h BOOTSTRAP_DNS k;
     (case r of Some ech \<Rightarrow> Some (Inr ech) | None \<Rightarrow> fetch_hosts ask ids hs k)
   }"

definition fetch_ech_config :: "(sock_addr \<Rightarrow> bytes \<Rightarrow> udp_outcome) \<Rightarrow> (nat \<Rightarrow> u16) \<Rightarrow> bytes result option" where
  "fetch_ech_config ask ids = fetch_hosts ask ids ECH_HOSTS 0"

subsection \<open>The wire format of DNS messages\<close>

text \<open>
  The abstract side: names end at the root or in a compression pointer, labels have 1 to 63
  bytes, resource records carry either the fields of an HTTPS record or opaque data.
\<close>

datatype name_end = Root | Pointer u8 u8

type_synonym wname = "bytes list \<times> name_end"

fun end_bytes :: "name_end \<Rightarrow> bytes" where
  "end_bytes Root = [0]"
| "end_bytes (Pointer a b) = [a OR 0xc0, b]"

definition name_bytes :: "wname \<Rightarrow> bytes" where
  "name_bytes n = concat (map label_bytes (fst n)) @ end_bytes (snd n)"

definition name_ok :: "wname \<Rightarrow> bool" where
  "name_ok n = list_all (\<lambda>l. 0 < length l \<and> length l < 64) (fst n)"

record question =
  q_name :: wname
  q_type :: u16
  q_class :: u16

definition question_bytes :: "question \<Rightarrow> bytes" where
  "question_bytes q = name_bytes (q_name q) @ be_bytes 2 (q_type q) @ be_bytes 2 (q_class q)"

datatype rr_data = Svc u16 wname "(u16 \<times> bytes) list" | Raw bytes

definition param_bytes :: "u16 \<times> bytes \<Rightarrow> bytes" where
  "param_bytes kv = be_bytes 2 (fst kv) @ be_bytes 2 (word_of_nat (length (snd kv)) :: u16) @ snd kv"

fun data_bytes :: "rr_data \<Rightarrow> bytes" where
  "data_bytes (Svc prio target ps) = be_bytes 2 prio @ name_bytes target @ concat (map param_bytes ps)"
| "data_bytes (Raw d) = d"

fun data_ok :: "u16 \<Rightarrow> rr_data \<Rightarrow> bool" where
  "data_ok ty (Svc prio target ps) =
     (ty = 65 \<and> name_ok target \<and> list_all (\<lambda>kv. length (snd kv) < 65536) ps)"
| "data_ok ty (Raw d) = (ty \<noteq> 65)"

record rr =
  rname :: wname
  rtype :: u16
  rclass :: u16
  rttl :: u32
  rdata :: rr_data

definition rr_bytes :: "rr \<Rightarrow> bytes" where
  "rr_bytes r =
     name_bytes (rname r) @ be_bytes 2 (rtype r) @ be_bytes 2 (rclass r) @ be_bytes 4 (rttl r)
     @ be_bytes 2 (word_of_nat (length (data_bytes (rdata r))) :: u16) @ data_bytes (rdata r)"

definition rr_ok :: "rr \<Rightarrow> bool" where
  "rr_ok r \<longleftrightarrow> name_ok (rname r) \<and> data_ok (rtype r) (rdata r) \<and> length (data_bytes (rdata r)) < 65536"

text \<open>A message: id and flags, the four counts, the questions, the answers and the rest.\<close>

definition dns_message :: "u16 \<Rightarrow> u16 \<Rightarrow> question list \<Rightarrow> rr list \<Rightarrow> u16 \<Rightarrow> u16 \<Rightarrow> bytes \<Rightarrow> bytes" where
  "dns_message i flags qs rrs ns ar tail =
     be_bytes 2 i @ be_bytes 2 flags @ be_bytes 2 (word_of_nat (length qs) :: u16)
     @ be_bytes 2 (word_of_nat (length rrs) :: u16) @ be_bytes 2 ns @ be_bytes 2 ar
     @ concat (map question_bytes qs) @ concat (map rr_bytes rrs) @ tail"

definition message_ok :: "question list \<Rightarrow> rr list \<Rightarrow> bytes \<Rightarrow> bool" where
  "message_ok qs rrs msg \<longleftrightarrow>
     list_all (\<lambda>q. name_ok (q_name q)) qs \<and> list_all rr_ok rrs
     \<and> length qs < 65536 \<and> length rrs < 65536 \<and> length msg < 2 ^ 64"

subsection \<open>Names and 16-bit fields\<close>

lemma label_len_byte:
  assumes "0 < n" "n < 64"
  shows "(word_of_nat n :: u8) AND 0xc0 = 0" "(word_of_nat n :: u8) \<noteq> 0" "unat (word_of_nat n :: u8) = n"
proof -
  show u: "unat (word_of_nat n :: u8) = n" using assms by (simp add: unat_of_nat take_bit_nat_eq_self)
  then show "(word_of_nat n :: u8) \<noteq> 0" using assms by (metis less_numeral_extra(3) unat_0)
  have t: "take_bit 6 n = n" using assms by (simp add: take_bit_nat_eq_self)
  have nb: "\<not> bit n i" if "6 \<le> i" for i
    using that t by (metis bit_take_bit_iff leD)
  have c0: "\<not> bit (0xc0 :: u8) i" if "i < 6" for i
  proof -
    have "(0xc0 :: u8) = push_bit 6 3" by simp
    then show ?thesis using that by (metis bit_push_bit_iff leD)
  qed
  show "(word_of_nat n :: u8) AND 0xc0 = 0"
  proof (rule bit_word_eqI)
    fix i assume "i < LENGTH(8)"
    show "bit ((word_of_nat n :: u8) AND 0xc0) i = bit (0 :: u8) i"
      using nb [of i] c0 [of i] by (cases "6 \<le> i") (auto simp: bit_and_iff bit_of_nat_iff)
  qed
qed

lemma pointer_byte: "((a :: u8) OR 0xc0) AND 0xc0 = 0xc0"
  by (rule bit_word_eqI) (auto simp: bit_and_iff bit_or_iff)

lemma skip_name_bytes:
  "list_all (\<lambda>l. 0 < length l \<and> length l < 64) ls \<Longrightarrow>
     skip_name (p @ concat (map label_bytes ls) @ end_bytes e @ q) (length p) =
       Some (length p + length (concat (map label_bytes ls) @ end_bytes e))"
proof (induction ls arbitrary: p)
  case Nil
  show ?case
    by (cases e) (simp_all add: skip_name.simps [of _ "length p"] nth_append pointer_byte)
next
  case (Cons l ls)
  then have l: "0 < length l" "length l < 64" by simp_all
  let ?r = "concat (map label_bytes ls) @ end_bytes e @ q"
  have "skip_name (p @ label_bytes l @ ?r) (length p) = skip_name ((p @ label_bytes l) @ ?r) (length (p @ label_bytes l))"
    using label_len_byte [OF l]
    by (subst skip_name.simps) (simp add: label_bytes_def nth_append)
  then show ?case using Cons.IH [of "p @ label_bytes l"] Cons.prems by simp
qed

lemma skip_name_name [simp]:
  "name_ok n \<Longrightarrow> skip_name (p @ name_bytes n @ q) (length p) = Some (length p + length (name_bytes n))"
  using skip_name_bytes [of "fst n" p "snd n" q] by (simp add: name_ok_def name_bytes_def)

lemma skip_name_ge: "skip_name buf pos = Some p \<Longrightarrow> pos < p"
proof (induction buf pos rule: skip_name.induct)
  case (1 buf pos)
  then show ?case by (subst (asm) (2) skip_name.simps) (fastforce simp: Let_def split: if_splits)
qed

lemma u16_at_in: "p + 1 < length msg \<Longrightarrow> u16_at msg p = Some (of_be [msg ! p, msg ! Suc p])"
  by (simp add: u16_at_def)

lemma u16_at_be [simp]: "u16_at (p @ be_bytes 2 w @ q) (length p) = Some (w :: u16)"
  by (simp add: u16_at_in nth_append be_bytes_2 of_be_2)

lemma u16_at_append: "length p = n \<Longrightarrow> u16_at (p @ be_bytes 2 w @ q) n = Some (w :: u16)"
  by auto

lemma skip_questions_bytes:
  "list_all (\<lambda>q. name_ok (q_name q)) qs \<Longrightarrow> length (p @ concat (map question_bytes qs)) < 2 ^ 64 \<Longrightarrow>
     skip_questions (p @ concat (map question_bytes qs) @ r) (length qs) (length p) =
       Some (length p + length (concat (map question_bytes qs)))"
proof (induction qs arbitrary: p)
  case (Cons q qs)
  let ?n = "name_bytes (q_name q)" and ?t = "be_bytes 2 (q_type q) @ be_bytes 2 (q_class q)"
  have "skip_name (p @ ?n @ ?t @ concat (map question_bytes qs) @ r) (length p) = Some (length p + length ?n)"
    using Cons.prems by (intro skip_name_name) simp
  moreover have "length p + length ?n + 4 < 2 ^ 64"
    using Cons.prems by (simp add: question_bytes_def)
  ultimately show ?case using Cons.IH [of "p @ question_bytes q"] Cons.prems
    by (simp add: question_bytes_def add.assoc)
qed simp

subsection \<open>The contract of an answer parser\<close>

text \<open>
  Both answer parsers of the program (HTTPS records here, A records in socks.rs) skip the
  questions and scan the answers with a test of their own: \<open>pick\<close> is that test, \<open>value_of\<close>
  what it means on the abstract record. The contract gives, for every parser of this shape,
  that no message makes it panic and that it returns the value of the first record that has
  one.
\<close>

fun first_some :: "('a \<Rightarrow> 'b option) \<Rightarrow> 'a list \<Rightarrow> 'b option" where
  "first_some f [] = None"
| "first_some f (x # xs) = (case f x of Some y \<Rightarrow> Some y | None \<Rightarrow> first_some f xs)"

locale answer_scan =
  fixes parse :: "bytes \<Rightarrow> 'a option option"
    and answers :: "bytes \<Rightarrow> nat \<Rightarrow> nat \<Rightarrow> 'a option option"
    and pick :: "bytes \<Rightarrow> nat \<Rightarrow> u16 \<Rightarrow> nat \<Rightarrow> 'a option option"
    and value_of :: "u16 \<Rightarrow> rr_data \<Rightarrow> 'a option"
  assumes parse: "parse msg =
      (if length msg < 12 then Some None
       else do {
         qd \<leftarrow> u16_at msg 4;
         an \<leftarrow> u16_at msg 6;
         (case skip_questions msg (unat qd) 12 of
            None \<Rightarrow> Some None
          | Some pos \<Rightarrow> answers msg (unat an) pos)
       })"
    and answers_0: "answers msg 0 pos = Some None"
    and answers_Suc: "answers msg (Suc n) pos =
      (case skip_name msg pos of
         None \<Rightarrow> Some None
       | Some pos \<Rightarrow>
           if length msg < pos + 10 then Some None
           else do {
             rtype \<leftarrow> u16_at msg pos;
             l \<leftarrow> u16_at msg (pos + 8);
             (let rdlen = unat l; pos = pos + 10 in
                if length msg < pos + rdlen then Some None
                else do {
                  hit \<leftarrow> pick msg pos rtype rdlen;
                  (case hit of
                     Some v \<Rightarrow> Some (Some v)
                   | None \<Rightarrow> answers msg n (pos + rdlen))
                })
           })"
    and pick_total: "pos + rdlen \<le> length msg \<Longrightarrow> pick msg pos ty rdlen \<noteq> None"
    and pick_value: "data_ok ty d \<Longrightarrow>
      pick (p @ data_bytes d @ q) (length p) ty (length (data_bytes d)) = Some (value_of ty d)"
begin

lemma answers_total: "answers msg n pos \<noteq> None"
proof (induction n arbitrary: pos)
  case (Suc n)
  show ?case
  proof (cases "skip_name msg pos")
    case (Some p)
    let ?l = "unat (of_be [msg ! (p + 8), msg ! Suc (p + 8)] :: u16)"
    show ?thesis
    proof (cases "p + 10 \<le> length msg \<and> p + 10 + ?l \<le> length msg")
      case True
      then obtain hit where "pick msg (p + 10) (of_be [msg ! p, msg ! Suc p]) ?l = Some hit"
        using pick_total by blast
      then show ?thesis using Suc.IH True
        by (cases hit) (simp_all add: answers_Suc Some u16_at_in Let_def)
    qed (auto simp: answers_Suc Some u16_at_in Let_def)
  qed (simp add: answers_Suc)
qed (simp add: answers_0)

lemma parse_total: "parse msg \<noteq> None"
  using answers_total by (simp add: parse u16_at_in split: option.split)

lemma answers_bytes:
  "list_all rr_ok rrs \<Longrightarrow>
     answers (p @ concat (map rr_bytes rrs) @ r) (length rrs) (length p) =
       Some (first_some (\<lambda>r. value_of (rtype r) (rdata r)) rrs)"
proof (induction rrs arbitrary: p)
  case (Cons a rrs)
  let ?n = "name_bytes (rname a)" and ?d = "data_bytes (rdata a)"
  let ?f = "be_bytes 2 (rclass a) @ be_bytes 4 (rttl a)"
  let ?l = "be_bytes 2 (word_of_nat (length ?d) :: u16)"
  let ?rest = "concat (map rr_bytes rrs) @ r"
  let ?msg = "p @ concat (map rr_bytes (a # rrs)) @ r"
  have ok: "name_ok (rname a)" "data_ok (rtype a) (rdata a)" "length ?d < 65536"
    using Cons.prems by (simp_all add: rr_ok_def)
  have msg: "?msg = p @ ?n @ be_bytes 2 (rtype a) @ ?f @ ?l @ ?d @ ?rest"
    by (simp add: rr_bytes_def)
  have skip: "skip_name ?msg (length p) = Some (length p + length ?n)"
    unfolding msg using ok(1) by simp
  have ty: "u16_at ?msg (length p + length ?n) = Some (rtype a)"
    using u16_at_append [of "p @ ?n"] unfolding msg by simp
  have len: "u16_at ?msg (length p + length ?n + 8) = Some (word_of_nat (length ?d))"
    using u16_at_append [of "p @ ?n @ be_bytes 2 (rtype a) @ ?f"] unfolding msg by simp
  have u: "unat (word_of_nat (length ?d) :: u16) = length ?d"
    using ok(3) by (simp add: unat_of_nat take_bit_nat_eq_self)
  have pick: "pick ?msg (length p + length ?n + 10) (rtype a) (length ?d) = Some (value_of (rtype a) (rdata a))"
    using pick_value [OF ok(2), of "p @ ?n @ be_bytes 2 (rtype a) @ ?f @ ?l"] unfolding msg by (simp add: add.assoc)
  have "answers ?msg (length rrs) (length p + length ?n + 10 + length ?d) =
      Some (first_some (\<lambda>r. value_of (rtype r) (rdata r)) rrs)"
    using Cons.IH [of "p @ rr_bytes a"] Cons.prems by (simp add: rr_bytes_def [of a] add.assoc)
  moreover have "\<not> length ?msg < length p + length ?n + 10" "\<not> length ?msg < length p + length ?n + 10 + length ?d"
    unfolding msg by simp_all
  ultimately show ?case
    by (simp add: answers_Suc skip ty len u pick Let_def del: list.map concat.simps split: option.split)
qed (simp add: answers_0)

lemma parse_message:
  assumes ok: "message_ok qs rrs (dns_message i flags qs rrs ns ar tail)"
  shows "parse (dns_message i flags qs rrs ns ar tail) = Some (first_some (\<lambda>r. value_of (rtype r) (rdata r)) rrs)"
proof -
  let ?msg = "dns_message i flags qs rrs ns ar tail"
  let ?q = "be_bytes 2 (word_of_nat (length qs) :: u16)" and ?a = "be_bytes 2 (word_of_nat (length rrs) :: u16)"
  let ?h = "be_bytes 2 i @ be_bytes 2 flags @ ?q @ ?a @ be_bytes 2 ns @ be_bytes 2 ar"
  let ?qs = "concat (map question_bytes qs)"
  have msg: "?msg = ?h @ ?qs @ concat (map rr_bytes rrs) @ tail" by (simp add: dns_message_def)
  have len: "length ?h = 12" by simp
  have "u16_at ?msg 4 = Some (word_of_nat (length qs))" "u16_at ?msg 6 = Some (word_of_nat (length rrs))"
    using u16_at_append [of "be_bytes 2 i @ be_bytes 2 flags" 4]
      u16_at_append [of "be_bytes 2 i @ be_bytes 2 flags @ ?q" 6] unfolding msg by simp_all
  moreover have "unat (word_of_nat (length qs) :: u16) = length qs" "unat (word_of_nat (length rrs) :: u16) = length rrs"
    using ok by (simp_all add: message_ok_def unat_of_nat take_bit_nat_eq_self)
  moreover have "skip_questions ?msg (length qs) 12 = Some (12 + length ?qs)"
    using skip_questions_bytes [of qs ?h "concat (map rr_bytes rrs) @ tail"] ok len
    unfolding msg message_ok_def by simp
  moreover have "answers ?msg (length rrs) (12 + length ?qs) = Some (first_some (\<lambda>r. value_of (rtype r) (rdata r)) rrs)"
  proof -
    have "length (?h @ ?qs) = 12 + length ?qs" by simp
    then show ?thesis
      using answers_bytes [of rrs "?h @ ?qs" tail] ok unfolding msg message_ok_def by (simp only: append_assoc)
  qed
  moreover have "\<not> length ?msg < 12" unfolding msg by simp
  ultimately show ?thesis by (simp add: parse)
qed

end

subsection \<open>The HTTPS answer parser meets the contract\<close>

fun svc_ech :: "u16 \<Rightarrow> rr_data \<Rightarrow> bytes option" where
  "svc_ech ty (Svc prio target ps) = map_of ps SVCPARAM_ECH"
| "svc_ech ty (Raw d) = None"

lemma svcparams_loop_total: "fin \<le> length msg \<Longrightarrow> svcparams_loop msg fin p \<noteq> None"
proof (induction msg fin p rule: svcparams_loop.induct)
  case (1 msg fin p)
  show ?case
  proof (cases "p + 4 \<le> fin")
    case True
    then have "u16_at msg p = Some (of_be [msg ! p, msg ! Suc p])"
      "u16_at msg (p + 2) = Some (of_be [msg ! (p + 2), msg ! Suc (p + 2)])"
      using "1.prems" by (simp_all add: u16_at_in)
    then show ?thesis using "1.IH" "1.prems" True
      by (subst svcparams_loop.simps) (simp add: Let_def slice_def)
  qed (subst svcparams_loop.simps, simp)
qed

lemma svcparams_loop_bytes:
  "list_all (\<lambda>kv. length (snd kv) < 65536) ps \<Longrightarrow>
     svcparams_loop (p @ concat (map param_bytes ps) @ q)
       (length p + length (concat (map param_bytes ps))) (length p) = Some (map_of ps SVCPARAM_ECH)"
proof (induction ps arbitrary: p)
  case Nil
  show ?case by (subst svcparams_loop.simps) simp
next
  case (Cons kv ps)
  obtain k v where kv: "kv = (k, v)" by (cases kv)
  let ?l = "be_bytes 2 (word_of_nat (length v) :: u16)"
  let ?rest = "concat (map param_bytes ps)"
  let ?msg = "p @ concat (map param_bytes (kv # ps)) @ q"
  let ?fin = "length p + length (concat (map param_bytes (kv # ps)))"
  have msg: "?msg = p @ be_bytes 2 k @ ?l @ v @ ?rest @ q" by (simp add: kv param_bytes_def [of "(k, v)"])
  have "length v < 65536" using Cons.prems by (simp add: kv)
  then have u: "unat (word_of_nat (length v) :: u16) = length v"
    by (simp add: unat_of_nat take_bit_nat_eq_self)
  have key: "u16_at ?msg (length p) = Some k" unfolding msg by simp
  have len: "u16_at ?msg (length p + 2) = Some (word_of_nat (length v))"
    using u16_at_append [of "p @ be_bytes 2 k"] unfolding msg by simp
  have fin: "?fin = length p + 4 + length v + length ?rest" by (simp add: kv param_bytes_def [of "(k, v)"])
  have val: "slice ?msg (length p + 4) (length p + 4 + length v) = Some v"
    using slice_middle [of "p @ be_bytes 2 k @ ?l" v] unfolding msg by (simp add: add.assoc)
  have rest: "svcparams_loop ?msg ?fin (length p + 4 + length v) = Some (map_of ps SVCPARAM_ECH)"
    using Cons.IH [of "p @ param_bytes kv"] Cons.prems
    unfolding fin by (simp add: kv param_bytes_def [of "(k, v)"] add.assoc del: add_2_eq_Suc add_2_eq_Suc')
  define M F where "M = ?msg" and "F = ?fin"
  have "svcparams_loop M F (length p) = Some (map_of (kv # ps) SVCPARAM_ECH)"
    using key len u val rest fin unfolding M_def [symmetric] F_def [symmetric]
    by (subst svcparams_loop.simps) (simp add: kv Let_def del: add_2_eq_Suc')
  then show ?case unfolding M_def F_def .
qed

lemma svcparams_bytes:
  assumes "data_ok ty d" and "ty = 65"
  shows "parse_svcparams_ech (p @ data_bytes d @ q) (length p) (length (data_bytes d)) = Some (svc_ech ty d)"
proof (cases d)
  case (Svc prio target ps)
  have "skip_name (p @ data_bytes d @ q) (length p + 2) = Some (length p + 2 + length (name_bytes target))"
    using skip_name_name [of target "p @ be_bytes 2 prio"] assms Svc by simp
  moreover have "svcparams_loop (p @ data_bytes d @ q) (length p + length (data_bytes d))
      (length p + 2 + length (name_bytes target)) = Some (map_of ps SVCPARAM_ECH)"
    using svcparams_loop_bytes [of ps "p @ be_bytes 2 prio @ name_bytes target" q] assms Svc
    by (simp add: add.assoc)
  ultimately show ?thesis
    by (simp add: parse_svcparams_ech_def Svc Let_def)
qed (use assms in simp)

definition pick_ech :: "bytes \<Rightarrow> nat \<Rightarrow> u16 \<Rightarrow> nat \<Rightarrow> bytes option option" where
  "pick_ech msg pos ty rdlen = (if ty = RR_HTTPS then parse_svcparams_ech msg pos rdlen else Some None)"

interpretation https: answer_scan parse_https_ech https_answers pick_ech svc_ech
proof
  fix msg p q ty d pos rdlen
  show "pos + rdlen \<le> length msg \<Longrightarrow> pick_ech msg pos ty rdlen \<noteq> None"
    using svcparams_loop_total by (simp add: pick_ech_def parse_svcparams_ech_def Let_def split: option.split)
  show "data_ok ty d \<Longrightarrow> pick_ech (p @ data_bytes d @ q) (length p) ty (length (data_bytes d)) = Some (svc_ech ty d)"
    by (cases d) (auto simp: pick_ech_def RR_HTTPS_def svcparams_bytes simp del: data_bytes.simps)
qed (unfold parse_https_ech_def pick_ech_def https_answers.simps, (rule refl)+)

subsection \<open>The query\<close>

text \<open>The labels of a host name that go into a query, as an abstract name.\<close>

definition host_name :: "str \<Rightarrow> wname" where
  "host_name s = (map text_bytes (filter (\<lambda>l. l \<noteq> []) (split_on (CHR ''.'') s)), Root)"

lemma concat_map_filter:
  "concat (map (\<lambda>x. if P x then [] else f x) xs) = concat (map f (filter (\<lambda>x. \<not> P x) xs))"
  by (induction xs) auto

lemma build_query_bytes:
  "build_query i name qt =
     dns_message i 0x0100 [\<lparr>q_name = host_name name, q_type = qt, q_class = 1\<rparr>] [] 0 0 []"
  by (simp add: build_query_def dns_message_def host_name_def question_bytes_def name_bytes_def
      concat_map_filter be_bytes_2 comp_def)

subsection \<open>The bootstrap loop\<close>

lemma query_ech_total: "query_ech ask i a host \<noteq> None"
  by (auto simp: query_ech_def https.parse_total bind_eq_None_conv iff del: not_None_eq split: udp_outcome.split)

lemma fetch_servers_total: "fetch_servers ask ids host ss k \<noteq> None"
proof (induction ss arbitrary: k)
  case (Cons s ss)
  then show ?case
    by (auto simp: query_ech_total bind_eq_None_conv iff del: not_None_eq split: option.split sum.split if_splits)
qed simp

lemma fetch_hosts_total: "fetch_hosts ask ids hs k \<noteq> None"
proof (induction hs arbitrary: k)
  case (Cons h hs)
  obtain k' r where "fetch_servers ask ids h BOOTSTRAP_DNS k = Some (k', r)"
    using fetch_servers_total [of ask ids h BOOTSTRAP_DNS k] by auto
  then show ?case using Cons.IH by (cases r) simp_all
qed simp

lemma fetch_servers_hit:
  "fetch_servers ask ids host ss k = Some (k', Some ech) \<Longrightarrow>
     ech \<noteq> [] \<and> (\<exists>s \<in> set ss. \<exists>a j. parse_sock_addr s = Some a \<and> query_ech ask j a host = Some (Inr ech))"
proof (induction ss arbitrary: k)
  case (Cons s ss)
  show ?case
  proof (cases "parse_sock_addr s")
    case None
    then show ?thesis using Cons by auto
  next
    case (Some a)
    obtain r where r: "query_ech ask (ids k) a host = Some r"
      using query_ech_total [of ask "ids k" a host] by auto
    show ?thesis
    proof (cases "\<exists>e. r = Inr e \<and> e \<noteq> []")
      case True
      then show ?thesis using Cons.prems r Some by auto
    next
      case False
      then have "fetch_servers ask ids host ss (Suc k) = Some (k', Some ech)"
        using Cons.prems r Some by (cases r) auto
      from Cons.IH [OF this] show ?thesis by auto
    qed
  qed
qed simp

lemma fetch_hosts_hit:
  "fetch_hosts ask ids hs k = Some (Inr ech) \<Longrightarrow>
     ech \<noteq> [] \<and> (\<exists>h \<in> set hs. \<exists>s \<in> set BOOTSTRAP_DNS. \<exists>a j.
       parse_sock_addr s = Some a \<and> query_ech ask j a h = Some (Inr ech))"
proof (induction hs arbitrary: k)
  case (Cons h hs)
  obtain k' r where r: "fetch_servers ask ids h BOOTSTRAP_DNS k = Some (k', r)"
    using fetch_servers_total [of ask ids h BOOTSTRAP_DNS k] by auto
  show ?case
  proof (cases r)
    case None
    then show ?thesis using Cons r by auto
  next
    case (Some e)
    then show ?thesis using Cons.prems r fetch_servers_hit by fastforce
  qed
qed simp

lemma fetch_hosts_error: "fetch_hosts ask ids hs k = Some (Inl e) \<Longrightarrow> e = Ech ''no ECHConfigList resolved''"
  by (induction hs arbitrary: k) (auto split: Option.bind_splits option.splits)

subsection \<open>Properties\<close>

text \<open>C10. \<open>parse_https_ech\<close> returns the ECH configuration of an answer: for every well-formed
  message, whatever its questions, the kinds of its records, the compression of its names and
  the bytes after the answers, the result is the ech parameter of the first HTTPS record that
  has one, and nothing when no record has.\<close>

theorem parse_https_ech_message:
  assumes "message_ok qs rrs (dns_message i flags qs rrs ns ar tail)"
  shows "parse_https_ech (dns_message i flags qs rrs ns ar tail) =
    Some (first_some (\<lambda>r. svc_ech (rtype r) (rdata r)) rrs)"
  using assms by (rule https.parse_message)

definition sample_answers :: "rr list" where
  "sample_answers =
     [\<lparr>rname = ([], Pointer 0 12), rtype = 5, rclass = 1, rttl = 300, rdata = Raw [0xC0, 12]\<rparr>,
      \<lparr>rname = ([[97, 98], [99]], Root), rtype = 65, rclass = 1, rttl = 300,
       rdata = Svc 1 ([], Root) [(1, [2, 104, 50]), (5, [7, 8, 9])]\<rparr>]"

theorem parse_https_ech_message_witness:
  "parse_https_ech (dns_message 7 0x8180 [\<lparr>q_name = ([[97]], Root), q_type = 65, q_class = 1\<rparr>] sample_answers 0 0 [1]) =
     Some (Some [7, 8, 9])"
proof -
  have "message_ok [\<lparr>q_name = ([[97]], Root), q_type = 65, q_class = 1\<rparr>] sample_answers
      (dns_message 7 0x8180 [\<lparr>q_name = ([[97]], Root), q_type = 65, q_class = 1\<rparr>] sample_answers 0 0 [1])"
    by (simp add: message_ok_def sample_answers_def rr_ok_def name_ok_def dns_message_def
        question_bytes_def rr_bytes_def name_bytes_def label_bytes_def param_bytes_def)
  from parse_https_ech_message [OF this] show ?thesis
    by (simp add: sample_answers_def SVCPARAM_ECH_def)
qed

text \<open>C18. The ECH bootstrap never panics, whatever the network answers; the configuration it
  returns is not empty and was parsed from the answer one of the bootstrap servers gave for one
  of the ECH hosts, and its only error is that none resolved.\<close>

theorem fetch_ech_config_correct:
  "\<exists>r. fetch_ech_config ask ids = Some r \<and>
     (case r of
        Inr ech \<Rightarrow> ech \<noteq> [] \<and> (\<exists>h \<in> set ECH_HOSTS. \<exists>s \<in> set BOOTSTRAP_DNS. \<exists>a j.
          parse_sock_addr s = Some a \<and> query_ech ask j a h = Some (Inr ech))
      | Inl e \<Rightarrow> e = Ech ''no ECHConfigList resolved'')"
proof -
  obtain r where "fetch_hosts ask ids ECH_HOSTS 0 = Some r"
    using fetch_hosts_total [of ask ids ECH_HOSTS 0] by auto
  then show ?thesis
    using fetch_hosts_hit fetch_hosts_error by (cases r) (auto simp: fetch_ech_config_def)
qed

end
