(* ===== verification/Socks.thy ===== *)
theory Socks
  imports Dns
begin

section \<open>The SOCKS5 front end (socks.rs)\<close>

text \<open>
  The handlers of one SOCKS client: the greeting (\<open>handshake\<close>), the request (\<open>read_target\<close>),
  the replies, name resolution over the tunnel (\<open>dns_resolve\<close> with its query builder and
  answer parser), the two commands (\<open>handle_connect\<close> with its two copying tasks,
  \<open>handle_udp_associate\<close> with its \<open>select!\<close> loop) and the UDP framing
  (\<open>parse_udp_request\<close>, \<open>build_udp_reply\<close>).

  A client connection is the bytes it will still deliver before it ends, the bytes written to
  it, and whether writes to it fail. What the network stack does with a call of \<open>StackHandle\<close>
  is the record \<open>stack\<close>: it is the interface of netstack.rs as this file sees it. The random
  DNS ids are arguments.
\<close>

definition VER :: u8 where "VER = 0x05"
definition CMD_CONNECT :: u8 where "CMD_CONNECT = 0x01"
definition CMD_UDP_ASSOCIATE :: u8 where "CMD_UDP_ASSOCIATE = 0x03"
definition ATYP_V4 :: u8 where "ATYP_V4 = 0x01"
definition ATYP_DOMAIN :: u8 where "ATYP_DOMAIN = 0x03"
definition ATYP_V6 :: u8 where "ATYP_V6 = 0x04"
definition REP_OK :: u8 where "REP_OK = 0x00"
definition REP_GENERAL :: u8 where "REP_GENERAL = 0x01"
definition REP_NOT_SUPPORTED :: u8 where "REP_NOT_SUPPORTED = 0x07"

lemmas socks_consts = VER_def CMD_CONNECT_def CMD_UDP_ASSOCIATE_def ATYP_V4_def ATYP_DOMAIN_def
  ATYP_V6_def REP_OK_def REP_GENERAL_def REP_NOT_SUPPORTED_def

datatype target = TIp ip_addr | TDomain str

subsection \<open>The connection of a client\<close>

record sock =
  rx :: bytes
  tx :: bytes
  broken :: bool

definition read_exact :: "nat \<Rightarrow> sock \<Rightarrow> sock \<times> bytes result" where
  "read_exact n s =
     (if length (rx s) < n then (s\<lparr>rx := []\<rparr>, Inl (Io ''early eof''))
      else (s\<lparr>rx := drop n (rx s)\<rparr>, Inr (take n (rx s))))"

definition write_all :: "bytes \<Rightarrow> sock \<Rightarrow> sock \<times> unit result" where
  "write_all d s = (if broken s then (s, Inl (Io ''broken pipe'')) else (s\<lparr>tx := tx s @ d\<rparr>, Inr ()))"

definition handshake :: "sock \<Rightarrow> sock \<times> unit result" where
  "handshake s =
     andthen (read_exact 2 s) (\<lambda>prefix s.
       if prefix ! 0 \<noteq> VER then (s, Inl (Other ''bad greeting version''))
       else
         (let nmethods = unat (prefix ! 1) in
          andthen (read_exact nmethods s) (\<lambda>methods s. write_all [VER, 0x00] s)))"

definition read_name :: "u8 \<Rightarrow> sock \<Rightarrow> sock \<times> target result" where
  "read_name atyp s =
     (if atyp = ATYP_V4 then andthen (read_exact 4 s) (\<lambda>b s. (s, Inr (TIp (IpV4 (of_be b)))))
      else if atyp = ATYP_V6 then andthen (read_exact 16 s) (\<lambda>b s. (s, Inr (TIp (IpV6 (of_be b)))))
      else if atyp = ATYP_DOMAIN then
        andthen (read_exact 1 s) (\<lambda>len s.
          andthen (read_exact (unat (len ! 0)) s) (\<lambda>name s.
            (s, Inr (TDomain (bytes_text (from_utf8_lossy name))))))
      else (s, Inl (Other ''bad atyp'')))"

definition read_target :: "u8 \<Rightarrow> sock \<Rightarrow> sock \<times> (target \<times> u16) result" where
  "read_target atyp s =
     andthen (read_name atyp s) (\<lambda>target s.
       andthen (read_exact 2 s) (\<lambda>port s. (s, Inr (target, of_be port))))"

definition reply :: "u8 \<Rightarrow> sock \<Rightarrow> sock \<times> unit result" where
  "reply code s = write_all [VER, code, 0x00, ATYP_V4, 0, 0, 0, 0, 0, 0] s"

definition reply_bound :: "sock_addr \<Rightarrow> sock \<Rightarrow> sock \<times> unit result" where
  "reply_bound bound s =
     (let buf = [VER, REP_OK, 0x00];
          buf = (case sa_ip bound of
                   IpV4 v4 \<Rightarrow> buf @ [ATYP_V4] @ ipv4_octets v4
                 | IpV6 v6 \<Rightarrow> buf @ [ATYP_V6] @ ipv6_octets v6);
          buf = buf @ be_bytes 2 (sa_port bound)
      in write_all buf s)"

subsection \<open>Resolution over the tunnel\<close>

text \<open>What the stack delivers on the UDP socket of a query within five seconds.\<close>

datatype dns_outcome = NoAnswer | Closed | From sock_addr bytes

record stack =
  st_open_tcp :: "sock_addr \<Rightarrow> unit result"
  st_open_udp :: "unit result"
  st_udp_send :: "sock_addr \<Rightarrow> bytes \<Rightarrow> unit result"
  st_dns_recv :: "bytes \<Rightarrow> dns_outcome"

definition build_dns_query :: "u16 \<Rightarrow> str \<Rightarrow> u16 \<Rightarrow> bytes" where
  "build_dns_query i name qtype =
     be_bytes 2 i @ [0x01, 0x00] @ [0x00, 0x01] @ [0x00, 0x00, 0x00, 0x00, 0x00, 0x00]
     @ concat (map (\<lambda>label. word_of_nat (length label) # text_bytes label) (split_on (CHR ''.'') name))
     @ [0x00] @ be_bytes 2 qtype @ [0x00, 0x01]"

function skip_name_a :: "bytes \<Rightarrow> nat \<Rightarrow> nat option" where
  "skip_name_a buf pos =
     (if pos < length buf then
        (let len = buf ! pos in
           if len AND 0xc0 = 0xc0 then Some (pos + 2)
           else if len = 0 then Some (pos + 1)
           else skip_name_a buf (pos + (1 + unat len)))
      else None)"
  by pat_completeness auto
termination by (relation "measure (\<lambda>(buf, pos). length buf - pos)") auto

declare skip_name_a.simps [simp del]

fun skip_questions_a :: "bytes \<Rightarrow> nat \<Rightarrow> nat \<Rightarrow> nat option" where
  "skip_questions_a resp 0 pos = Some pos"
| "skip_questions_a resp (Suc n) pos =
     (case skip_name_a resp pos of
        None \<Rightarrow> None
      | Some p \<Rightarrow>
          (case checked_add_usize p 4 of
             None \<Rightarrow> None
           | Some p' \<Rightarrow> skip_questions_a resp n p'))"

fun a_answers :: "bytes \<Rightarrow> nat \<Rightarrow> nat \<Rightarrow> ip_addr option option" where
  "a_answers resp 0 pos = Some None"
| "a_answers resp (Suc n) pos =
     (case skip_name_a resp pos of
        None \<Rightarrow> Some None
      | Some pos \<Rightarrow>
          if length resp < pos + 10 then Some None
          else do {
            rtype \<leftarrow> u16_at resp pos;
            l \<leftarrow> u16_at resp (pos + 8);
            (let rdlen = unat l; pos = pos + 10 in
               if length resp < pos + rdlen then Some None
               else if rtype = 1 \<and> rdlen = 4 then do {
                 a \<leftarrow> idx resp pos;
                 b \<leftarrow> idx resp (pos + 1);
                 c \<leftarrow> idx resp (pos + 2);
                 d \<leftarrow> idx resp (pos + 3);
                 Some (Some (IpV4 (ipv4_new a b c d)))
               }
               else a_answers resp n (pos + rdlen))
          })"

definition parse_dns_a :: "bytes \<Rightarrow> ip_addr option option" where
  "parse_dns_a resp =
     (if length resp < 12 then Some None
      else do {
        qd \<leftarrow> u16_at resp 4;
        an \<leftarrow> u16_at resp 6;
        (case skip_questions_a resp (unat qd) 12 of
           None \<Rightarrow> Some None
         | Some pos \<Rightarrow> a_answers resp (unat an) pos)
      })"

definition dns_server :: sock_addr where
  "dns_server = SockAddr (IpV4 (ipv4_new 1 1 1 1)) 53"

definition dns_resolve :: "stack \<Rightarrow> u16 \<Rightarrow> str \<Rightarrow> ip_addr result option" where
  "dns_resolve st i name =
     (case st_open_udp st of
        Inl e \<Rightarrow> Some (Inl e)
      | Inr _ \<Rightarrow>
          let query = build_dns_query i name 1 in
          (case st_udp_send st dns_server query of
             Inl e \<Rightarrow> Some (Inl e)
           | Inr _ \<Rightarrow>
               (case st_dns_recv st query of
                  NoAnswer \<Rightarrow> Some (Inl (Other ''dns timeout''))
                | Closed \<Rightarrow> Some (Inl (Other ''dns channel closed''))
                | From _ resp \<Rightarrow> do {
                    r \<leftarrow> parse_dns_a resp;
                    Some (case r of
                            None \<Rightarrow> Inl (Other (''no A record for '' @ name))
                          | Some ip \<Rightarrow> Inr ip)
                  })))"

definition resolve :: "stack \<Rightarrow> u16 \<Rightarrow> target \<Rightarrow> ip_addr result option" where
  "resolve st i target =
     (case target of
        TIp ip \<Rightarrow> Some (Inr ip)
      | TDomain name \<Rightarrow>
          (case parse_ip name of
             Some ip \<Rightarrow> Some (Inr ip)
           | None \<Rightarrow> dns_resolve st i name))"

subsection \<open>CONNECT\<close>

text \<open>
  After the reply, one task copies from the client to the stack and the handler itself copies
  from the stack to the client. Their turns interleave as events: a read of the client (with
  whether the stack takes the chunk), and a chunk of the stack (with whether the client takes
  it) or the end of the stack's stream, with which the handler ends and stops the other task.
\<close>

datatype relay_event =
    ClientRead "bytes result" bool
  | StackChunk bytes bool
  | StackEnd

record relay =
  up_done :: bool
  up_sent :: "bytes list"
  up_closed :: bool
  down :: bytes
  shut :: bool

definition relay_start :: relay where
  "relay_start = \<lparr>up_done = False, up_sent = [], up_closed = False, down = [], shut = False\<rparr>"

fun relay_step :: "relay_event \<Rightarrow> relay \<Rightarrow> (relay, relay) ctl" where
  "relay_step (ClientRead r sent) s =
     Go (if up_done s then s
         else
           (case r of
              Inr d \<Rightarrow>
                if d = [] then s\<lparr>up_closed := True, up_done := True\<rparr>
                else if sent then s\<lparr>up_sent := up_sent s @ [take 16384 d]\<rparr>
                else s\<lparr>up_done := True\<rparr>
            | Inl _ \<Rightarrow> s\<lparr>up_closed := True, up_done := True\<rparr>))"
| "relay_step (StackChunk d written) s =
     (if written then Go (s\<lparr>down := down s @ d\<rparr>) else Stop (s\<lparr>shut := True, up_done := True\<rparr>))"
| "relay_step StackEnd s = Stop (s\<lparr>shut := True, up_done := True\<rparr>)"

text \<open>What became of a client: what was opened for it, or the error its handler ended with.\<close>

datatype served = Relaying sock_addr | Associated sock_addr

definition handle_connect :: "stack \<Rightarrow> u16 \<Rightarrow> target \<Rightarrow> u16 \<Rightarrow> sock \<Rightarrow> (sock \<times> served result) option" where
  "handle_connect st i target port s = do {
     r \<leftarrow> resolve st i target;
     Some
       (case r of
          Inl e \<Rightarrow> (fst (reply REP_GENERAL s), Inl e)
        | Inr ip \<Rightarrow>
            (let dst = SockAddr ip port in
             case st_open_tcp st dst of
               Inl e \<Rightarrow> (fst (reply REP_GENERAL s), Inl e)
             | Inr _ \<Rightarrow>
                 andthen (reply_bound (SockAddr (IpV4 (ipv4_new 0 0 0 0)) 0) s)
                   (\<lambda>_ s. (s, Inr (Relaying dst)))))
   }"

definition run_relay :: "relay_event list \<Rightarrow> (relay, relay) ctl" where
  "run_relay es = run_loop relay_step es relay_start"

subsection \<open>The UDP framing\<close>

definition parse_udp_request :: "bytes \<Rightarrow> (target \<times> u16 \<times> bytes) option option" where
  "parse_udp_request buf =
     (if length buf < 4 then Some None
      else do {
        frag \<leftarrow> idx buf 2;
        if frag \<noteq> 0 then Some None
        else do {
          atyp \<leftarrow> idx buf 3;
          (let pos = 4 in do {
            t \<leftarrow>
              (if atyp = ATYP_V4 then
                 (if length buf < pos + 4 then Some None
                  else do {
                    a \<leftarrow> idx buf pos;
                    b \<leftarrow> idx buf (pos + 1);
                    c \<leftarrow> idx buf (pos + 2);
                    d \<leftarrow> idx buf (pos + 3);
                    Some (Some (TIp (IpV4 (ipv4_new a b c d)), pos + 4))
                  })
               else if atyp = ATYP_V6 then
                 (if length buf < pos + 16 then Some None
                  else do {
                    b \<leftarrow> slice buf pos (pos + 16);
                    Some (Some (TIp (IpV6 (of_be b)), pos + 16))
                  })
               else if atyp = ATYP_DOMAIN then
                 (if length buf \<le> pos then Some None
                  else do {
                    l \<leftarrow> idx buf pos;
                    (let len = unat l; pos = pos + 1 in
                       if length buf < pos + len then Some None
                       else do {
                         name \<leftarrow> slice buf pos (pos + len);
                         Some (Some (TDomain (bytes_text (from_utf8_lossy name)), pos + len))
                       })
                  })
               else Some None);
            (case t of
               None \<Rightarrow> Some None
             | Some (target, pos) \<Rightarrow>
                 if length buf < pos + 2 then Some None
                 else do {
                   port \<leftarrow> u16_at buf pos;
                   data \<leftarrow> slice buf (pos + 2) (length buf);
                   Some (Some (target, port, data))
                 })
          })
        }
      })"

definition build_udp_reply :: "sock_addr \<Rightarrow> bytes \<Rightarrow> bytes" where
  "build_udp_reply src data =
     (let pkt = [0x00, 0x00, 0x00];
          pkt = (case sa_ip src of
                   IpV4 v4 \<Rightarrow> pkt @ [ATYP_V4] @ ipv4_octets v4
                 | IpV6 v6 \<Rightarrow> pkt @ [ATYP_V6] @ ipv6_octets v6)
      in pkt @ be_bytes 2 (sa_port src) @ data)"

subsection \<open>UDP ASSOCIATE\<close>

text \<open>
  The events of the \<open>select!\<close> loop: a datagram at the relay socket (with the DNS id the code
  would draw), an error of that socket, a datagram or the end of the stack's stream, a read of
  the control connection.
\<close>

datatype udp_event =
    RelayRecv bytes sock_addr u16
  | RelayErr
  | StackRecv "(sock_addr \<times> bytes) option"
  | CtrlRead "nat option"

record udp_assoc =
  client :: "sock_addr option"
  to_stack :: "(sock_addr \<times> bytes) list"
  to_client :: "(bytes \<times> sock_addr) list"

definition udp_start :: udp_assoc where
  "udp_start = \<lparr>client = None, to_stack = [], to_client = []\<rparr>"

text \<open>
  The loop stops with its last state, after which the sender is closed, or with \<open>None\<close> for a
  panic.
\<close>

fun udp_step :: "stack \<Rightarrow> udp_event \<Rightarrow> udp_assoc \<Rightarrow> (udp_assoc, udp_assoc option) ctl" where
  "udp_step st (RelayRecv buf src i) s =
     (let s = s\<lparr>client := Some src\<rparr> in
      case parse_udp_request (take 65535 buf) of
        None \<Rightarrow> Stop None
      | Some None \<Rightarrow> Go s
      | Some (Some (target, port, data)) \<Rightarrow>
          (case (case target of
                   TIp ip \<Rightarrow> Some (Inr ip)
                 | TDomain name \<Rightarrow> dns_resolve st i name) of
             None \<Rightarrow> Stop None
           | Some (Inl _) \<Rightarrow> Go s
           | Some (Inr ip) \<Rightarrow> Go (s\<lparr>to_stack := to_stack s @ [(SockAddr ip port, data)]\<rparr>)))"
| "udp_step st RelayErr s = Stop (Some s)"
| "udp_step st (StackRecv m) s =
     (case m of
        None \<Rightarrow> Stop (Some s)
      | Some (src, data) \<Rightarrow>
          Go (case client s of
                Some c \<Rightarrow> s\<lparr>to_client := to_client s @ [(build_udp_reply src data, c)]\<rparr>
              | None \<Rightarrow> s))"
| "udp_step st (CtrlRead r) s =
     (case r of
        None \<Rightarrow> Stop (Some s)
      | Some n \<Rightarrow> if n = 0 then Stop (Some s) else Go s)"

text \<open>Up to its loop; \<open>bound\<close> is what binding the relay socket on the listener's address gives.\<close>

definition handle_udp_associate :: "stack \<Rightarrow> sock_addr result \<Rightarrow> sock \<Rightarrow> sock \<times> served result" where
  "handle_udp_associate st bound s =
     (case bound of
        Inl e \<Rightarrow> (s, Inl e)
      | Inr relay_addr \<Rightarrow>
          andthen (reply_bound relay_addr s) (\<lambda>_ s.
            (case st_open_udp st of
               Inl e \<Rightarrow> (s, Inl e)
             | Inr _ \<Rightarrow> (s, Inr (Associated relay_addr)))))"

subsection \<open>A client from its first byte\<close>

definition handle_client :: "stack \<Rightarrow> sock_addr result \<Rightarrow> u16 \<Rightarrow> sock \<Rightarrow> (sock \<times> served result) option" where
  "handle_client st bound i s =
     andthen_p (handshake s) (\<lambda>_ s.
     andthen_p (read_exact 4 s) (\<lambda>head s.
       if head ! 0 \<noteq> VER then Some (s, Inl (Other ''bad socks version''))
       else
         (let cmd = head ! 1; atyp = head ! 3 in
          andthen_p (read_target atyp s) (\<lambda>(target, port) s.
            if cmd = CMD_CONNECT then handle_connect st i target port s
            else if cmd = CMD_UDP_ASSOCIATE then Some (handle_udp_associate st bound s)
            else
              Some (andthen (reply REP_NOT_SUPPORTED s)
                (\<lambda>_ s. (s, Inl (Other ''unsupported socks command''))))))))"

subsection \<open>The answer parser meets the contract\<close>

lemma skip_name_a_eq [simp]: "skip_name_a buf pos = skip_name buf pos"
proof (induction buf pos rule: skip_name.induct)
  case (1 buf pos)
  then show ?case
    by (subst skip_name.simps, subst skip_name_a.simps) (simp add: Let_def)
qed

lemma skip_questions_a_eq [simp]: "skip_questions_a buf n pos = skip_questions buf n pos"
  by (induction n arbitrary: pos) (simp_all split: option.split)

definition pick_a :: "bytes \<Rightarrow> nat \<Rightarrow> u16 \<Rightarrow> nat \<Rightarrow> ip_addr option option" where
  "pick_a resp pos ty rdlen =
     (if ty = 1 \<and> rdlen = 4 then do {
        a \<leftarrow> idx resp pos;
        b \<leftarrow> idx resp (pos + 1);
        c \<leftarrow> idx resp (pos + 2);
        d \<leftarrow> idx resp (pos + 3);
        Some (Some (IpV4 (ipv4_new a b c d)))
      } else Some None)"

text \<open>What the parser should find in a record: the address of an A record of four bytes.\<close>

definition a_address :: "u16 \<Rightarrow> rr_data \<Rightarrow> ip_addr option" where
  "a_address ty d =
     (if ty = 1 \<and> length (data_bytes d) = 4 then Some (IpV4 (of_be (data_bytes d))) else None)"

lemma length_4_cases:
  assumes "length xs = 4"
  obtains a b c d where "xs = [a, b, c, d]"
  using assms by (auto simp: numeral_eq_Suc length_Suc_conv)

lemma a_answers_pick:
  "a_answers msg (Suc n) pos =
      (case skip_name msg pos of
         None \<Rightarrow> Some None
       | Some pos \<Rightarrow>
           if length msg < pos + 10 then Some None
           else do {
             rtype \<leftarrow> u16_at msg pos;
             l \<leftarrow> u16_at msg (pos + 8);
             (let rdlen = unat l; pos = pos + 10 in
                if length msg < pos + rdlen then Some None
                else do {
                  hit \<leftarrow> pick_a msg pos rtype rdlen;
                  (case hit of
                     Some v \<Rightarrow> Some (Some v)
                   | None \<Rightarrow> a_answers msg n (pos + rdlen))
                })
           })"
  by (simp add: pick_a_def Let_def u16_at_in split: option.split)

interpretation a_rec: answer_scan parse_dns_a a_answers pick_a a_address
proof
  fix msg p q ty d pos rdlen
  show "pos + rdlen \<le> length msg \<Longrightarrow> pick_a msg pos ty rdlen \<noteq> None"
    by (simp add: pick_a_def)
  assume "data_ok ty d"
  show "pick_a (p @ data_bytes d @ q) (length p) ty (length (data_bytes d)) = Some (a_address ty d)"
  proof (cases "length (data_bytes d) = 4")
    case True
    then obtain a b c e where "data_bytes d = [a, b, c, e]" by (rule length_4_cases)
    then show ?thesis by (simp add: pick_a_def a_address_def idx_def nth_append ipv4_new_def)
  qed (simp add: pick_a_def a_address_def)
qed (simp_all add: parse_dns_a_def a_answers_pick del: a_answers.simps(2))

lemma dns_resolve_total: "dns_resolve st i name \<noteq> None"
  by (auto simp: dns_resolve_def Let_def a_rec.parse_total bind_eq_None_conv iff del: not_None_eq
      split: sum.split dns_outcome.split)

lemma resolve_total: "resolve st i t \<noteq> None"
  using dns_resolve_total by (simp add: resolve_def split: target.split option.split)

lemma handle_connect_total: "handle_connect st i t port s \<noteq> None"
  using resolve_total by (auto simp: handle_connect_def bind_eq_None_conv iff del: not_None_eq)

subsection \<open>The UDP framing\<close>

lemma parse_udp_request_total: "parse_udp_request buf \<noteq> None"
  by (auto simp: parse_udp_request_def Let_def u16_at_in bind_eq_None_conv iff del: not_None_eq
      split: option.split prod.split if_splits)

fun target_bytes :: "target \<Rightarrow> bytes" where
  "target_bytes (TIp (IpV4 a)) = ATYP_V4 # ipv4_octets a"
| "target_bytes (TIp (IpV6 a)) = ATYP_V6 # ipv6_octets a"
| "target_bytes (TDomain n) = ATYP_DOMAIN # word_of_nat (length n) # text_bytes n"

definition target_ok :: "target \<Rightarrow> bool" where
  "target_ok t = (case t of TIp _ \<Rightarrow> True | TDomain n \<Rightarrow> length n < 256 \<and> (\<forall>c \<in> set n. (of_char c :: nat) < 128))"

lemma ascii_name: "\<forall>c \<in> set n. (of_char c :: nat) < 128 \<Longrightarrow> bytes_text (from_utf8_lossy (text_bytes n)) = n"
proof -
  assume a: "\<forall>c \<in> set n. (of_char c :: nat) < 128"
  have "b < 0x80" if b: "b \<in> set (text_bytes n)" for b
  proof -
    obtain c where "c \<in> set n" "b = of_char c" using b by (auto simp: text_bytes_def)
    then show ?thesis using a by (simp add: word_less_nat_alt)
  qed
  then show ?thesis by (simp add: from_utf8_lossy_ascii)
qed

lemma unat_length_byte: "n < 256 \<Longrightarrow> unat (word_of_nat n :: u8) = n"
  by (simp add: unat_of_nat take_bit_nat_eq_self)

lemma atyp_distinct [simp]: "ATYP_V6 \<noteq> ATYP_V4" "ATYP_DOMAIN \<noteq> ATYP_V4" "ATYP_DOMAIN \<noteq> ATYP_V6"
  by (simp_all add: socks_consts)

lemma length_16_slice: "length xs = 16 \<Longrightarrow> slice ([a, b, c, d] @ xs @ r) 4 20 = Some xs"
  using slice_middle [of "[a, b, c, d]" xs r] by simp

lemma u16_at_skip: "length p = n \<Longrightarrow> u16_at ([a, b, c, d] @ p @ be_bytes 2 w @ r) (4 + n) = Some w"
  using u16_at_append [of "[a, b, c, d] @ p"] by simp

lemma slice_tail: "length p = n \<Longrightarrow> slice (p @ r) n (n + length r) = Some r"
  using slice_middle [of p r "[]"] by simp

lemma parse_udp_request_bytes:
  assumes "target_ok t"
  shows "parse_udp_request ([a, b, 0] @ target_bytes t @ be_bytes 2 port @ data) = Some (Some (t, port, data))"
proof (cases t)
  case (TIp ip)
  show ?thesis
  proof (cases ip)
    case (IpV4 w)
    obtain x y z v where o: "ipv4_octets w = [x, y, z, v]"
      by (rule length_4_cases [OF length_ip_octets(1)])
    then have "ipv4_new x y z v = w" unfolding ipv4_new_def by (metis of_be_ip_octets(1))
    then show ?thesis
      by (simp add: parse_udp_request_def TIp IpV4 o idx_def Let_def u16_at_in be_bytes_2 of_be_2 slice_def)
  next
    case (IpV6 w)
    have "u16_at ([a, b, 0, ATYP_V6] @ ipv6_octets w @ be_bytes 2 port @ data) 20 = Some port"
      using u16_at_skip [of "ipv6_octets w" 16] by simp
    moreover have "slice ([a, b, 0, ATYP_V6] @ ipv6_octets w @ be_bytes 2 port @ data) 22 (22 + length data) = Some data"
      using slice_tail [of "[a, b, 0, ATYP_V6] @ ipv6_octets w @ be_bytes 2 port" 22] by simp
    ultimately show ?thesis
      using length_16_slice [of "ipv6_octets w" a b 0 ATYP_V6]
      by (simp add: parse_udp_request_def TIp IpV6 Let_def)
  qed
next
  case (TDomain n)
  then have n: "length n < 256" "bytes_text (from_utf8_lossy (text_bytes n)) = n"
    using assms by (simp_all add: target_ok_def ascii_name)
  let ?l = "word_of_nat (length n) :: u8"
  have l: "unat ?l = length n" using n(1) by (rule unat_length_byte)
  have "u16_at ([a, b, 0, ATYP_DOMAIN] @ (?l # text_bytes n) @ be_bytes 2 port @ data) (4 + Suc (length n)) = Some port"
    by (rule u16_at_skip) simp
  moreover have "slice ([a, b, 0, ATYP_DOMAIN, ?l] @ text_bytes n @ be_bytes 2 port @ data) 5 (5 + length n) = Some (text_bytes n)"
    using slice_middle [of "[a, b, 0, ATYP_DOMAIN, ?l]" "text_bytes n"] by simp
  moreover have "slice ([a, b, 0, ATYP_DOMAIN, ?l] @ text_bytes n @ be_bytes 2 port @ data) (7 + length n) (7 + length n + length data) = Some data"
    using slice_tail [of "[a, b, 0, ATYP_DOMAIN, ?l] @ text_bytes n @ be_bytes 2 port" "7 + length n"] by simp
  ultimately show ?thesis
    using n l by (simp add: parse_udp_request_def TDomain Let_def)
qed

lemma build_udp_reply_bytes:
  "build_udp_reply src data = [0, 0, 0] @ target_bytes (TIp (sa_ip src)) @ be_bytes 2 (sa_port src) @ data"
  by (cases "sa_ip src") (simp_all add: build_udp_reply_def)

lemma parse_build_udp:
  "parse_udp_request (build_udp_reply src data) = Some (Some (TIp (sa_ip src), sa_port src, data))"
  unfolding build_udp_reply_bytes by (rule parse_udp_request_bytes) (simp add: target_ok_def)

subsection \<open>What a client is told\<close>

definition greeting :: "bytes \<Rightarrow> bytes" where
  "greeting methods = [VER, word_of_nat (length methods)] @ methods"

definition request_bytes :: "u8 \<Rightarrow> u8 \<Rightarrow> target \<Rightarrow> u16 \<Rightarrow> bytes" where
  "request_bytes cmd rsv t port = [VER, cmd, rsv] @ target_bytes t @ be_bytes 2 port"

definition code_reply :: "u8 \<Rightarrow> bytes" where
  "code_reply c = [VER, c, 0, ATYP_V4, 0, 0, 0, 0, 0, 0]"

definition bound_reply :: "sock_addr \<Rightarrow> bytes" where
  "bound_reply a = [VER, REP_OK, 0] @ target_bytes (TIp (sa_ip a)) @ be_bytes 2 (sa_port a)"

text \<open>The bytes a well-formed request is answered with, and what comes of it.\<close>

definition serve_request :: "stack \<Rightarrow> sock_addr result \<Rightarrow> u16 \<Rightarrow> u8 \<Rightarrow> target \<Rightarrow> u16 \<Rightarrow> bytes \<times> served result" where
  "serve_request st bound i cmd t port =
     (if cmd = CMD_CONNECT then
        (case the (resolve st i t) of
           Inl e \<Rightarrow> (code_reply REP_GENERAL, Inl e)
         | Inr ip \<Rightarrow>
             (case st_open_tcp st (SockAddr ip port) of
                Inl e \<Rightarrow> (code_reply REP_GENERAL, Inl e)
              | Inr _ \<Rightarrow> (code_reply REP_OK, Inr (Relaying (SockAddr ip port)))))
      else if cmd = CMD_UDP_ASSOCIATE then
        (case bound of
           Inl e \<Rightarrow> ([], Inl e)
         | Inr a \<Rightarrow>
             (bound_reply a, (case st_open_udp st of Inl e \<Rightarrow> Inl e | Inr _ \<Rightarrow> Inr (Associated a))))
      else (code_reply REP_NOT_SUPPORTED, Inl (Other ''unsupported socks command'')))"

lemma read_exact_bytes: "rx s = p @ r \<Longrightarrow> length p = n \<Longrightarrow> read_exact n s = (s\<lparr>rx := r\<rparr>, Inr p)"
  by (auto simp: read_exact_def)

lemma reply_bound_bytes:
  "\<not> broken s \<Longrightarrow> reply_bound a s = (s\<lparr>tx := tx s @ bound_reply a\<rparr>, Inr ())"
  by (cases "sa_ip a") (simp_all add: reply_bound_def write_all_def bound_reply_def)

lemma reply_bytes: "\<not> broken s \<Longrightarrow> reply c s = (s\<lparr>tx := tx s @ code_reply c\<rparr>, Inr ())"
  by (simp add: reply_def write_all_def code_reply_def)

lemma reply_broken:
  "broken s \<Longrightarrow> reply c s = (s, Inl (Io ''broken pipe''))"
  "broken s \<Longrightarrow> reply_bound a s = (s, Inl (Io ''broken pipe''))"
  by (simp_all add: reply_def reply_bound_def write_all_def)

lemma bound_reply_zero: "bound_reply (SockAddr (IpV4 (ipv4_new 0 0 0 0)) 0) = code_reply REP_OK"
  by (simp add: bound_reply_def code_reply_def be_bytes_2)

lemma read_name_bytes:
  assumes "rx s = tl (target_bytes t) @ r" and "target_ok t"
  shows "read_name (hd (target_bytes t)) s = (s\<lparr>rx := r\<rparr>, Inr t)"
proof (cases t)
  case (TIp ip)
  then show ?thesis using assms(1) by (cases ip) (simp_all add: read_name_def read_exact_bytes)
next
  case (TDomain n)
  let ?l = "word_of_nat (length n) :: u8"
  have n: "length n < 256" "bytes_text (from_utf8_lossy (text_bytes n)) = n"
    using assms TDomain by (simp_all add: target_ok_def ascii_name)
  have "rx s = [?l] @ text_bytes n @ r" using assms(1) TDomain by simp
  then have "read_exact 1 s = (s\<lparr>rx := text_bytes n @ r\<rparr>, Inr [?l])" by (rule read_exact_bytes) simp
  then show ?thesis
    using n(2) unat_length_byte [OF n(1)] by (simp add: read_name_def TDomain read_exact_bytes)
qed

lemma target_bytes_cons: "target_bytes t = hd (target_bytes t) # tl (target_bytes t)"
  by (cases t rule: target_bytes.cases) simp_all

lemma read_target_bytes:
  assumes "rx s = tl (target_bytes t) @ be_bytes 2 port @ r" and "target_ok t"
  shows "read_target (hd (target_bytes t)) s = (s\<lparr>rx := r\<rparr>, Inr (t, port))"
  using read_name_bytes [OF assms]
  by (simp add: read_target_def read_exact_bytes of_be_be_bytes)

lemma handshake_bytes:
  assumes "rx s = greeting ms @ r" and "length ms < 256" and "\<not> broken s"
  shows "handshake s = (s\<lparr>rx := r, tx := tx s @ [VER, 0]\<rparr>, Inr ())"
proof -
  have "read_exact 2 s = (s\<lparr>rx := ms @ r\<rparr>, Inr [VER, word_of_nat (length ms)])"
    by (rule read_exact_bytes) (simp_all add: assms greeting_def)
  then show ?thesis
    using assms by (simp add: handshake_def read_exact_bytes unat_length_byte write_all_def)
qed

lemma handle_client_request:
  assumes rx: "rx s = greeting ms @ request_bytes cmd rsv t port @ rest"
    and ok: "target_ok t" "length ms < 256" "\<not> broken s"
  shows "handle_client st bound i s =
    Some (s\<lparr>rx := rest, tx := tx s @ [VER, 0] @ fst (serve_request st bound i cmd t port)\<rparr>,
      snd (serve_request st bound i cmd t port))"
proof -
  let ?s = "s\<lparr>rx := request_bytes cmd rsv t port @ rest, tx := tx s @ [VER, 0]\<rparr>"
  let ?t = "s\<lparr>rx := tl (target_bytes t) @ be_bytes 2 port @ rest, tx := tx s @ [VER, 0]\<rparr>"
  let ?u = "s\<lparr>rx := rest, tx := tx s @ [VER, 0]\<rparr>"
  have rxs: "rx ?s = [VER, cmd, rsv, hd (target_bytes t)] @ tl (target_bytes t) @ be_bytes 2 port @ rest"
    using target_bytes_cons [of t] by (simp add: request_bytes_def)
  then have head: "read_exact 4 ?s = (?t, Inr [VER, cmd, rsv, hd (target_bytes t)])"
    using read_exact_bytes [OF rxs, of 4] by simp
  have tgt: "read_target (hd (target_bytes t)) ?t = (?u, Inr (t, port))"
    using read_target_bytes [of ?t t port rest] ok(1) by simp
  obtain r where r: "resolve st i t = Some r" using resolve_total [of st i t] by auto
  have conn: "handle_connect st i t port ?u = 
      Some (s\<lparr>rx := rest, tx := tx s @ [VER, 0] @ fst (serve_request st bound i CMD_CONNECT t port)\<rparr>,
        snd (serve_request st bound i CMD_CONNECT t port))"
    using ok(3) by (simp add: handle_connect_def r serve_request_def reply_bytes reply_bound_bytes
        bound_reply_zero Let_def split: sum.split)
  have assoc: "handle_udp_associate st bound ?u = 
      (s\<lparr>rx := rest, tx := tx s @ [VER, 0] @ fst (serve_request st bound i CMD_UDP_ASSOCIATE t port)\<rparr>,
        snd (serve_request st bound i CMD_UDP_ASSOCIATE t port))"
    using ok(3) by (simp add: handle_udp_associate_def serve_request_def reply_bound_bytes socks_consts
        split: sum.split)
  show ?thesis
    using handshake_bytes [OF rx ok(2, 3)] ok(3)
    by (simp add: handle_client_def head tgt conn assoc reply_bytes serve_request_def)
qed

subsection \<open>What any client is told\<close>

text \<open>
  What a handler that started with the bytes \<open>t0\<close> written may leave: a relay only after the
  stack connected, with the success reply, and an error with no success reply but for the
  association whose UDP socket could not be opened, which is answered before it is opened.
\<close>

definition told :: "stack \<Rightarrow> sock_addr result \<Rightarrow> bytes \<Rightarrow> sock \<times> served result \<Rightarrow> bool" where
  "told st bound t0 sr =
     (case snd sr of
        Inr (Relaying dst) \<Rightarrow> is_ok (st_open_tcp st dst) \<and> tx (fst sr) = t0 @ [VER, 0] @ code_reply REP_OK
      | Inr (Associated a) \<Rightarrow>
          bound = Inr a \<and> is_ok (st_open_udp st) \<and> tx (fst sr) = t0 @ [VER, 0] @ bound_reply a
      | Inl _ \<Rightarrow>
          tx (fst sr) \<in> {t0, t0 @ [VER, 0], t0 @ [VER, 0] @ code_reply REP_GENERAL,
            t0 @ [VER, 0] @ code_reply REP_NOT_SUPPORTED}
          \<or> (\<exists>a. bound = Inr a \<and> \<not> is_ok (st_open_udp st) \<and> tx (fst sr) = t0 @ [VER, 0] @ bound_reply a))"

text \<open>Reading changes neither what was written nor whether writes fail.\<close>

definition only_read :: "sock \<Rightarrow> sock \<times> 'a result \<Rightarrow> bool" where
  "only_read s r \<longleftrightarrow> tx (fst r) = tx s \<and> broken (fst r) = broken s"

lemma only_read_exact: "only_read s (read_exact n s)"
  by (simp add: only_read_def read_exact_def)

lemma only_read_andthen:
  "only_read s r \<Longrightarrow> (\<And>x s'. only_read s' (k x s')) \<Longrightarrow> only_read s (andthen r k)"
  by (auto simp: only_read_def andthen_def split: prod.split sum.split)

lemma only_read_pure: "only_read s (s, r)"
  by (simp add: only_read_def)

lemma only_read_target: "only_read s (read_target atyp s)"
  unfolding read_target_def read_name_def
  by (auto intro!: only_read_andthen only_read_exact only_read_pure)

lemma handshake_tells:
  assumes "handshake s = (s', r)"
  shows "broken s' = broken s"
    and "tx s' = (case r of Inl _ \<Rightarrow> tx s | Inr _ \<Rightarrow> tx s @ [VER, 0])"
  using assms
  by (auto simp: handshake_def read_exact_def write_all_def andthen_def Let_def split: if_splits sum.splits)

lemma connect_tells:
  "handle_connect st i t port s = Some sr \<Longrightarrow> tx s = t0 @ [VER, 0] \<Longrightarrow> told st bound t0 sr"
  by (cases "broken s")
    (auto simp: handle_connect_def told_def reply_bytes reply_bound_bytes bound_reply_zero Let_def
      reply_broken is_ok_def split: Option.bind_splits sum.splits)

lemma associate_tells:
  "tx s = t0 @ [VER, 0] \<Longrightarrow> told st bound t0 (handle_udp_associate st bound s)"
  by (cases "broken s")
    (auto simp: handle_udp_associate_def told_def reply_bound_bytes reply_broken is_ok_def split: sum.splits)

lemma unsupported_tells:
  "tx s = t0 @ [VER, 0] \<Longrightarrow>
     told st bound t0 (andthen (reply REP_NOT_SUPPORTED s) (\<lambda>_ s. (s, Inl e)))"
  by (cases "broken s") (auto simp: told_def reply_bytes reply_broken)

lemma told_andthen_p:
  assumes "only_read s r" and "tx s = t0 @ [VER, 0]"
    and "\<And>x s'. tx s' = t0 @ [VER, 0] \<Longrightarrow> \<exists>sr. k x s' = Some sr \<and> told st bound t0 sr"
  shows "\<exists>sr. andthen_p r k = Some sr \<and> told st bound t0 sr"
proof (cases r)
  case (Pair s' q)
  then have "tx s' = t0 @ [VER, 0]" using assms(1, 2) by (simp add: only_read_def)
  then show ?thesis using assms(3) Pair by (cases q) (simp_all add: told_def)
qed

lemma handle_client_tells: "\<exists>sr. handle_client st bound i s = Some sr \<and> told st bound (tx s) sr"
proof -
  obtain s1 r1 where h: "handshake s = (s1, r1)" by fastforce
  show ?thesis
  proof (cases r1)
    case (Inl e)
    then show ?thesis using handshake_tells [OF h] by (simp add: handle_client_def h told_def)
  next
    case (Inr u)
    then have tx1: "tx s1 = tx s @ [VER, 0]" using handshake_tells [OF h] by simp
    have err: "told st bound (tx s) (s', Inl e)" if "tx s' = tx s @ [VER, 0]" for s' e
      using that by (simp add: told_def)
    show ?thesis
      unfolding handle_client_def h Inr andthen_p_simps
    proof (rule told_andthen_p [OF only_read_exact tx1])
      fix head :: bytes and s2 :: sock assume tx2: "tx s2 = tx s @ [VER, 0]"
      have "\<exists>sr. andthen_p (read_target (head ! 3) s2) (\<lambda>(target, port) s.
            if head ! 1 = CMD_CONNECT then handle_connect st i target port s
            else if head ! 1 = CMD_UDP_ASSOCIATE then Some (handle_udp_associate st bound s)
            else Some (andthen (reply REP_NOT_SUPPORTED s)
                (\<lambda>_ s. (s, Inl (Other ''unsupported socks command''))))) = Some sr \<and> told st bound (tx s) sr"
      proof (rule told_andthen_p [OF only_read_target tx2])
        fix x :: "target \<times> u16" and s3 :: sock assume tx3: "tx s3 = tx s @ [VER, 0]"
        obtain target port where x: "x = (target, port)" by fastforce
        obtain sr where "handle_connect st i target port s3 = Some sr"
          using handle_connect_total [of st i target port s3] by auto
        then show "\<exists>sr. (case x of (target, port) \<Rightarrow> \<lambda>s.
            if head ! 1 = CMD_CONNECT then handle_connect st i target port s
            else if head ! 1 = CMD_UDP_ASSOCIATE then Some (handle_udp_associate st bound s)
            else Some (andthen (reply REP_NOT_SUPPORTED s)
                (\<lambda>_ s. (s, Inl (Other ''unsupported socks command''))))) s3 = Some sr \<and> told st bound (tx s) sr"
          using connect_tells [of st i target port s3 sr "tx s" bound] associate_tells [OF tx3]
            unsupported_tells [OF tx3] tx3 by (simp add: x del: split_paired_Ex)
      qed
      then show "\<exists>sr. (if head ! 0 \<noteq> VER then Some (s2, Inl (Other ''bad socks version''))
          else let cmd = head ! 1; atyp = head ! 3
               in andthen_p (read_target atyp s2) (\<lambda>(target, port) s.
                    if cmd = CMD_CONNECT then handle_connect st i target port s
                    else if cmd = CMD_UDP_ASSOCIATE then Some (handle_udp_associate st bound s)
                    else Some (andthen (reply REP_NOT_SUPPORTED s)
                      (\<lambda>_ s. (s, Inl (Other ''unsupported socks command'')))))) = Some sr
          \<and> told st bound (tx s) sr"
        using err [OF tx2] by (simp add: Let_def del: split_paired_Ex One_nat_def)
    qed
  qed
qed

subsection \<open>The two loops\<close>

text \<open>The chunks of the stack, and the reads of the client up to its end or a failed send.\<close>

fun stack_chunks :: "relay_event list \<Rightarrow> bytes" where
  "stack_chunks (StackChunk d _ # es) = d @ stack_chunks es"
| "stack_chunks (_ # es) = stack_chunks es"
| "stack_chunks [] = []"

fun client_chunks :: "relay_event list \<Rightarrow> bytes list" where
  "client_chunks (ClientRead (Inr d) True # es) = (if d = [] then [] else take 16384 d # client_chunks es)"
| "client_chunks (ClientRead (Inr d) False # es) = []"
| "client_chunks (ClientRead (Inl e) b # es) = []"
| "client_chunks (_ # es) = client_chunks es"
| "client_chunks [] = []"

lemma relay_run_done:
  "run_loop relay_step es s = Go s' \<Longrightarrow> up_done s \<Longrightarrow>
     up_done s' \<and> up_sent s' = up_sent s \<and> down s' = down s @ stack_chunks es \<and> \<not> shut s' = (\<not> shut s)"
  by (induction es arbitrary: s rule: stack_chunks.induct) (auto split: if_splits)

lemma relay_run:
  "run_loop relay_step es s = Go s' \<Longrightarrow> \<not> up_done s \<Longrightarrow>
     up_sent s' = up_sent s @ client_chunks es \<and> down s' = down s @ stack_chunks es"
proof (induction es arbitrary: s rule: client_chunks.induct)
  case (1 d es)
  then show ?case by (cases "d = []") (auto dest: relay_run_done)
qed (auto split: if_splits dest: relay_run_done)

text \<open>
  The datagrams a client event makes the loop forward, and the invariant of the association
  relative to the events \<open>E\<close> that happened.
\<close>

definition forwards :: "stack \<Rightarrow> udp_event \<Rightarrow> (sock_addr \<times> bytes) list" where
  "forwards st e =
     (case e of
        RelayRecv buf src i \<Rightarrow>
          (case parse_udp_request (take 65535 buf) of
             Some (Some (TIp ip, port, data)) \<Rightarrow> [(SockAddr ip port, data)]
           | Some (Some (TDomain name, port, data)) \<Rightarrow>
               (case dns_resolve st i name of Some (Inr ip) \<Rightarrow> [(SockAddr ip port, data)] | _ \<Rightarrow> [])
           | _ \<Rightarrow> [])
      | _ \<Rightarrow> [])"

definition heard_from :: "udp_event set \<Rightarrow> sock_addr \<Rightarrow> bool" where
  "heard_from E c \<longleftrightarrow> (\<exists>buf i. RelayRecv buf c i \<in> E)"

definition udp_inv :: "udp_event set \<Rightarrow> udp_assoc \<Rightarrow> bool" where
  "udp_inv E s \<longleftrightarrow>
     (\<forall>c. client s = Some c \<longrightarrow> heard_from E c)
     \<and> (\<forall>(pkt, c) \<in> set (to_client s). heard_from E c \<and>
          (\<exists>src data. StackRecv (Some (src, data)) \<in> E \<and> pkt = build_udp_reply src data))"

definition udp_end :: "udp_event set \<Rightarrow> udp_assoc option \<Rightarrow> bool" where
  "udp_end E r = (case r of None \<Rightarrow> False | Some s \<Rightarrow> udp_inv E s)"

interpretation udp: event_loop "udp_step st" "udp_inv E" "udp_end E" "\<lambda>e. e \<in> E" for st E
proof
  fix e s s' r assume e: "e \<in> E" and s: "udp_inv E s"
  have recv: "udp_inv E (s\<lparr>client := Some src, to_stack := q\<rparr>)" "udp_inv E (s\<lparr>client := Some src\<rparr>)"
    if "e = RelayRecv buf src i" for buf src i q
    using that e s by (auto simp: udp_inv_def heard_from_def)
  show "udp_step st e s = Go s' \<Longrightarrow> udp_inv E s'"
  proof (cases e)
    case (RelayRecv buf src i)
    then show "udp_step st e s = Go s' \<Longrightarrow> udp_inv E s'"
      using recv by (auto simp: Let_def split: option.splits sum.splits target.splits)
  next
    case (StackRecv m)
    then show "udp_step st e s = Go s' \<Longrightarrow> udp_inv E s'"
      using e s by (fastforce simp: udp_inv_def split: option.splits)
  qed (use s in \<open>auto split: option.splits if_splits\<close>)
  show "udp_step st e s = Stop r \<Longrightarrow> udp_end E r"
  proof (cases e)
    case (RelayRecv buf src i)
    then show "udp_step st e s = Stop r \<Longrightarrow> udp_end E r"
      by (auto simp: Let_def parse_udp_request_total dns_resolve_total split: option.splits sum.splits target.splits)
  qed (use s in \<open>auto simp: udp_end_def split: option.splits if_splits\<close>)
qed

lemma udp_step_forwards: "udp_step st e s = Go s' \<Longrightarrow> to_stack s' = to_stack s @ forwards st e"
  by (cases e) (auto simp: forwards_def Let_def split: option.splits sum.splits target.splits if_splits)

lemma udp_run_forwards:
  "run_loop (udp_step st) es s = Go s' \<Longrightarrow> to_stack s' = to_stack s @ concat (map (forwards st) es)"
proof (induction es arbitrary: s)
  case (Cons e es)
  then show ?case using udp_step_forwards [of st e s] by (auto split: ctl.splits)
qed simp

subsection \<open>The query\<close>

lemma socks_query_eq:
  "[] \<notin> set (split_on (CHR ''.'') name) \<Longrightarrow> build_dns_query i name qt = build_query i name qt"
proof -
  assume ne: "[] \<notin> set (split_on (CHR ''.'') name)"
  have "(\<lambda>l. word_of_nat (length l) # text_bytes l) l = (if l = [] then [] else label_bytes (text_bytes l))"
    if "l \<in> set (split_on (CHR ''.'') name)" for l
    using that ne by (auto simp: label_bytes_def)
  then have "map (\<lambda>l. word_of_nat (length l) # text_bytes l) (split_on (CHR ''.'') name) =
      map (\<lambda>l. if l = [] then [] else label_bytes (text_bytes l)) (split_on (CHR ''.'') name)"
    by (intro map_cong refl) blast
  then show ?thesis unfolding build_dns_query_def build_query_def by metis
qed

subsection \<open>Properties\<close>

text \<open>C16. A SOCKS client that sends a well-formed greeting and request is served as the protocol
  says: the answers are exactly the method selection and the reply for the request (success only
  when the stack connected, general failure when the name did not resolve or the connection
  failed, not supported for other commands), the target is the one asked for, and the bytes
  after the request are left for the relay.\<close>

theorem handle_client_serves:
  assumes "rx s = greeting ms @ request_bytes cmd rsv t port @ rest"
    and "target_ok t" and "length ms < 256" and "\<not> broken s"
  shows "handle_client st bound i s =
    Some (s\<lparr>rx := rest, tx := tx s @ [VER, 0] @ fst (serve_request st bound i cmd t port)\<rparr>,
      snd (serve_request st bound i cmd t port))"
  using assms by (rule handle_client_request)

definition sample_stack :: stack where
  "sample_stack = \<lparr>st_open_tcp = (\<lambda>_. Inr ()), st_open_udp = Inr (), st_udp_send = (\<lambda>_ _. Inr ()),
     st_dns_recv = (\<lambda>_. NoAnswer)\<rparr>"

theorem handle_client_serves_witness:
  "handle_client sample_stack (Inl (Io ''in use'')) 9
     \<lparr>rx = [5, 1, 0, 5, 1, 0, 1, 10, 0, 0, 1, 0, 80, 71, 69], tx = [], broken = False\<rparr> =
   Some (\<lparr>rx = [71, 69], tx = [5, 0, 5, 0, 0, 1, 0, 0, 0, 0, 0, 0], broken = False\<rparr>,
     Inr (Relaying (SockAddr (IpV4 (ipv4_new 10 0 0 1)) 80)))"
  using handle_client_serves [of
      "\<lparr>rx = [5, 1, 0, 5, 1, 0, 1, 10, 0, 0, 1, 0, 80, 71, 69], tx = [], broken = False\<rparr>"
      "[0]" 1 0 "TIp (IpV4 (ipv4_new 10 0 0 1))" 80 "[71, 69]" sample_stack "Inl (Io ''in use'')" 9]
  by (simp add: greeting_def request_bytes_def target_ok_def be_bytes_2 socks_consts serve_request_def
      resolve_def sample_stack_def code_reply_def)

text \<open>C5. Whatever a client sends, and wherever it stops, its handler does not panic; the client
  is told of success only after the stack opened the connection it asked for, or after the
  relay socket was bound. The one success reply that an error can follow is the answer to an
  association whose UDP socket the stack then refuses.\<close>

theorem handle_client_safe:
  "\<exists>sr. handle_client st bound i s = Some sr \<and> told st bound (tx s) sr"
  by (rule handle_client_tells)

text \<open>The relay of a CONNECT loses, repeats and reorders nothing: as long as it runs, the
  client has been written the chunks of the stack in order, and the stack has been sent the
  reads of the client in order, up to the end of the client's stream or the first failed send.\<close>

theorem relay_in_order:
  assumes "run_relay es = Go s"
  shows "down s = stack_chunks es \<and> up_sent s = client_chunks es"
  using relay_run [of es relay_start s] assms by (simp add: run_relay_def relay_start_def)

theorem relay_in_order_witness:
  "run_relay [ClientRead (Inr [1, 2]) True, StackChunk [7] True, ClientRead (Inr [3]) True,
     ClientRead (Inr []) True, StackChunk [8] True, ClientRead (Inr [4]) True] =
   Go \<lparr>up_done = True, up_sent = [[1, 2], [3]], up_closed = True, down = [7, 8], shut = False\<rparr>"
  (is "run_relay ?es = Go ?s")
proof -
  have "run_relay ?es = Go ?s" by (simp add: run_relay_def relay_start_def)
  moreover from relay_in_order [OF this] have "down ?s = stack_chunks ?es" by blast
  ultimately show ?thesis by simp
qed

text \<open>The UDP framing of SOCKS round-trips and never panics: every request for a supported
  address parses to its target, port and payload, whatever the reserved bytes, and the datagram
  built for a reply parses back to the source and the data it was built from.\<close>

theorem udp_framing_roundtrip:
  "parse_udp_request buf \<noteq> None
   \<and> (target_ok t \<longrightarrow>
        parse_udp_request ([a, b, 0] @ target_bytes t @ be_bytes 2 port @ data) = Some (Some (t, port, data)))
   \<and> parse_udp_request (build_udp_reply src data) = Some (Some (TIp (sa_ip src), sa_port src, data))"
  using parse_udp_request_total parse_udp_request_bytes parse_build_udp by blast

theorem udp_framing_roundtrip_witness:
  "target_ok (TDomain ''example.org'')
   \<and> parse_udp_request ([9, 9, 0] @ target_bytes (TDomain ''example.org'') @ be_bytes 2 (53 :: u16) @ [1, 2]) =
       Some (Some (TDomain ''example.org'', 53, [1, 2]))"
proof -
  have t: "target_ok (TDomain ''example.org'')" by (simp add: target_ok_def)
  show ?thesis
    by (rule conjI [OF t udp_framing_roundtrip [THEN conjunct2, THEN conjunct1, THEN mp, OF t]])
qed


text \<open>The A-record parser returns the address of the first A record of an answer, for every
  well-formed message, and nothing when the answer has none.\<close>

theorem parse_dns_a_message:
  assumes "message_ok qs rrs (dns_message i flags qs rrs ns ar tail)"
  shows "parse_dns_a (dns_message i flags qs rrs ns ar tail) =
    Some (first_some (\<lambda>r. a_address (rtype r) (rdata r)) rrs)"
  using assms by (rule a_rec.parse_message)

definition sample_a :: "rr list" where
  "sample_a =
     [\<lparr>rname = ([], Pointer 0 12), rtype = 5, rclass = 1, rttl = 300, rdata = Raw [0xC0, 12]\<rparr>,
      \<lparr>rname = ([[97]], Root), rtype = 1, rclass = 1, rttl = 300, rdata = Raw [93, 184, 216, 34]\<rparr>]"

theorem parse_dns_a_message_witness:
  "parse_dns_a (dns_message 7 0x8180 [\<lparr>q_name = ([[97]], Root), q_type = 1, q_class = 1\<rparr>] sample_a 0 0 []) =
     Some (Some (IpV4 (ipv4_new 93 184 216 34)))"
proof -
  have "message_ok [\<lparr>q_name = ([[97]], Root), q_type = 1, q_class = 1\<rparr>] sample_a
      (dns_message 7 0x8180 [\<lparr>q_name = ([[97]], Root), q_type = 1, q_class = 1\<rparr>] sample_a 0 0 [])"
    by (simp add: message_ok_def sample_a_def rr_ok_def name_ok_def dns_message_def
        question_bytes_def rr_bytes_def name_bytes_def label_bytes_def)
  from parse_dns_a_message [OF this] show ?thesis
    by (simp add: sample_a_def a_address_def ipv4_new_def)
qed

text \<open>
  \<open>socks_query_eq\<close>: for a name without empty labels the query is that of the ECH bootstrap.
  The query of a name with a trailing dot, which the DNS reads as the same name, is malformed:
  the empty label after the dot ends the name, so that the terminating zero is read as the
  first byte of the query type and a byte is left over. \<open>build_query\<close> skips empty labels.
\<close>

lemma socks_query_trailing_dot:
  "drop 12 (build_dns_query i ''a.'' 1) = [1, 97, 0, 0, 0, 1, 0, 1]"
  "drop 12 (build_query i ''a.'' 1) = [1, 97, 0, 0, 1, 0, 1]"
  by (simp_all add: build_dns_query_def build_query_def label_bytes_def text_bytes_def be_bytes_2 of_char_def)

end
