(* ===== verification/Rng.thy ===== *)
theory Rng
  imports Prelude "HOL-Library.State_Monad"
begin

section \<open>Random draws\<close>

text \<open>
  The rand crate is not part of the repository. A random generator is an arbitrary sequence of
  numbers \<open>g\<close>, and a computation that draws from it is a state monad over the number of
  draws taken. \<open>gen_range\<close> over a non-empty range can return any value of the range and only
  those; every call in the code is on a range it has checked, or that is a constant, not to be
  empty (the crate panics on an empty one). What holds for every \<open>g\<close> holds for every outcome
  of the generator.
\<close>

type_synonym rng = "nat \<Rightarrow> nat"
type_synonym 'a rand = "(nat, 'a) state"

definition in_range :: "nat \<Rightarrow> nat \<Rightarrow> nat \<Rightarrow> nat" where
  "in_range lo hi r = lo + r mod (Suc hi - lo)"

definition gen_range :: "rng \<Rightarrow> nat \<Rightarrow> nat \<Rightarrow> nat rand" where
  "gen_range g lo hi = State (\<lambda>k. (in_range lo hi (g k), Suc k))"

definition fill_bytes :: "rng \<Rightarrow> nat \<Rightarrow> bytes rand" where
  "fill_bytes g n = State (\<lambda>k. (map (\<lambda>i. word_of_nat (g (k + i))) [0..<n], k + n))"

lemma in_range_bounds: "lo \<le> hi \<Longrightarrow> lo \<le> in_range lo hi r \<and> in_range lo hi r \<le> hi"
proof -
  assume "lo \<le> hi"
  then have "r mod (Suc hi - lo) < Suc hi - lo" by (intro mod_less_divisor) simp
  then show ?thesis by (simp add: in_range_def)
qed

lemma in_range_onto: "lo \<le> v \<Longrightarrow> v \<le> hi \<Longrightarrow> \<exists>r. in_range lo hi r = v"
  by (rule exI [of _ "v - lo"]) (simp add: in_range_def)

lemma run_gen_range [simp]: "run_state (gen_range g lo hi) k = (in_range lo hi (g k), Suc k)"
  by (simp add: gen_range_def)

lemma run_fill_bytes [simp]:
  "run_state (fill_bytes g n) k = (map (\<lambda>i. word_of_nat (g (k + i))) [0..<n], k + n)"
  by (simp add: fill_bytes_def)

text \<open>The value a computation draws, starting after \<open>k\<close> draws.\<close>

definition drawn :: "'a rand \<Rightarrow> nat \<Rightarrow> 'a" where
  "drawn m k = fst (run_state m k)"

definition after :: "'a rand \<Rightarrow> nat \<Rightarrow> nat" where
  "after m k = snd (run_state m k)"

lemma drawn_simps [simp]:
  "drawn (State_Monad.return x) k = x" "after (State_Monad.return x) k = k"
  "drawn (State_Monad.bind m f) k = drawn (f (drawn m k)) (after m k)"
  "after (State_Monad.bind m f) k = after (f (drawn m k)) (after m k)"
  by (simp_all add: drawn_def after_def State_Monad.return_def State_Monad.bind_def split: prod.split)

lemma drawn_prims [simp]:
  "drawn (gen_range g lo hi) k = in_range lo hi (g k)"
  "length (drawn (fill_bytes g n) k) = n"
  by (simp_all add: drawn_def)

text \<open>A loop that collects what each turn yields.\<close>

fun repeat_rand :: "nat \<Rightarrow> (nat \<Rightarrow> 'a list rand) \<Rightarrow> 'a list rand" where
  "repeat_rand 0 f = State_Monad.return []"
| "repeat_rand (Suc n) f = do { xs \<leftarrow> f 0; ys \<leftarrow> repeat_rand n (\<lambda>i. f (Suc i)); State_Monad.return (xs @ ys) }"

lemma repeat_rand_all:
  "(\<And>i k. P (drawn (f i) k)) \<Longrightarrow> P [] \<Longrightarrow> (\<And>xs ys. P xs \<Longrightarrow> P ys \<Longrightarrow> P (xs @ ys)) \<Longrightarrow>
     P (drawn (repeat_rand n f) k)"
  by (induction n arbitrary: f k) simp_all

end
