(* ===== verification/Fragment.thy ===== *)
theory Fragment
  imports Rng Rust_Str
begin

section \<open>The fragmenting stream under the HTTP/2 tunnel (fragment.rs)\<close>

text \<open>
  \<open>FragmentConfig\<close> with its reading from the environment, and \<open>FragmentingStream\<close>, which cuts
  the first flight of a TLS connection into small writes with pauses between them, up to the
  first read. The stream below it is a parameter: its state and its \<open>poll_write\<close>. What a byte
  sink promises is the locale \<open>byte_sink\<close>: a write takes a prefix of the buffer or nothing.
  The theory shows that the fragmenting stream over a byte sink is a byte sink again.
\<close>

type_synonym env = "str \<Rightarrow> str option"

record fragment_config =
  enabled :: bool
  size_min :: nat
  size_max :: nat
  delay_min_ms :: nat
  delay_max_ms :: nat

definition fragment_disabled :: fragment_config where
  "fragment_disabled =
     \<lparr>enabled = False, size_min = 1, size_max = 1, delay_min_ms = 0, delay_max_ms = 0\<rparr>"

definition is_truthy :: "str \<Rightarrow> bool" where
  "is_truthy v \<longleftrightarrow> to_lowercase (trim v) \<in> {''1'', ''true'', ''yes'', ''on''}"

definition or_else :: "'a option \<Rightarrow> 'a \<Rightarrow> 'a" where
  "or_else v d = (case v of Some x \<Rightarrow> x | None \<Rightarrow> d)"

lemma or_else_simps [simp]: "or_else None d = d" "or_else (Some x) d = x"
  by (simp_all add: or_else_def)

definition parse_range :: "str \<Rightarrow> nat \<times> nat \<Rightarrow> nat \<times> nat" where
  "parse_range spec dflt =
     (let spec = trim spec in
      if spec = [] then dflt
      else
        (case split_once (CHR ''-'') spec of
           Some (a, b) \<Rightarrow>
             (let lo = or_else (parse_uint 64 (trim a)) (fst dflt);
                  hi = or_else (parse_uint 64 (trim b)) (snd dflt)
              in if hi < lo then (hi, lo) else (lo, hi))
         | None \<Rightarrow> (let v = or_else (parse_uint 64 spec) (fst dflt) in (v, v))))"

definition fragment_from_env :: "env \<Rightarrow> fragment_config" where
  "fragment_from_env env =
     (let en = (case env ''AETHER_MASQUE_H2_FRAGMENT'' of Some v \<Rightarrow> is_truthy v | None \<Rightarrow> False);
          (smin, smax) = parse_range (or_else (env ''AETHER_MASQUE_H2_FRAGMENT_SIZE'') []) (16, 32);
          (dmin, dmax) = parse_range (or_else (env ''AETHER_MASQUE_H2_FRAGMENT_DELAY'') []) (2, 10);
          smin = max smin 1;
          smax = max smax smin
      in \<lparr>enabled = en, size_min = smin, size_max = smax, delay_min_ms = dmin, delay_max_ms = max dmax dmin\<rparr>)"

text \<open>The draws of one call are the raw numbers \<open>r\<close>, as in \<open>in_range\<close>.\<close>

definition pick_chunk_len :: "fragment_config \<Rightarrow> nat \<Rightarrow> nat \<Rightarrow> nat" where
  "pick_chunk_len cfg remaining r =
     (let hi = min (max (size_max cfg) 1) remaining;
          lo = min (max (size_min cfg) 1) hi
      in if hi \<le> lo then hi else in_range lo hi r)"

definition pick_delay :: "fragment_config \<Rightarrow> nat \<Rightarrow> nat" where
  "pick_delay cfg r =
     (if delay_max_ms cfg = 0 then 0
      else if delay_max_ms cfg \<le> delay_min_ms cfg then delay_min_ms cfg
      else in_range (delay_min_ms cfg) (delay_max_ms cfg) r)"

subsection \<open>The stream\<close>

datatype poll = Pending | Ready "str + nat"

record 'i fragmenting_stream =
  inner :: 'i
  cfg :: fragment_config
  fragmenting :: bool
  pending_delay :: "nat option"

definition fragmenting_stream_new :: "'i \<Rightarrow> fragment_config \<Rightarrow> 'i fragmenting_stream" where
  "fragmenting_stream_new i c = \<lparr>inner = i, cfg = c, fragmenting = enabled c, pending_delay = None\<rparr>"

definition frag_poll_read :: "('i \<Rightarrow> 'i \<times> 'r) \<Rightarrow> 'i fragmenting_stream \<Rightarrow> 'i fragmenting_stream \<times> 'r" where
  "frag_poll_read inner_read s =
     (let s = s\<lparr>fragmenting := False\<rparr>; (i, r) = inner_read (inner s) in (s\<lparr>inner := i\<rparr>, r))"

text \<open>
  One poll of a write. Beside the buffer it depends on whether a pending sleep is over
  (\<open>woken\<close>) and on the two draws.
\<close>

definition poll_inner :: "(bytes \<Rightarrow> 'i \<Rightarrow> 'i \<times> poll) \<Rightarrow> bytes \<Rightarrow> 'i fragmenting_stream \<Rightarrow> 'i fragmenting_stream \<times> poll" where
  "poll_inner inner_write buf s = (let (i, p) = inner_write buf (inner s) in (s\<lparr>inner := i\<rparr>, p))"

definition frag_poll_write ::
  "(bytes \<Rightarrow> 'i \<Rightarrow> 'i \<times> poll) \<Rightarrow> bool \<Rightarrow> nat \<Rightarrow> nat \<Rightarrow> bytes \<Rightarrow> 'i fragmenting_stream \<Rightarrow> 'i fragmenting_stream \<times> poll" where
  "frag_poll_write inner_write woken r1 r2 buf s =
     (if buf = [] \<or> \<not> fragmenting s then poll_inner inner_write buf s
      else if pending_delay s \<noteq> None \<and> \<not> woken then (s, Pending)
      else
        (let s = s\<lparr>pending_delay := None\<rparr>;
             chunk_len = pick_chunk_len (cfg s) (length buf) r1
         in case poll_inner inner_write (take chunk_len buf) s of
              (s, Ready (Inr n)) \<Rightarrow>
                (let delay = pick_delay (cfg s) r2;
                     s = (if 0 < n \<and> delay \<noteq> 0 then s\<lparr>pending_delay := Some delay\<rparr> else s)
                 in (s, Ready (Inr n)))
            | (s, other) \<Rightarrow> (s, other)))"

subsection \<open>Sizes and pauses\<close>

lemma pick_between:
  "lo \<le> hi \<Longrightarrow> lo \<le> (if hi \<le> lo then hi else in_range lo hi r) \<and> (if hi \<le> lo then hi else in_range lo hi r) \<le> hi"
  using in_range_bounds [of lo hi r] by auto

lemma pick_chunk_len_bounds:
  assumes "0 < remaining"
  shows "1 \<le> pick_chunk_len c remaining r" and "pick_chunk_len c remaining r \<le> remaining"
    and "pick_chunk_len c remaining r \<le> max (size_max c) 1"
    and "min (max (size_min c) 1) (min (max (size_max c) 1) remaining) \<le> pick_chunk_len c remaining r"
proof -
  let ?hi = "min (max (size_max c) 1) remaining" and ?lo = "min (max (size_min c) 1) (min (max (size_max c) 1) remaining)"
  have "?lo \<le> pick_chunk_len c remaining r \<and> pick_chunk_len c remaining r \<le> ?hi"
    unfolding pick_chunk_len_def Let_def by (rule pick_between) (rule min.cobounded2)
  moreover have "1 \<le> ?lo" using assms by simp
  ultimately show "1 \<le> pick_chunk_len c remaining r" "pick_chunk_len c remaining r \<le> remaining"
    "pick_chunk_len c remaining r \<le> max (size_max c) 1" "?lo \<le> pick_chunk_len c remaining r"
    by linarith+
qed

lemma pick_delay_bounds:
  "delay_min_ms c \<le> delay_max_ms c \<Longrightarrow> delay_min_ms c \<le> pick_delay c r \<and> pick_delay c r \<le> delay_max_ms c"
  using in_range_bounds [of "delay_min_ms c" "delay_max_ms c" r] by (auto simp: pick_delay_def)

lemma parse_range_ordered: "fst d \<le> snd d \<Longrightarrow> fst (parse_range s d) \<le> snd (parse_range s d)"
  by (auto simp: parse_range_def Let_def split: option.split)

subsection \<open>Byte sinks\<close>

text \<open>
  A byte sink has accepted the bytes \<open>out\<close>. A write that is ready with \<open>n\<close> took the first
  \<open>n\<close> bytes of the buffer; one that is pending or failed took none. This is what the
  documentation of \<open>AsyncWrite\<close> promises.
\<close>

locale byte_sink =
  fixes wr :: "bytes \<Rightarrow> 's \<Rightarrow> 's \<times> poll"
    and out :: "'s \<Rightarrow> bytes"
  assumes write_some: "wr buf s = (s', Ready (Inr n)) \<Longrightarrow> n \<le> length buf \<and> out s' = out s @ take n buf"
    and write_none: "wr buf s = (s', p) \<Longrightarrow> \<not> (\<exists>n. p = Ready (Inr n)) \<Longrightarrow> out s' = out s"
begin

lemma poll_inner_some:
  "poll_inner wr buf s = (s', Ready (Inr n)) \<Longrightarrow>
     n \<le> length buf \<and> out (inner s') = out (inner s) @ take n buf \<and> s' = s\<lparr>inner := inner s'\<rparr>"
  by (auto simp: poll_inner_def dest: write_some split: prod.splits)

lemma poll_inner_none:
  "poll_inner wr buf s = (s', p) \<Longrightarrow> \<not> (\<exists>n. p = Ready (Inr n)) \<Longrightarrow>
     out (inner s') = out (inner s) \<and> s' = s\<lparr>inner := inner s'\<rparr>"
  by (auto simp: poll_inner_def dest: write_none split: prod.splits)

lemma frag_write_some:
  assumes "frag_poll_write wr woken r1 r2 buf s = (s', Ready (Inr n))"
  shows "n \<le> length buf \<and> out (inner s') = out (inner s) @ take n buf"
proof (cases "buf = [] \<or> \<not> fragmenting s")
  case True
  then show ?thesis using assms poll_inner_some by (auto simp: frag_poll_write_def)
next
  case False
  let ?c = "take (pick_chunk_len (cfg s) (length buf) r1) buf"
  obtain t p where t: "poll_inner wr ?c (s\<lparr>pending_delay := None\<rparr>) = (t, p)" by fastforce
  then have "p = Ready (Inr n)" "inner s' = inner t"
    using assms False by (auto simp: frag_poll_write_def Let_def split: poll.splits sum.splits if_splits)
  moreover from this have "n \<le> length ?c" "out (inner t) = out (inner s) @ take n ?c"
    using poll_inner_some [of ?c "s\<lparr>pending_delay := None\<rparr>" t n] t by auto
  ultimately show ?thesis by (auto simp: min_def split: if_splits)
qed

lemma frag_write_none:
  assumes "frag_poll_write wr woken r1 r2 buf s = (s', p)" and "\<not> (\<exists>n. p = Ready (Inr n))"
  shows "out (inner s') = out (inner s)"
proof (cases "buf = [] \<or> \<not> fragmenting s")
  case True
  then show ?thesis using assms poll_inner_none by (auto simp: frag_poll_write_def)
next
  case False
  let ?c = "take (pick_chunk_len (cfg s) (length buf) r1) buf"
  obtain t q where t: "poll_inner wr ?c (s\<lparr>pending_delay := None\<rparr>) = (t, q)" by fastforce
  show ?thesis
  proof (cases "pending_delay s \<noteq> None \<and> \<not> woken")
    case True
    then show ?thesis using assms False by (simp add: frag_poll_write_def)
  next
    case awake: False
    then have "q = p" "s' = t"
      using assms False t
      by (auto simp: frag_poll_write_def Let_def split: poll.splits sum.splits)
    then show ?thesis using poll_inner_none [OF t] assms(2) by simp
  qed
qed

end

text \<open>A sink that a fragmenting stream writes to; the stream is a sink in turn.\<close>

locale fragmented_sink = byte_sink
begin

lemma frag_sink: "byte_sink (frag_poll_write wr woken r1 r2) (\<lambda>s. out (inner s))"
  by unfold_locales (use frag_write_some frag_write_none in blast)+

end

sublocale fragmented_sink \<subseteq> frag: byte_sink "frag_poll_write wr woken r1 r2" "\<lambda>s. out (inner s)" for woken r1 r2
  by (rule frag_sink)

text \<open>
  A socket with a send buffer: a write takes as much as there is room for, waits when there is
  none and fails once the peer is gone.
\<close>

record tcp_sink =
  sent :: bytes
  room :: nat
  gone :: bool

definition tcp_write :: "bytes \<Rightarrow> tcp_sink \<Rightarrow> tcp_sink \<times> poll" where
  "tcp_write buf s =
     (if gone s then (s, Ready (Inl ''broken pipe''))
      else if room s = 0 then (s, Pending)
      else
        (let n = min (room s) (length buf)
         in (s\<lparr>sent := sent s @ take n buf, room := room s - n\<rparr>, Ready (Inr n))))"

interpretation tcp: fragmented_sink tcp_write sent
  by unfold_locales (auto simp: tcp_write_def Let_def split: if_splits)

subsection \<open>Writing everything\<close>

text \<open>
  \<open>write_all\<close> of the runtime over a fragmenting stream: it polls again after every wake-up and
  gives up with an error of the stream or a write of nothing. \<open>ws\<close> are the wake-ups: whether
  the pending sleep is over, the draws of the poll, and what happened to the stream below
  meanwhile.
\<close>

fun write_all :: "(bytes \<Rightarrow> 'i \<Rightarrow> 'i \<times> poll) \<Rightarrow> (bool \<times> nat \<times> nat \<times> ('i \<Rightarrow> 'i)) list \<Rightarrow> bytes
    \<Rightarrow> 'i fragmenting_stream \<Rightarrow> 'i fragmenting_stream \<times> bytes \<times> str option" where
  "write_all w [] buf s = (s, buf, None)"
| "write_all w ((woken, r1, r2, meanwhile) # ws) buf s =
     (if buf = [] then (s, buf, None)
      else
        (let s = s\<lparr>inner := meanwhile (inner s)\<rparr>
         in case frag_poll_write w woken r1 r2 buf s of
              (s, Pending) \<Rightarrow> write_all w ws buf s
            | (s, Ready (Inl e)) \<Rightarrow> (s, buf, Some e)
            | (s, Ready (Inr n)) \<Rightarrow>
                (if n = 0 then (s, buf, Some ''write zero'') else write_all w ws (drop n buf) s)))"

context byte_sink
begin

lemma write_all_split:
  assumes "\<forall>(woken, r1, r2, m) \<in> set ws. \<forall>i. out (m i) = out i"
    and "write_all wr ws buf s = (s', left, e)"
  shows "\<exists>done. buf = done @ left \<and> out (inner s') = out (inner s) @ done"
  using assms
proof (induction ws arbitrary: buf s)
  case Nil
  then show ?case by simp
next
  case (Cons w ws)
  obtain woken r1 r2 m where w: "w = (woken, r1, r2, m)" by (cases w)
  let ?s = "s\<lparr>inner := m (inner s)\<rparr>"
  obtain t p where t: "frag_poll_write wr woken r1 r2 buf ?s = (t, p)" by fastforce
  have m: "out (m (inner s)) = out (inner s)" using Cons.prems(1) w by auto
  have ih: "\<And>buf s. write_all wr ws buf s = (s', left, e) \<Longrightarrow>
      \<exists>done. buf = done @ left \<and> out (inner s') = out (inner s) @ done"
    using Cons.IH Cons.prems(1) by simp
  show ?case
  proof (cases "\<exists>n. p = Ready (Inr n)")
    case True
    then obtain n where p: "p = Ready (Inr n)" by blast
    have n: "n \<le> length buf" "out (inner t) = out (inner s) @ take n buf"
      using frag_write_some [OF t [unfolded p]] m by auto
    show ?thesis
    proof (cases "buf = [] \<or> n = 0")
      case True
      then show ?thesis using Cons.prems(2) w t p n by (auto simp: Let_def split: if_splits)
    next
      case False
      then have "write_all wr ws (drop n buf) t = (s', left, e)"
        using Cons.prems(2) w t p by (simp add: Let_def)
      then obtain d where "drop n buf = d @ left" "out (inner s') = out (inner t) @ d" using ih by blast
      then have "buf = (take n buf @ d) @ left \<and> out (inner s') = out (inner s) @ take n buf @ d"
        using n(2) by (metis append.assoc append_take_drop_id)
      then show ?thesis by blast
    qed
  next
    case False
    then have "out (inner t) = out (inner s)" using frag_write_none [OF t] m by simp
    then show ?thesis
      using False Cons.prems(2) w t ih [of buf t]
      by (cases p) (auto simp: Let_def split: if_splits sum.splits)
  qed
qed

end

subsection \<open>Properties\<close>

lemma parse_range_bound:
  "fst d < 2 ^ 64 \<Longrightarrow> snd d < 2 ^ 64 \<Longrightarrow> fst (parse_range s d) < 2 ^ 64 \<and> snd (parse_range s d) < 2 ^ 64"
  by (auto simp: parse_range_def Let_def or_else_def dest: parse_uint_bound split: option.split)

text \<open>Whatever the environment holds, the fragment configuration is usable: at least one byte
  per fragment, both ranges in order, every number within 64 bits; without settings it is off,
  with fragments of 16 to 32 bytes and pauses of 2 to 10 ms.\<close>

theorem fragment_config_usable:
  "(let c = fragment_from_env env in
     1 \<le> size_min c \<and> size_min c \<le> size_max c \<and> size_max c < 2 ^ 64
     \<and> delay_min_ms c \<le> delay_max_ms c \<and> delay_max_ms c < 2 ^ 64)
   \<and> fragment_from_env (\<lambda>_. None) =
       \<lparr>enabled = False, size_min = 16, size_max = 32, delay_min_ms = 2, delay_max_ms = 10\<rparr>"
proof -
  have t: "trim [] = []" by (simp add: trim_def trim_start_def trim_end_def)
  obtain a b where ab: "parse_range (or_else (env ''AETHER_MASQUE_H2_FRAGMENT_SIZE'') []) (16, 32) = (a, b)"
    by fastforce
  obtain c d where cd: "parse_range (or_else (env ''AETHER_MASQUE_H2_FRAGMENT_DELAY'') []) (2, 10) = (c, d)"
    by fastforce
  have "a < 2 ^ 64" "b < 2 ^ 64"
    using parse_range_bound [of "(16, 32)" "or_else (env ''AETHER_MASQUE_H2_FRAGMENT_SIZE'') []"] ab by simp_all
  moreover have "c \<le> d" "d < 2 ^ 64"
    using parse_range_bound [of "(2, 10)" "or_else (env ''AETHER_MASQUE_H2_FRAGMENT_DELAY'') []"]
      parse_range_ordered [of "(2, 10)" "or_else (env ''AETHER_MASQUE_H2_FRAGMENT_DELAY'') []"] cd by simp_all
  ultimately show ?thesis
    using ab cd by (simp add: fragment_from_env_def Let_def parse_range_def t)
qed

text \<open>C9. Fragmenting loses, repeats and reorders nothing: over any byte sink, whatever the
  wake-ups, the draws and the moments the sink is not ready, a \<open>write_all\<close> has passed on a
  prefix of its buffer and still holds the rest.\<close>

theorem fragment_write_all:
  assumes "byte_sink w out"
    and "\<forall>(woken, r1, r2, m) \<in> set ws. \<forall>i. out (m i) = out i"
    and "write_all w ws buf s = (s', left, e)"
  shows "\<exists>done. buf = done @ left \<and> out (inner s') = out (inner s) @ done"
  using byte_sink.write_all_split [OF assms] .

definition sample_frag :: fragment_config where
  "sample_frag = \<lparr>enabled = True, size_min = 2, size_max = 3, delay_min_ms = 5, delay_max_ms = 5\<rparr>"

theorem fragment_write_all_witness:
  "\<exists>done. [1, 2, 3, 4, 5] = done @ [4, 5] \<and> [9, 1, 2, 3] = [9] @ done"
proof -
  let ?s = "fragmenting_stream_new \<lparr>sent = [9], room = 10, gone = False\<rparr> sample_frag"
  have "write_all tcp_write [(False, 1, 0, id), (False, 0, 0, id)] [1, 2, 3, 4, 5] ?s =
      (\<lparr>inner = \<lparr>sent = [9, 1, 2, 3], room = 7, gone = False\<rparr>, cfg = sample_frag, fragmenting = True,
         pending_delay = Some 5\<rparr>, [4, 5], None)"
    by (simp add: fragmenting_stream_new_def sample_frag_def frag_poll_write_def poll_inner_def
        tcp_write_def pick_chunk_len_def pick_delay_def in_range_def Let_def)
  from fragment_write_all [OF tcp.byte_sink_axioms _ this] show ?thesis
    by (simp add: fragmenting_stream_new_def)
qed

definition progressed :: "poll \<Rightarrow> bool" where
  "progressed p = (case p of Ready (Inr m) \<Rightarrow> 0 < m | _ \<Rightarrow> False)"

text \<open>C19. While it fragments, the stream either waits for its pause, without touching the stream
  below, or writes to it once, a chunk within the configured sizes; a write that made progress
  sets a pause within the configured delays, and never skips it when the shortest delay is
  positive.\<close>

theorem fragment_pacing:
  assumes "fragmenting s" and "buf \<noteq> []" and "1 \<le> size_min (cfg s)" and "size_min (cfg s) \<le> size_max (cfg s)"
    and "delay_min_ms (cfg s) \<le> delay_max_ms (cfg s)"
  shows "if pending_delay s \<noteq> None \<and> \<not> woken then frag_poll_write w woken r1 r2 buf s = (s, Pending)
    else \<exists>n i p s'. min (size_min (cfg s)) (length buf) \<le> n \<and> n \<le> size_max (cfg s)
      \<and> w (take n buf) (inner s) = (i, p)
      \<and> frag_poll_write w woken r1 r2 buf s = (s', p) \<and> inner s' = i \<and> fragmenting s'
      \<and> (case pending_delay s' of
           Some d \<Rightarrow> progressed p \<and> delay_min_ms (cfg s) \<le> d \<and> d \<le> delay_max_ms (cfg s)
         | None \<Rightarrow> delay_min_ms (cfg s) = 0 \<or> \<not> progressed p)"
proof (cases "pending_delay s \<noteq> None \<and> \<not> woken")
  case True
  then show ?thesis using assms by (simp add: frag_poll_write_def)
next
  case False
  let ?n = "pick_chunk_len (cfg s) (length buf) r1"
  obtain i p where w: "w (take ?n buf) (inner s) = (i, p)" by fastforce
  have n: "min (size_min (cfg s)) (length buf) \<le> ?n" "?n \<le> size_max (cfg s)"
    using pick_chunk_len_bounds [of "length buf" "cfg s" r1] assms by (auto simp: min_def max_def split: if_splits)
  let ?s = "s\<lparr>pending_delay := None, inner := i\<rparr>"
  let ?d = "pick_delay (cfg s) r2"
  have d: "delay_min_ms (cfg s) \<le> ?d" "?d \<le> delay_max_ms (cfg s)"
    using pick_delay_bounds [of "cfg s" r2] assms by simp_all
  have "frag_poll_write w woken r1 r2 buf s =
      ((if progressed p \<and> ?d \<noteq> 0 then ?s\<lparr>pending_delay := Some ?d\<rparr> else ?s), p)"
    using False assms w
    by (auto simp: frag_poll_write_def poll_inner_def progressed_def Let_def split: poll.split sum.split)
  then show ?thesis
    using False n d w assms(1)
    by (intro iffD2 [OF if_not_P] exI [of _ ?n] exI [of _ i] exI [of _ p]) auto
qed

definition sample_stream :: "tcp_sink fragmenting_stream" where
  "sample_stream = fragmenting_stream_new \<lparr>sent = [], room = 10, gone = False\<rparr> sample_frag"

theorem fragment_pacing_witness:
  "\<exists>n i p s'. 2 \<le> n \<and> n \<le> 3 \<and> tcp_write (take n [1, 2, 3, 4, 5]) (inner sample_stream) = (i, p)
     \<and> frag_poll_write tcp_write False 0 0 [1, 2, 3, 4, 5] sample_stream = (s', p)
     \<and> inner s' = i \<and> fragmenting s'
     \<and> (case pending_delay s' of Some d \<Rightarrow> progressed p \<and> 5 \<le> d \<and> d \<le> 5 | None \<Rightarrow> \<not> progressed p)"
proof -
  have s: "fragmenting sample_stream" "pending_delay sample_stream = None" "size_min (cfg sample_stream) = 2"
    "size_max (cfg sample_stream) = 3" "delay_min_ms (cfg sample_stream) = 5" "delay_max_ms (cfg sample_stream) = 5"
    by (simp_all add: sample_stream_def fragmenting_stream_new_def sample_frag_def)
  show ?thesis
    using fragment_pacing [of sample_stream "[1, 2, 3, 4, 5]" False tcp_write 0 0] s
    by (simp add: numeral_2_eq_2 cong: option.case_cong)
qed

end
