(* ===== verification/Noize.thy ===== *)
theory Noize
  imports Rng Errors
begin

section \<open>Decoy packets before the QUIC handshake (noize.rs)\<close>

text \<open>
  The junk and signature packets the MASQUE tunnel sends before its handshake. What
  \<open>pre_handshake\<close> does to the network is the list of its actions: datagrams sent to the peer
  (the code ignores whether sending fails) and pauses in milliseconds. The hex crate is the
  parameter \<open>hex\<close>; the clock is read like the random generator, as an arbitrary number.
\<close>

datatype action = Send bytes | Sleep nat

record noize_config =
  jc_before_hs :: nat
  jc_after_i1 :: nat
  jmin :: nat
  jmax :: nat
  i1 :: "str option"
  i2 :: "str option"
  junk_interval :: nat

definition noize_off :: noize_config where
  "noize_off = \<lparr>jc_before_hs = 0, jc_after_i1 = 0, jmin = 0, jmax = 0, i1 = None, i2 = None, junk_interval = 0\<rparr>"

definition noize_firewall :: noize_config where
  "noize_firewall = \<lparr>jc_before_hs = 2, jc_after_i1 = 2, jmin = 48, jmax = 190,
     i1 = Some ''<b 0d0a0d0a><t><r 24>'', i2 = Some ''<r 48>'', junk_interval = 4\<rparr>"

definition noize_gfw :: noize_config where
  "noize_gfw = \<lparr>jc_before_hs = 2, jc_after_i1 = 1, jmin = 64, jmax = 256,
     i1 = Some ''<b 0d0a0d0a><t><r 24>'', i2 = Some ''<r 32>'', junk_interval = 5\<rparr>"

definition noize_enabled :: "noize_config \<Rightarrow> bool" where
  "noize_enabled c \<longleftrightarrow> 0 < jc_before_hs c \<or> 0 < jc_after_i1 c \<or> i1 c \<noteq> None"

definition noize_from_profile :: "str \<Rightarrow> noize_config" where
  "noize_from_profile name =
     (if name = ''off'' \<or> name = ''none'' then noize_off
      else if name = ''gfw'' then noize_gfw
      else noize_firewall)"

definition junk_packet :: "rng \<Rightarrow> noize_config \<Rightarrow> bytes rand" where
  "junk_packet g c =
     (let (lo, hi) = (if jmin c < jmax c \<and> 0 < jmin c then (jmin c, jmax c) else (40, 90))
      in do { size \<leftarrow> gen_range g lo hi; fill_bytes g size })"

subsection \<open>Packet specifications\<close>

definition clock_secs :: "rng \<Rightarrow> nat rand" where
  "clock_secs g = State (\<lambda>k. (g k, Suc k))"

lemma drawn_clock [simp]: "drawn (clock_secs g) k = g k"
  by (simp add: drawn_def clock_secs_def)

definition cps_tag :: "(str \<Rightarrow> bytes option) \<Rightarrow> rng \<Rightarrow> str \<Rightarrow> bytes rand" where
  "cps_tag hex g inner =
     (let (tag, rest) = split_ws inner; data = trim rest in
      if tag = ''b'' then
        State_Monad.return (case hex (remove_ws data) of Some decoded \<Rightarrow> decoded | None \<Rightarrow> [])
      else if tag = ''t'' then do {
        ts \<leftarrow> clock_secs g;
        State_Monad.return (be_bytes 4 (word_of_nat ts :: u32))
      }
      else if tag = ''n'' then fill_bytes g 8
      else if tag = ''r'' then
        (let len = min (case parse_uint 64 data of Some n \<Rightarrow> n | None \<Rightarrow> 0) 1024
         in if 0 < len then fill_bytes g len else State_Monad.return [])
      else State_Monad.return [])"

function parse_cps :: "(str \<Rightarrow> bytes option) \<Rightarrow> rng \<Rightarrow> str \<Rightarrow> bytes rand" where
  "parse_cps hex g [] = State_Monad.return []"
| "parse_cps hex g (c # s) =
     (if c \<noteq> CHR ''<'' then parse_cps hex g s
      else
        (case split_once (CHR ''>'') s of
           None \<Rightarrow> State_Monad.return []
         | Some (inner, rest) \<Rightarrow> do {
             out \<leftarrow> cps_tag hex g (trim inner);
             more \<leftarrow> parse_cps hex g rest;
             State_Monad.return (out @ more)
           }))"
  by pat_completeness auto
termination
  by (relation "measure (\<lambda>(h, g, s). length s)") (auto dest!: split_once_Some)

declare parse_cps.simps(2) [simp del]

subsection \<open>Sending\<close>

definition send_junk :: "rng \<Rightarrow> noize_config \<Rightarrow> nat \<Rightarrow> action list rand" where
  "send_junk g c i = do {
     pkt \<leftarrow> junk_packet g c;
     State_Monad.return (Send pkt # (if junk_interval c \<noteq> 0 then [Sleep (junk_interval c)] else []))
   }"

definition send_signature :: "(str \<Rightarrow> bytes option) \<Rightarrow> rng \<Rightarrow> str option \<Rightarrow> action list \<Rightarrow> action list rand" where
  "send_signature hex g sig gap =
     (case sig of
        None \<Rightarrow> State_Monad.return []
      | Some spec \<Rightarrow> do {
          pkt \<leftarrow> parse_cps hex g spec;
          State_Monad.return (if pkt \<noteq> [] then Send pkt # gap else [])
        })"

definition pre_handshake :: "(str \<Rightarrow> bytes option) \<Rightarrow> rng \<Rightarrow> noize_config \<Rightarrow> action list rand" where
  "pre_handshake hex g c =
     (if \<not> noize_enabled c then State_Monad.return []
      else do {
        a \<leftarrow> repeat_rand (jc_before_hs c) (send_junk g c);
        b \<leftarrow> send_signature hex g (i1 c) [Sleep 2];
        d \<leftarrow> repeat_rand (jc_after_i1 c) (send_junk g c);
        e \<leftarrow> send_signature hex g (i2 c) [];
        State_Monad.return (a @ b @ d @ e)
      })"

subsection \<open>What is sent\<close>

definition sends :: "action list \<Rightarrow> bytes list" where
  "sends as = concat (map (\<lambda>a. case a of Send p \<Rightarrow> [p] | Sleep _ \<Rightarrow> []) as)"

lemma sends_simps [simp]:
  "sends [] = []" "sends (Send p # as) = p # sends as" "sends (Sleep n # as) = sends as"
  "sends (as @ bs) = sends as @ sends bs"
  by (simp_all add: sends_def)

definition junk_lo :: "noize_config \<Rightarrow> nat" where
  "junk_lo c = (if jmin c < jmax c \<and> 0 < jmin c then jmin c else 40)"

definition junk_hi :: "noize_config \<Rightarrow> nat" where
  "junk_hi c = (if jmin c < jmax c \<and> 0 < jmin c then jmax c else 90)"

lemma junk_packet_size: "junk_lo c \<le> length (drawn (junk_packet g c) k) \<and> length (drawn (junk_packet g c) k) \<le> junk_hi c"
  using in_range_bounds [of "junk_lo c" "junk_hi c" "g k"]
  by (auto simp: junk_packet_def junk_lo_def junk_hi_def)

lemma send_junk_sends:
  "\<exists>p. sends (drawn (send_junk g c i) k) = [p] \<and> junk_lo c \<le> length p \<and> length p \<le> junk_hi c"
  using junk_packet_size [of c g k] by (auto simp: send_junk_def)

lemma send_junks:
  "length (sends (drawn (repeat_rand n (send_junk g c)) k)) = n
   \<and> (\<forall>p \<in> set (sends (drawn (repeat_rand n (send_junk g c)) k)). junk_lo c \<le> length p \<and> length p \<le> junk_hi c)"
proof (induction n arbitrary: k)
  case (Suc n)
  have "(\<lambda>i. send_junk g c (Suc i)) = send_junk g c" by (rule ext) (simp add: send_junk_def)
  moreover obtain p where "sends (drawn (send_junk g c 0) k) = [p]" "junk_lo c \<le> length p" "length p \<le> junk_hi c"
    using send_junk_sends by blast
  ultimately show ?case using Suc by auto
qed simp

lemma send_signature_sends:
  "gap = [] \<or> (\<exists>n. gap = [Sleep n]) \<Longrightarrow>
     length (sends (drawn (send_signature hex g sig gap) k)) \<le> (if sig = None then 0 else 1)
     \<and> [] \<notin> set (sends (drawn (send_signature hex g sig gap) k))"
  by (auto simp: send_signature_def split: option.split)

subsection \<open>Properties\<close>

text \<open>
  The shape of the decoys: junk, at most one signature, junk, at most one signature, with the
  numbers and sizes of the configuration.
\<close>

definition decoys :: "noize_config \<Rightarrow> bytes list \<Rightarrow> bytes list \<Rightarrow> bytes list \<Rightarrow> bytes list \<Rightarrow> bool" where
  "decoys c j1 s1 j2 s2 \<longleftrightarrow>
     length j1 = (if noize_enabled c then jc_before_hs c else 0)
     \<and> length j2 = (if noize_enabled c then jc_after_i1 c else 0)
     \<and> length s1 \<le> (if i1 c = None then 0 else 1)
     \<and> length s2 \<le> (if noize_enabled c then 1 else 0)
     \<and> [] \<notin> set s1 \<and> [] \<notin> set s2
     \<and> list_all (\<lambda>p. junk_lo c \<le> length p \<and> length p \<le> junk_hi c) (j1 @ j2)"

text \<open>The decoys before a QUIC handshake have the shape the configuration asks for, whatever
  the generator draws: exactly the configured numbers of junk packets, each within the size
  range of the configuration (40 to 90 bytes where it has none), with at most one signature
  after each group; no signature is empty; and a configuration that is off sends nothing.\<close>

theorem pre_handshake_shape:
  "\<exists>j1 s1 j2 s2. sends (drawn (pre_handshake hex g c) k) = j1 @ s1 @ j2 @ s2 \<and> decoys c j1 s1 j2 s2"
proof (cases "noize_enabled c")
  case True
  let ?j1 = "repeat_rand (jc_before_hs c) (send_junk g c)"
  let ?s1 = "send_signature hex g (i1 c) [Sleep 2]"
  let ?j2 = "repeat_rand (jc_after_i1 c) (send_junk g c)"
  let ?s2 = "send_signature hex g (i2 c) []"
  obtain k1 k2 k3 where split: "drawn (pre_handshake hex g c) k =
      drawn ?j1 k @ drawn ?s1 k1 @ drawn ?j2 k2 @ drawn ?s2 k3"
    using True by (simp add: pre_handshake_def)
  have "decoys c (sends (drawn ?j1 k)) (sends (drawn ?s1 k1)) (sends (drawn ?j2 k2)) (sends (drawn ?s2 k3))"
    using True send_junks [of "jc_before_hs c" g c k] send_junks [of "jc_after_i1 c" g c k2]
      send_signature_sends [of "[Sleep 2]" hex g "i1 c" k1] send_signature_sends [of "[]" hex g "i2 c" k3]
    by (simp add: decoys_def list_all_iff ball_Un split: if_splits)
  then show ?thesis unfolding split sends_simps by blast
next
  case False
  then have "decoys c [] [] [] []" by (simp add: decoys_def)
  moreover have "sends (drawn (pre_handshake hex g c) k) = [] @ [] @ [] @ []"
    using False by (simp add: pre_handshake_def)
  ultimately show ?thesis by blast
qed

end
