(* ===== verification/Aethernoize.thy ===== *)
theory Aethernoize
  imports Noize
begin

section \<open>Obfuscation of the WireGuard tunnel (aethernoize.rs)\<close>

text \<open>
  The profiles, the packet specifications, the IKEv2 frame around the first signature, and the
  three senders: before the handshake, after it, and around a keepalive. The regex crate is
  the parameter \<open>caps\<close>, the pairs of groups its only pattern captures in a text, in order;
  the hex crate is the parameter \<open>hex\<close>. Actions are those of \<open>Noize\<close>.
\<close>

record aethernoize_config =
  an_i1 :: "str option"
  an_i2 :: "str option"
  an_i3 :: "str option"
  an_i4 :: "str option"
  an_i5 :: "str option"
  an_jc :: nat
  an_jc_before_hs :: nat
  an_jc_after_i1 :: nat
  an_jc_after_hs :: nat
  an_jmin :: nat
  an_jmax :: nat
  an_junk_interval :: nat
  an_handshake_delay :: nat
  an_allow_zero_size :: bool

definition aethernoize_off :: aethernoize_config where
  "aethernoize_off = \<lparr>an_i1 = None, an_i2 = None, an_i3 = None, an_i4 = None, an_i5 = None, an_jc = 0,
     an_jc_before_hs = 0, an_jc_after_i1 = 0, an_jc_after_hs = 0, an_jmin = 0, an_jmax = 0,
     an_junk_interval = 0, an_handshake_delay = 0, an_allow_zero_size = False\<rparr>"

definition aethernoize_light :: aethernoize_config where
  "aethernoize_light = \<lparr>an_i1 = Some ''<b 0d0a0d0a><t><r 20-32>'', an_i2 = Some ''<rc 24-48>'', an_i3 = None,
     an_i4 = None, an_i5 = None, an_jc = 4, an_jc_before_hs = 2, an_jc_after_i1 = 1, an_jc_after_hs = 1,
     an_jmin = 48, an_jmax = 190, an_junk_interval = 3, an_handshake_delay = 5, an_allow_zero_size = False\<rparr>"

definition aethernoize_balanced :: aethernoize_config where
  "aethernoize_balanced = \<lparr>an_i1 = Some ''<b 0d0a0d0a><t><rc 20-40>'',
     an_i2 = Some ''<b 504f5354><rd 10-20><rc 20-30>'', an_i3 = Some ''<r 30-50>'', an_i4 = None, an_i5 = None,
     an_jc = 6, an_jc_before_hs = 3, an_jc_after_i1 = 2, an_jc_after_hs = 1, an_jmin = 64, an_jmax = 256,
     an_junk_interval = 2, an_handshake_delay = 8, an_allow_zero_size = False\<rparr>"

definition aethernoize_aggressive :: aethernoize_config where
  "aethernoize_aggressive = \<lparr>an_i1 = Some ''<b 0d0a0d0a><t><rc 40-64>'',
     an_i2 = Some ''<b 504f5354><t><rd 15-30><rc 30-50>'', an_i3 = Some ''<b 474554><rc 40-60>'',
     an_i4 = Some ''<r 60-100>'', an_i5 = Some ''<c><rd 20-40>'', an_jc = 10, an_jc_before_hs = 4,
     an_jc_after_i1 = 3, an_jc_after_hs = 3, an_jmin = 80, an_jmax = 384, an_junk_interval = 1,
     an_handshake_delay = 12, an_allow_zero_size = False\<rparr>"

definition aethernoize_enabled :: "aethernoize_config \<Rightarrow> bool" where
  "aethernoize_enabled c \<longleftrightarrow> 0 < an_jc c \<or> an_i1 c \<noteq> None"

definition aethernoize_from_profile :: "str \<Rightarrow> aethernoize_config" where
  "aethernoize_from_profile name =
     (if name = ''off'' \<or> name = ''none'' then aethernoize_off
      else if name = ''light'' then aethernoize_light
      else if name = ''aggressive'' \<or> name = ''heavy'' then aethernoize_aggressive
      else aethernoize_balanced)"

subsection \<open>Packet specifications\<close>

definition parse_len :: "str \<Rightarrow> nat" where
  "parse_len s = (case parse_uint 64 (trim s) of Some n \<Rightarrow> n | None \<Rightarrow> 0)"

definition parse_range_len :: "rng \<Rightarrow> str \<Rightarrow> nat rand" where
  "parse_range_len g data =
     (case split_on (CHR ''-'') data of
        a # b # _ \<Rightarrow>
          (let mn = parse_len a; mx = parse_len b in
           if mn < mx \<and> 0 < mn then do { n \<leftarrow> gen_range g mn mx; State_Monad.return (min n 2048) }
           else State_Monad.return (min (parse_len data) 2048))
      | _ \<Rightarrow> State_Monad.return (min (parse_len data) 2048))"

text \<open>\<open>len\<close> draws from an alphabet.\<close>

definition fill_from :: "rng \<Rightarrow> bytes \<Rightarrow> nat \<Rightarrow> bytes rand" where
  "fill_from g chars len =
     State (\<lambda>k. (map (\<lambda>i. chars ! in_range 0 (length chars - 1) (g (k + i))) [0..<len], k + len))"

definition letters :: bytes where
  "letters = text_bytes ''abcdefghijklmnopqrstuvwxyzABCDEFGHIJKLMNOPQRSTUVWXYZ''"

definition digits :: bytes where
  "digits = text_bytes ''0123456789''"

definition strip_0x :: "str \<Rightarrow> str" where
  "strip_0x s =
     (case strip_prefix ''0x'' s of
        Some r \<Rightarrow> r
      | None \<Rightarrow> (case strip_prefix ''0X'' s of Some r \<Rightarrow> r | None \<Rightarrow> s))"

definition an_cps_tag :: "(str \<Rightarrow> bytes option) \<Rightarrow> rng \<Rightarrow> str \<Rightarrow> str \<Rightarrow> bytes rand" where
  "an_cps_tag hex g tag data =
     (if tag = ''b'' then
        State_Monad.return (case hex (strip_0x (remove_ws data)) of Some decoded \<Rightarrow> decoded | None \<Rightarrow> [])
      else if tag = ''t'' then do {
        ts \<leftarrow> clock_secs g;
        State_Monad.return (be_bytes 4 (word_of_nat ts :: u32))
      }
      else if tag = ''c'' then do {
        ts \<leftarrow> clock_secs g;
        State_Monad.return (be_bytes 4 (word_of_nat (ts mod 0xFFFFFFFF) :: u32))
      }
      else if tag = ''r'' then do {
        len \<leftarrow> parse_range_len g data;
        (if 0 < len then fill_bytes g len else State_Monad.return [])
      }
      else if tag = ''rc'' then do {
        len \<leftarrow> parse_range_len g data;
        (if 0 < len then fill_from g letters len else State_Monad.return [])
      }
      else if tag = ''rd'' then do {
        len \<leftarrow> parse_range_len g data;
        (if 0 < len then fill_from g digits len else State_Monad.return [])
      }
      else State_Monad.return [])"

fun an_cps_tags :: "(str \<Rightarrow> bytes option) \<Rightarrow> rng \<Rightarrow> (str \<times> str) list \<Rightarrow> bytes rand" where
  "an_cps_tags hex g [] = State_Monad.return []"
| "an_cps_tags hex g ((tag, data) # cs) = do {
     out \<leftarrow> an_cps_tag hex g tag (trim data);
     more \<leftarrow> an_cps_tags hex g cs;
     State_Monad.return (out @ more)
   }"

definition an_parse_cps :: "(str \<Rightarrow> bytes option) \<Rightarrow> (str \<Rightarrow> (str \<times> str) list) \<Rightarrow> rng \<Rightarrow> str \<Rightarrow> bytes rand" where
  "an_parse_cps hex caps g spec = an_cps_tags hex g (caps spec)"

subsection \<open>The IKEv2 frame\<close>

text \<open>
  The addition of 16-bit numbers overflows, and panics in a debug build, only for payloads of
  more than 65511 bytes; here it wraps, as in a release build.
\<close>

definition wrap_ikev2 :: "rng \<Rightarrow> bytes \<Rightarrow> bytes rand" where
  "wrap_ikev2 g payload =
     (if payload = [] then State_Monad.return payload
      else do {
        initiator_spi \<leftarrow> (if 8 \<le> length payload then State_Monad.return (take 8 payload) else fill_bytes g 8);
        responder_spi \<leftarrow> fill_bytes g 8;
        (let total_length = 28 + 24 + (word_of_nat (length payload) :: u32);
             sa_payload_length = 24 + (word_of_nat (length payload) :: u16)
         in State_Monad.return
              (initiator_spi @ responder_spi @ [0x21, 0x20, 0x22, 0x08] @ [0x00, 0x00, 0x00, 0x00]
               @ be_bytes 4 total_length @ [0x00, 0x00] @ be_bytes 2 sa_payload_length
               @ [0x00, 0x00, 0x00, 0x14, 0x01, 0x01, 0x00, 0x04, 0x03, 0x00, 0x00, 0x08, 0x01, 0x00,
                  0x00, 0x0c, 0x00, 0x00, 0x00, 0x00]
               @ payload))
      })"

subsection \<open>Junk\<close>

definition junk_range :: "aethernoize_config \<Rightarrow> (bytes + nat \<times> nat)" where
  "junk_range c =
     (let mn = an_jmin c; mx = an_jmax c; zero = an_allow_zero_size c in
      if mn = 0 \<and> mx = 0 \<and> zero then Inl []
      else if mn = 0 \<and> mx = 0 then Inl [0x00]
      else if mx = 0 \<and> \<not> zero then Inr (max mn 1, max mn 1)
      else if \<not> zero then Inr (max mn 1, max mx mn)
      else Inr (mn, max mx mn))"

definition generate_junk :: "rng \<Rightarrow> aethernoize_config \<Rightarrow> bytes rand" where
  "generate_junk g c =
     (case junk_range c of
        Inl b \<Rightarrow> State_Monad.return b
      | Inr (min_size, max_size) \<Rightarrow> do {
          size \<leftarrow> (if max_size = min_size then State_Monad.return min_size else gen_range g min_size max_size);
          (if size = 0 then State_Monad.return (if an_allow_zero_size c then [] else [0x00])
           else fill_bytes g size)
        })"

definition pause :: "nat \<Rightarrow> action list" where
  "pause ms = (if ms \<noteq> 0 then [Sleep ms] else [])"

definition junk_turn :: "rng \<Rightarrow> aethernoize_config \<Rightarrow> nat \<Rightarrow> action list rand" where
  "junk_turn g c i = do {
     junk \<leftarrow> generate_junk g c;
     State_Monad.return (Send junk # pause (an_junk_interval c))
   }"

fun signature_turns :: "(str \<Rightarrow> bytes option) \<Rightarrow> (str \<Rightarrow> (str \<times> str) list) \<Rightarrow> rng \<Rightarrow> str option list \<Rightarrow> action list rand" where
  "signature_turns hex caps g [] = State_Monad.return []"
| "signature_turns hex caps g (None # sigs) = signature_turns hex caps g sigs"
| "signature_turns hex caps g (Some s # sigs) = do {
     pkt \<leftarrow> an_parse_cps hex caps g s;
     more \<leftarrow> signature_turns hex caps g sigs;
     State_Monad.return ((if pkt \<noteq> [] then [Send pkt, Sleep 1] else []) @ more)
   }"

definition first_signature :: "(str \<Rightarrow> bytes option) \<Rightarrow> (str \<Rightarrow> (str \<times> str) list) \<Rightarrow> rng \<Rightarrow> str option \<Rightarrow> action list rand" where
  "first_signature hex caps g sig =
     (case sig of
        None \<Rightarrow> State_Monad.return []
      | Some s \<Rightarrow> do {
          payload \<leftarrow> an_parse_cps hex caps g s;
          (if payload \<noteq> [] then do {
             framed \<leftarrow> wrap_ikev2 g payload;
             State_Monad.return [Send framed, Sleep 2]
           } else State_Monad.return [])
        })"

definition apply_obfuscation :: "(str \<Rightarrow> bytes option) \<Rightarrow> (str \<Rightarrow> (str \<times> str) list) \<Rightarrow> rng \<Rightarrow> aethernoize_config \<Rightarrow> action list rand" where
  "apply_obfuscation hex caps g c =
     (if \<not> aethernoize_enabled c then State_Monad.return []
      else do {
        a \<leftarrow> first_signature hex caps g (an_i1 c);
        b \<leftarrow> repeat_rand (an_jc_after_i1 c) (junk_turn g c);
        d \<leftarrow> repeat_rand (an_jc_before_hs c) (junk_turn g c);
        e \<leftarrow> signature_turns hex caps g [an_i2 c, an_i3 c, an_i4 c, an_i5 c];
        State_Monad.return (a @ b @ d @ e @ pause (an_handshake_delay c))
      })"

definition send_post_handshake_junk :: "rng \<Rightarrow> aethernoize_config \<Rightarrow> action list rand" where
  "send_post_handshake_junk g c = repeat_rand (an_jc_after_hs c) (junk_turn g c)"

definition mask_first :: "bytes \<Rightarrow> bytes" where
  "mask_first junk =
     (case junk of
        [] \<Rightarrow> []
      | b # r \<Rightarrow> (if 1 \<le> b \<and> b \<le> 4 then b + 0x40 else b) # r)"

definition keepalive_turn :: "rng \<Rightarrow> aethernoize_config \<Rightarrow> nat \<Rightarrow> action list rand" where
  "keepalive_turn g c i = do {
     junk \<leftarrow> generate_junk g c;
     jitter \<leftarrow> gen_range g 0 8;
     State_Monad.return (Send (mask_first junk) # pause (an_junk_interval c + jitter))
   }"

definition send_keepalive_junk :: "rng \<Rightarrow> aethernoize_config \<Rightarrow> action list rand" where
  "send_keepalive_junk g c =
     (if \<not> aethernoize_enabled c then State_Monad.return []
      else
        (let base = max (an_jc_before_hs c) 1 in do {
           extra \<leftarrow> gen_range g 0 base;
           repeat_rand (base + extra) (keepalive_turn g c)
         }))"

subsection \<open>Sizes and shapes\<close>

definition junk_ok :: "aethernoize_config \<Rightarrow> bytes \<Rightarrow> bool" where
  "junk_ok c p \<longleftrightarrow>
     (if an_allow_zero_size c then an_jmin c else max (an_jmin c) 1) \<le> length p
     \<and> length p \<le> max (max (an_jmin c) (an_jmax c)) 1"

lemma junk_range_bounds:
  "junk_range c = Inr (lo, hi) \<Longrightarrow> lo \<le> hi \<and> an_jmin c \<le> lo \<and> hi \<le> max (max (an_jmin c) (an_jmax c)) 1
     \<and> (an_allow_zero_size c \<or> 1 \<le> lo)"
  by (auto simp: junk_range_def Let_def split: if_splits)

lemma generate_junk_ok: "junk_ok c (drawn (generate_junk g c) k)"
proof (cases "junk_range c")
  case (Inl b)
  then show ?thesis
    by (auto simp: generate_junk_def junk_ok_def junk_range_def Let_def split: if_splits)
next
  case (Inr r)
  obtain lo hi where r: "r = (lo, hi)" by fastforce
  have b: "lo \<le> hi" "an_jmin c \<le> lo" "hi \<le> max (max (an_jmin c) (an_jmax c)) 1" "an_allow_zero_size c \<or> 1 \<le> lo"
    using junk_range_bounds [OF Inr [unfolded r]] by simp_all
  let ?size = "if hi = lo then lo else in_range lo hi (g k)"
  have size: "lo \<le> ?size" "?size \<le> hi" using in_range_bounds [OF b(1), of "g k"] by auto
  have "length (drawn (generate_junk g c) k) = (if ?size = 0 \<and> \<not> an_allow_zero_size c then 1 else ?size)"
    using Inr r by (auto simp: generate_junk_def)
  then show ?thesis using b size unfolding junk_ok_def by auto
qed

lemma sends_pause [simp]: "sends (pause n) = []"
  by (simp add: pause_def)

text \<open>A loop whose turns each send one packet: as many packets as turns, all with the property.\<close>

lemma sends_repeat:
  assumes "\<And>i k. \<exists>p. sends (drawn (f i) k) = [p] \<and> Q p"
  shows "length (sends (drawn (repeat_rand n f) k)) = n \<and> list_all Q (sends (drawn (repeat_rand n f) k))"
  using assms
proof (induction n arbitrary: f k)
  case (Suc n)
  obtain p where "sends (drawn (f 0) k) = [p]" "Q p" using Suc.prems by blast
  then show ?case using Suc.IH [of "\<lambda>i. f (Suc i)"] Suc.prems by simp
qed simp

lemma junk_turn_sends: "\<exists>p. sends (drawn (junk_turn g c i) k) = [p] \<and> junk_ok c p"
  using generate_junk_ok by (simp add: junk_turn_def)

definition not_wireguard :: "bytes \<Rightarrow> bool" where
  "not_wireguard p = (case p of [] \<Rightarrow> True | b # _ \<Rightarrow> \<not> (1 \<le> b \<and> b \<le> 4))"

lemma mask_first_not_wireguard: "not_wireguard (mask_first p)"
proof (cases p)
  case (Cons b r)
  have "\<not> (1 \<le> b + 0x40 \<and> b + 0x40 \<le> 4)" if "1 \<le> b" "b \<le> 4" for b :: u8
  proof -
    have b: "unat b \<le> 4" using that(2) by (simp add: word_le_nat_alt)
    have "unat (b + 0x40) = unat b + 64" using b by (simp add: unat_word_ariths)
    then show ?thesis by (simp add: word_le_nat_alt)
  qed
  then show ?thesis by (simp add: not_wireguard_def mask_first_def Cons)
qed (simp add: not_wireguard_def mask_first_def)

lemma length_mask_first [simp]: "length (mask_first p) = length p"
  by (simp add: mask_first_def split: list.split)

lemma keepalive_turn_sends:
  "\<exists>p. sends (drawn (keepalive_turn g c i) k) = [p] \<and> junk_ok c p \<and> not_wireguard p"
  using generate_junk_ok [of c g k] mask_first_not_wireguard
  by (simp add: keepalive_turn_def junk_ok_def)

lemma length_fill_bytes_after [simp]: "after (fill_bytes g n) k = k + n"
  by (simp add: after_def)

lemma keepalive_junk_all:
  "(let ps = sends (drawn (send_keepalive_junk g c) k); base = max (an_jc_before_hs c) 1 in
      list_all (\<lambda>p. junk_ok c p \<and> not_wireguard p) ps
      \<and> (if aethernoize_enabled c then base \<le> length ps \<and> length ps \<le> 2 * base else ps = []))"
proof (cases "aethernoize_enabled c")
  case True
  let ?base = "max (an_jc_before_hs c) 1"
  let ?n = "?base + in_range 0 ?base (g k)"
  have "drawn (send_keepalive_junk g c) k =
      drawn (repeat_rand ?n (keepalive_turn g c)) (after (gen_range g 0 ?base) k)"
    using True by (simp add: send_keepalive_junk_def Let_def)
  moreover have "in_range 0 ?base (g k) \<le> ?base" using in_range_bounds [of 0 ?base "g k"] by simp
  ultimately show ?thesis
    using True sends_repeat [where f = "keepalive_turn g c" and Q = "\<lambda>p. junk_ok c p \<and> not_wireguard p"
        and n = ?n and k = "after (gen_range g 0 ?base) k"] keepalive_turn_sends
    by (simp add: Let_def) (simp add: max_def)
qed (simp add: send_keepalive_junk_def)

subsection \<open>Properties\<close>

text \<open>The IKEv2 frame around a signature is consistent: the length of the message in its
  header and the length of its security association payload count the bytes of the frame, and
  the signature is carried whole at the end; its first bytes, where it has eight, are the
  initiator's SPI.\<close>

theorem ikev2_frame_lengths:
  assumes "payload \<noteq> []" and "length payload \<le> 65511"
  shows "(let f = drawn (wrap_ikev2 g payload) k in
      length f = 52 + length payload
      \<and> unat (of_be (take 4 (drop 24 f)) :: u32) = length f
      \<and> unat (of_be (take 2 (drop 30 f)) :: u16) = length f - 28
      \<and> drop 52 f = payload
      \<and> (8 \<le> length payload \<longrightarrow> take 8 f = take 8 payload))"
proof -
  let ?t = "28 + 24 + word_of_nat (length payload) :: u32" and ?s = "24 + word_of_nat (length payload) :: u16"
  let ?m = "[0x00, 0x00, 0x00, 0x14, 0x01, 0x01, 0x00, 0x04, 0x03, 0x00, 0x00, 0x08, 0x01, 0x00,
                  0x00, 0x0c, 0x00, 0x00, 0x00, 0x00] :: bytes"
  let ?spi = "if 8 \<le> length payload then State_Monad.return (take 8 payload) else fill_bytes g 8"
  obtain i r where len: "length i = 8" "length r = 8" and i: "8 \<le> length payload \<Longrightarrow> i = take 8 payload"
    and f: "drawn (wrap_ikev2 g payload) k = i @ r @ [0x21, 0x20, 0x22, 0x08, 0x00, 0x00, 0x00, 0x00]
      @ be_bytes 4 ?t @ [0x00, 0x00] @ be_bytes 2 ?s @ ?m @ payload"
  proof
    show "length (drawn ?spi k) = 8" "8 \<le> length payload \<Longrightarrow> drawn ?spi k = take 8 payload" by simp_all
    show "length (drawn (fill_bytes g 8) (after ?spi k)) = 8" by simp
    show "drawn (wrap_ikev2 g payload) k = drawn ?spi k @ drawn (fill_bytes g 8) (after ?spi k)
        @ [0x21, 0x20, 0x22, 0x08, 0x00, 0x00, 0x00, 0x00]
        @ be_bytes 4 ?t @ [0x00, 0x00] @ be_bytes 2 ?s @ ?m @ payload"
      using assms(1) by (simp add: wrap_ikev2_def Let_def)
  qed
  let ?f = "i @ r @ [0x21, 0x20, 0x22, 0x08, 0x00, 0x00, 0x00, 0x00]
      @ be_bytes 4 ?t @ [0x00, 0x00] @ be_bytes 2 ?s @ ?m @ payload"
  have "drop 24 ?f = be_bytes 4 ?t @ [0x00, 0x00] @ be_bytes 2 ?s @ ?m @ payload" using len by simp
  then have t: "of_be (take 4 (drop 24 ?f)) = ?t" by (simp add: of_be_be_bytes)
  have "drop 30 ?f = be_bytes 2 ?s @ ?m @ payload" using len by simp
  then have s: "of_be (take 2 (drop 30 ?f)) = ?s" by (simp add: of_be_be_bytes)
  have "unat ?t = 52 + length payload" "unat ?s = 24 + length payload"
    using assms(2) by (simp_all add: unat_word_ariths unat_of_nat take_bit_nat_eq_self)
  moreover have "length ?f = 52 + length payload" "drop 52 ?f = payload" "take 8 ?f = i" using len by simp_all
  ultimately show ?thesis using t s i unfolding f Let_def by auto
qed

theorem ikev2_frame_lengths_witness:
  "length (drawn (wrap_ikev2 (\<lambda>_. 0) [1, 2, 3, 4, 5, 6, 7, 8, 9]) 0) = 61"
  using ikev2_frame_lengths [of "[1, 2, 3, 4, 5, 6, 7, 8, 9]" "\<lambda>_. 0" 0] by (simp add: Let_def)

text \<open>C11. The junk around a keepalive can never be taken for WireGuard: whatever the generator
  draws, no packet starts with a WireGuard message type; when obfuscation is on there are
  between \<open>base\<close> and twice \<open>base\<close> of them, where \<open>base\<close> is the configured number and at least
  one, each of a size the configuration allows; when it is off there are none.\<close>

theorem keepalive_junk_safe:
  "(let ps = sends (drawn (send_keepalive_junk g c) k); base = max (an_jc_before_hs c) 1 in
      list_all (\<lambda>p. junk_ok c p \<and> not_wireguard p) ps
      \<and> (if aethernoize_enabled c then base \<le> length ps \<and> length ps \<le> 2 * base else ps = []))"
  by (rule keepalive_junk_all)

end
