(* ===== verification/Ip_Packet.thy ===== *)
theory Ip_Packet
  imports Net_Addr
begin

section \<open>Data-plane probe packets (masque.rs, wireguard.rs)\<close>

text \<open>
  Both tunnels check that an endpoint forwards traffic by sending a DNS query to 8.8.8.8 in
  a hand-built IPv4 packet. The model follows the two copies of the code: the DNS query, the
  header checksum and the packet. The numbers the code draws from the random generator (the
  DNS id, the IP id and the source port) are arguments, in the order of the draws.
\<close>

subsection \<open>The one's complement checksum\<close>

fun sum_words :: "bytes \<Rightarrow> u32 \<Rightarrow> u32" where
  "sum_words (a # b # r) acc = sum_words r (acc + ucast (of_be [a, b] :: u16))"
| "sum_words [a] acc = acc + push_bit 8 (ucast a)"
| "sum_words [] acc = acc"

lemma unat_drop_16: "unat (drop_bit 16 s :: u32) = unat s div 65536"
  by (simp add: drop_bit_eq_div unat_div)

lemma unat_fold_step: "unat ((s AND 0xffff) + drop_bit 16 s :: u32) = unat s mod 65536 + unat s div 65536"
proof -
  have s: "unat s < 4294967296"
  proof -
    have "unat s < 2 ^ LENGTH(32)" by (rule unsigned_less)
    then show ?thesis by simp
  qed
  have "s AND 0xffff = take_bit 16 s" by (simp add: take_bit_eq_mask mask_numeral)
  then have a: "unat (s AND 0xffff) = unat s mod 65536"
    by (simp add: unsigned_take_bit_eq take_bit_eq_mod unat_mod)
  have "unat s mod 65536 + unat s div 65536 < 2 ^ LENGTH(32)"
    using s by (simp add: add_less_le_mono div_le_mono mod_less_divisor less_mult_imp_div_less)
  then show ?thesis by (simp add: unat_word_ariths a unat_drop_16)
qed

function fold_carries :: "u32 \<Rightarrow> u32" where
  "fold_carries s =
     (if drop_bit 16 s \<noteq> 0 then fold_carries ((s AND 0xffff) + drop_bit 16 s) else s)"
  by pat_completeness auto
termination
proof (relation "measure unat")
  fix s :: u32 assume "drop_bit 16 s \<noteq> 0"
  then have "unat (drop_bit 16 s) \<noteq> 0" by (metis unsigned_eq_0_iff)
  then have "unat s div 65536 \<noteq> 0" by (simp only: unat_drop_16 not_False_eq_True)
  then have "unat s mod 65536 + unat s div 65536 < unat s"
    using div_mult_mod_eq [of "unat s" 65536] by linarith
  then show "((s AND 0xffff) + drop_bit 16 s, s) \<in> measure unat" by (simp add: unat_fold_step)
qed simp

declare fold_carries.simps [simp del]

definition ipv4_header_checksum :: "bytes \<Rightarrow> u16" where
  "ipv4_header_checksum header = NOT (ucast (fold_carries (sum_words header 0)))"

lemma unat_fold_carries:
  "unat (fold_carries s) = (if unat s = 0 then 0 else Suc ((unat s - 1) mod 65535))"
proof (induction s rule: fold_carries.induct)
  case (1 s)
  let ?t = "(s AND 0xffff) + drop_bit 16 s"
  show ?case
  proof (cases "drop_bit 16 s \<noteq> 0")
    case True
    then have "unat (drop_bit 16 s) \<noteq> 0" by (metis unsigned_eq_0_iff)
    then have q: "unat s div 65536 \<noteq> 0" by (simp only: unat_drop_16 not_False_eq_True)
    have t: "unat ?t = unat s mod 65536 + unat s div 65536" by (rule unat_fold_step)
    have "unat s - 1 = 65535 * (unat s div 65536) + (unat ?t - 1)"
      using q div_mult_mod_eq [of "unat s" 65536] unfolding t by linarith
    then have "(unat s - 1) mod 65535 = (unat ?t - 1) mod 65535" by simp
    moreover have "unat ?t \<noteq> 0" "unat s \<noteq> 0" using q t by auto
    ultimately show ?thesis
      using "1.IH" [OF True] True by (subst fold_carries.simps) simp
  next
    case False
    then have "unat (drop_bit 16 s) = 0" by (simp only: unsigned_0 not_not)
    then have "unat s < 65536"
      by (simp add: unat_drop_16 div_eq_0_iff)
    then show ?thesis using False by (subst fold_carries.simps) auto
  qed
qed

fun word_sum :: "bytes \<Rightarrow> nat" where
  "word_sum (a # b # r) = 256 * unat a + unat b + word_sum r"
| "word_sum _ = 0"

lemma word_sum_append: "even (length p) \<Longrightarrow> word_sum (p @ q) = word_sum p + word_sum q"
  by (induction p rule: word_sum.induct) auto

lemma word_sum_bound: "word_sum p \<le> 65536 * length p"
proof (induction p rule: word_sum.induct)
  case (1 a b r)
  then show ?case using unat_u8 [of a] unat_u8 [of b] by (simp del: unat_u8)
qed auto

lemma unat_of_be_pair: "unat (of_be [a, b] :: u16) = 256 * unat a + unat b"
  using unat_of_be_snoc [of "[a]" b, where ?'a = 16] unat_of_be_snoc [of "[]" a, where ?'a = 16]
  by (simp add: of_be_def)

lemma unat_sum_words:
  "even (length h) \<Longrightarrow> unat s + 65536 * length h < 4294967296 \<Longrightarrow> unat (sum_words h s) = unat s + word_sum h"
proof (induction h s rule: sum_words.induct)
  case (1 a b r s)
  let ?w = "ucast (of_be [a, b] :: u16) :: u32"
  have w: "unat ?w = 256 * unat a + unat b"
    using unat_u16 [of "of_be [a, b]"] by (simp add: unsigned_ucast_eq unat_of_be_pair take_bit_nat_eq_self)
  have "256 * unat a + unat b < 65536"
    using unat_u16 [of "of_be [a, b]"] by (simp only: unat_of_be_pair)
  then have "unat (s + ?w) = unat s + unat ?w"
    using "1.prems"(2) w by (simp add: unat_word_ariths)
  then show ?case using "1" w \<open>256 * unat a + unat b < 65536\<close> by simp
qed auto

lemma unat_not_u16: "unat (NOT w :: u16) = 65535 - unat w"
proof -
  have m: "unat (- 1 :: u16) = 65535" by (simp add: unsigned_minus_1_eq_mask mask_eq_exp_minus_1)
  have "NOT w = - 1 - w" by (simp add: not_eq_complement)
  moreover have "w \<le> - 1" by simp
  ultimately show ?thesis using m by (simp only: unat_sub)
qed

lemma unat_checksum:
  assumes "even (length h)" and "length h < 60000"
  shows "unat (ipv4_header_checksum h) =
    65535 - (if word_sum h = 0 then 0 else Suc ((word_sum h - 1) mod 65535))"
proof -
  have "unat (sum_words h 0) = word_sum h"
    using unat_sum_words [of h 0] assms by simp
  then have f: "unat (fold_carries (sum_words h 0)) =
      (if word_sum h = 0 then 0 else Suc ((word_sum h - 1) mod 65535))"
    by (simp add: unat_fold_carries)
  have "unat (fold_carries (sum_words h 0)) < 65536"
    unfolding f by (simp add: less_Suc_eq_le [symmetric])
  then have "unat (ucast (fold_carries (sum_words h 0)) :: u16) = unat (fold_carries (sum_words h 0))"
    by (simp add: unsigned_ucast_eq take_bit_nat_eq_self)
  then show ?thesis by (simp add: ipv4_header_checksum_def unat_not_u16 f)
qed

text \<open>
  Storing the checksum of a header in its (zero) checksum field makes the checksum of the whole
  header zero, which is what a receiver checks.
\<close>

lemma word_sum_be_bytes: "word_sum (be_bytes 2 (w :: u16)) = unat w"
proof -
  have "unat (of_be (be_bytes 2 w) :: u16) = unat w"
    by (simp add: of_be_be_bytes)
  then show ?thesis by (simp add: be_bytes_2 unat_of_be_pair)
qed

lemma checksum_verifies:
  assumes "even (length p)" "even (length q)" "length p + length q < 50000"
  shows "ipv4_header_checksum (p @ be_bytes 2 (ipv4_header_checksum (p @ [0, 0] @ q)) @ q) = 0"
proof -
  let ?c = "ipv4_header_checksum (p @ [0, 0] @ q)"
  let ?S = "word_sum p + word_sum q"
  let ?h = "p @ be_bytes 2 ?c @ q"
  have app: "word_sum (p @ x @ q) = ?S + word_sum x" if "even (length x)" for x
    using that assms by (simp add: word_sum_append)
  have c: "unat ?c = 65535 - (if ?S = 0 then 0 else Suc ((?S - 1) mod 65535))"
    using unat_checksum [of "p @ [0, 0] @ q"] app [of "[0, 0]"] assms by simp
  have S': "word_sum ?h = ?S + unat ?c"
    using app [of "be_bytes 2 ?c"] by (simp add: word_sum_be_bytes)
  have "word_sum ?h \<noteq> 0 \<and> (word_sum ?h - 1) mod 65535 = 65534"
  proof (cases "?S = 0")
    case False
    have lt: "(?S - 1) mod 65535 < 65535" by simp
    have "?S - 1 = 65535 * ((?S - 1) div 65535) + (?S - 1) mod 65535" by simp
    then have "word_sum ?h - 1 = 65535 * ((?S - 1) div 65535) + 65534"
      unfolding S' c if_not_P [OF False] using False lt by linarith
    moreover have "word_sum ?h \<noteq> 0" using False S' by linarith
    ultimately show ?thesis by simp
  qed (use S' c in simp)
  then have "unat (ipv4_header_checksum ?h) = 0"
    using assms by (subst unat_checksum) auto
  then show ?thesis by (metis unsigned_eq_0_iff)
qed

subsection \<open>masque.rs: the probe of the MASQUE tunnels\<close>

definition dns_label :: "str \<Rightarrow> bytes" where
  "dns_label l = word_of_nat (length l) # text_bytes l"

definition probe_dns_query :: "u16 \<Rightarrow> bytes" where
  "probe_dns_query dns_id =
     be_bytes 2 dns_id @ [0x01, 0x00] @ [0x00, 0x01] @ [0x00, 0x00, 0x00, 0x00, 0x00, 0x00]
     @ concat (map dns_label [''cloudflare'', ''com''])
     @ [0x00] @ [0x00, 0x01] @ [0x00, 0x01]"

definition set_checksum :: "bytes \<Rightarrow> u16 \<Rightarrow> bytes" where
  "set_checksum pkt csum = take 10 pkt @ be_bytes 2 csum @ drop 12 pkt"

definition build_dns_probe_packet :: "u16 \<Rightarrow> u16 \<Rightarrow> u16 \<Rightarrow> u32 \<Rightarrow> bytes" where
  "build_dns_probe_packet dns_id ip_id sport src =
     (let dns = probe_dns_query dns_id;
          udp_len = 8 + length dns;
          total_len = 20 + udp_len;
          pkt = [0x45, 0x00] @ be_bytes 2 (word_of_nat total_len :: u16) @ be_bytes 2 ip_id
                @ [0x00, 0x00] @ [64] @ [17] @ [0x00, 0x00]
                @ ipv4_octets src @ ipv4_octets (ipv4_new 8 8 8 8);
          csum = ipv4_header_checksum (take 20 pkt);
          pkt = set_checksum pkt csum
      in pkt @ be_bytes 2 sport @ be_bytes 2 (53 :: u16) @ be_bytes 2 (word_of_nat udp_len :: u16)
         @ [0x00, 0x00] @ dns)"

subsection \<open>wireguard.rs: the probe of the WireGuard tunnel\<close>

fun wg_sum_words :: "bytes \<Rightarrow> u32 \<Rightarrow> u32" where
  "wg_sum_words (a # b # r) acc = wg_sum_words r (acc + ucast (of_be [a, b] :: u16))"
| "wg_sum_words [a] acc = acc + push_bit 8 (ucast a)"
| "wg_sum_words [] acc = acc"

definition wg_ipv4_checksum :: "bytes \<Rightarrow> u16" where
  "wg_ipv4_checksum header = NOT (ucast (fold_carries (wg_sum_words header 0)))"

definition wg_build_dns_query :: "u16 \<Rightarrow> bytes" where
  "wg_build_dns_query dns_id =
     be_bytes 2 dns_id @ [0x01, 0x00] @ [0x00, 0x01] @ [0x00, 0x00, 0x00, 0x00, 0x00, 0x00]
     @ concat (map dns_label [''cloudflare'', ''com''])
     @ [0x00] @ [0x00, 0x01] @ [0x00, 0x01]"

definition build_dataplane_probe :: "u16 \<Rightarrow> u16 \<Rightarrow> u16 \<Rightarrow> u32 \<Rightarrow> bytes" where
  "build_dataplane_probe dns_id ip_id sport src =
     (let dns = wg_build_dns_query dns_id;
          udp_len = 8 + length dns;
          total_len = 20 + udp_len;
          pkt = [0x45, 0x00] @ be_bytes 2 (word_of_nat total_len :: u16) @ be_bytes 2 ip_id
                @ [0x00, 0x00] @ [64] @ [17] @ [0x00, 0x00]
                @ ipv4_octets src @ ipv4_octets (ipv4_new 8 8 8 8);
          csum = wg_ipv4_checksum (take 20 pkt);
          pkt = set_checksum pkt csum
      in pkt @ be_bytes 2 sport @ be_bytes 2 (53 :: u16) @ be_bytes 2 (word_of_nat udp_len :: u16)
         @ [0x00, 0x00] @ dns)"

lemma wg_sum_words_eq: "wg_sum_words h s = sum_words h s"
  by (induction h s rule: wg_sum_words.induct) simp_all

lemma wg_ipv4_checksum_eq: "wg_ipv4_checksum h = ipv4_header_checksum h"
  by (simp add: wg_ipv4_checksum_def ipv4_header_checksum_def wg_sum_words_eq)

lemma wg_probe_eq: "build_dataplane_probe i j p src = build_dns_probe_packet i j p src"
  by (simp add: build_dataplane_probe_def build_dns_probe_packet_def wg_ipv4_checksum_eq
      wg_build_dns_query_def probe_dns_query_def)

lemma length_probe_dns_query [simp]: "length (probe_dns_query i) = 32"
  by (simp add: probe_dns_query_def dns_label_def)

text \<open>The packet as a header, cut at the checksum field, and what follows it.\<close>

lemma probe_packet_split:
  obtains p q where "length p = 10" "length q = 8" "q = ipv4_octets src @ [8, 8, 8, 8]"
    "p = [0x45, 0x00, 0x00, 60] @ be_bytes 2 i2 @ [0x00, 0x00, 64, 17]"
    "build_dns_probe_packet i1 i2 sport src =
      p @ be_bytes 2 (ipv4_header_checksum (p @ [0, 0] @ q)) @ q
      @ be_bytes 2 sport @ [0, 53, 0, 40, 0, 0] @ probe_dns_query i1"
proof
  let ?p = "[0x45, 0x00, 0x00, 60] @ be_bytes 2 i2 @ [0x00, 0x00, 64, 17]"
  let ?q = "ipv4_octets src @ [8, 8, 8, 8]"
  show "build_dns_probe_packet i1 i2 sport src =
      ?p @ be_bytes 2 (ipv4_header_checksum (?p @ [0, 0] @ ?q)) @ ?q
      @ be_bytes 2 sport @ [0, 53, 0, 40, 0, 0] @ probe_dns_query i1"
    by (simp add: build_dns_probe_packet_def Let_def set_checksum_def be_bytes_2)
qed simp_all

subsection \<open>Properties\<close>


end
