(* ===== verification/Wireguard.thy ===== *)
theory Wireguard
  imports Aethernoize Ip_Packet
begin

section \<open>The WireGuard tunnel and its endpoint check (wireguard.rs)\<close>

text \<open>
  The client id in the reserved bytes of a WireGuard message, the three tasks of a running
  tunnel, and the check of an endpoint: a handshake, then two packets through the data plane.
  The boringtun crate is the parameter \<open>ops\<close>: the three calls of \<open>Tunn\<close> on a state of any
  type. What goes to the socket is a log; a task the code spawns and does not wait for is a
  log entry of its own, since its sends interleave with everything that follows. The state of
  the random generator is the number of draws.
\<close>

definition WG_MSG_TYPE_MIN :: u8 where "WG_MSG_TYPE_MIN = 1"
definition WG_MSG_TYPE_MAX :: u8 where "WG_MSG_TYPE_MAX = 4"

definition is_wg_message :: "bytes \<Rightarrow> bool" where
  "is_wg_message pkt \<longleftrightarrow> 4 \<le> length pkt \<and> \<not> (pkt ! 0 < WG_MSG_TYPE_MIN \<or> WG_MSG_TYPE_MAX < pkt ! 0)"

definition set_reserved :: "bytes \<Rightarrow> bytes \<Rightarrow> bytes" where
  "set_reserved pkt three = take 1 pkt @ three @ drop 4 pkt"

definition inject_client_id :: "bytes \<Rightarrow> bytes \<Rightarrow> bytes" where
  "inject_client_id pkt client_id =
     (if length pkt < 4 then pkt
      else if pkt ! 0 < WG_MSG_TYPE_MIN \<or> WG_MSG_TYPE_MAX < pkt ! 0 then pkt
      else set_reserved pkt client_id)"

definition strip_client_id :: "bytes \<Rightarrow> bytes" where
  "strip_client_id pkt =
     (if length pkt < 4 then pkt
      else if pkt ! 0 < WG_MSG_TYPE_MIN \<or> WG_MSG_TYPE_MAX < pkt ! 0 then pkt
      else set_reserved pkt [0, 0, 0])"

subsection \<open>The interface of boringtun\<close>

datatype tunn_result = Done | TunnErr str | WriteToNetwork bytes | WriteToTunnelV4 bytes | WriteToTunnelV6 bytes

record 't tunn_ops =
  encapsulate :: "bytes \<Rightarrow> 't \<Rightarrow> 't \<times> tunn_result"
  decapsulate :: "bytes \<Rightarrow> 't \<Rightarrow> 't \<times> tunn_result"
  update_timers :: "'t \<Rightarrow> 't \<times> tunn_result"

text \<open>The environment of a tunnel that does not change: crates, generator, configuration.\<close>

record 't wg_env =
  boring :: "'t tunn_ops"
  hexd :: "str \<Rightarrow> bytes option"
  captures :: "str \<Rightarrow> (str \<times> str) list"
  gen :: rng
  obf :: aethernoize_config
  client_id :: bytes

subsection \<open>A running tunnel\<close>

text \<open>
  \<open>Wire p\<close>: a task sent \<open>p\<close>; \<open>Obfuscation as\<close>: the send task ran the obfuscation;
  \<open>Spawned as p\<close>: a task was spawned that does \<open>as\<close> and then sends \<open>p\<close>, if any.
\<close>

datatype wire = Wire bytes | Obfuscation "action list" | Spawned "action list" "bytes option"

record 't wg_tunnel =
  tunn :: 't
  obf_sent :: bool
  wires :: "wire list"
  inbound :: "bytes list"
  draws :: nat

definition wg_tunnel_new :: "'t \<Rightarrow> nat \<Rightarrow> 't wg_tunnel" where
  "wg_tunnel_new t k = \<lparr>tunn = t, obf_sent = False, wires = [], inbound = [], draws = k\<rparr>"

definition wg_tunnel_from_established :: "'t \<Rightarrow> nat \<Rightarrow> 't wg_tunnel" where
  "wg_tunnel_from_established t k = \<lparr>tunn = t, obf_sent = True, wires = [], inbound = [], draws = k\<rparr>"

definition emit :: "wire \<Rightarrow> 't wg_tunnel \<Rightarrow> 't wg_tunnel" where
  "emit w s = s\<lparr>wires := wires s @ [w]\<rparr>"

text \<open>Running a sender of \<open>Aethernoize\<close>: its actions and the state with its draws taken.\<close>

definition take_actions :: "action list rand \<Rightarrow> 't wg_tunnel \<Rightarrow> action list \<times> 't wg_tunnel" where
  "take_actions m s = (drawn m (draws s), s\<lparr>draws := after m (draws s)\<rparr>)"

text \<open>
  A turn of each task: a datagram at the socket or its failure, an IP packet for the tunnel or
  the end of the channel they come from, a tick of the timer. The function returns as soon as
  one task ends.
\<close>

datatype wg_event = SockRecv "str + bytes" | OutboundRecv "bytes option" | TimerTick

definition recv_turn :: "'t wg_env \<Rightarrow> bytes \<Rightarrow> 't wg_tunnel \<Rightarrow> 't wg_tunnel" where
  "recv_turn e d s =
     (let (t, r) = decapsulate (boring e) (strip_client_id d) (tunn s); s = s\<lparr>tunn := t\<rparr> in
      case r of
        Done \<Rightarrow> s
      | TunnErr _ \<Rightarrow> s
      | WriteToNetwork pkt \<Rightarrow> emit (Wire (inject_client_id pkt (client_id e))) s
      | WriteToTunnelV4 pkt \<Rightarrow> s\<lparr>inbound := inbound s @ [pkt]\<rparr>
      | WriteToTunnelV6 pkt \<Rightarrow> s\<lparr>inbound := inbound s @ [pkt]\<rparr>)"

definition send_turn :: "'t wg_env \<Rightarrow> bytes \<Rightarrow> 't wg_tunnel \<Rightarrow> 't wg_tunnel" where
  "send_turn e ip_packet s =
     (let (t, r) = encapsulate (boring e) ip_packet (tunn s); s = s\<lparr>tunn := t\<rparr> in
      case r of
        WriteToNetwork pkt \<Rightarrow>
          (let pkt = inject_client_id pkt (client_id e);
               s = (if \<not> obf_sent s \<and> aethernoize_enabled (obf e) then
                      (let (as, s) = take_actions (apply_obfuscation (hexd e) (captures e) (gen e) (obf e))
                                       (s\<lparr>obf_sent := True\<rparr>)
                       in emit (Obfuscation as) s)
                    else s);
               s = emit (Wire pkt) s
           in if 0 < an_jc_after_hs (obf e) then
                (let (as, s) = take_actions (send_post_handshake_junk (gen e) (obf e)) s
                 in emit (Spawned as None) s)
              else s)
      | _ \<Rightarrow> s)"

definition timer_turn :: "'t wg_env \<Rightarrow> 't wg_tunnel \<Rightarrow> 't wg_tunnel" where
  "timer_turn e s =
     (let (t, r) = update_timers (boring e) (tunn s); s = s\<lparr>tunn := t\<rparr> in
      case r of
        WriteToNetwork pkt \<Rightarrow>
          (let pkt = inject_client_id pkt (client_id e) in
           if aethernoize_enabled (obf e) then
             (let (as, s) = take_actions (send_keepalive_junk (gen e) (obf e)) s
              in emit (Spawned as (Some pkt)) s)
           else emit (Wire pkt) s)
      | _ \<Rightarrow> s)"

fun wg_step :: "'t wg_env \<Rightarrow> wg_event \<Rightarrow> 't wg_tunnel \<Rightarrow> ('t wg_tunnel, 't wg_tunnel) ctl" where
  "wg_step e (SockRecv r) s = (case r of Inr d \<Rightarrow> Go (recv_turn e d s) | Inl _ \<Rightarrow> Stop s)"
| "wg_step e (OutboundRecv m) s = (case m of Some p \<Rightarrow> Go (send_turn e p s) | None \<Rightarrow> Stop s)"
| "wg_step e TimerTick s = Go (timer_turn e s)"

subsection \<open>The data-plane check\<close>

definition DATAPLANE_REQUIRED_SUCCESSES :: nat where "DATAPLANE_REQUIRED_SUCCESSES = 2"
definition DATAPLANE_PROBE_GAP :: nat where "DATAPLANE_PROBE_GAP = 600"

text \<open>
  A turn of the loops that check an endpoint: the time it starts, what the \<open>select!\<close> yields
  (with the time it yields), and whether the sends whose failure ends the check fail.
\<close>

datatype arrival = Arrived nat "str + bytes" | Slept

record turn =
  now :: nat
  arrival :: arrival
  reply_err :: "str option"
  probe_err :: "str option"

text \<open>\<open>send_dataplane_probe\<close>: the new state of the tunnel, what it sent, and its result.\<close>

definition send_dataplane_probe :: "'t tunn_ops \<Rightarrow> bytes \<Rightarrow> bytes \<Rightarrow> str option \<Rightarrow> 't \<Rightarrow> 't \<times> bytes list \<times> unit result" where
  "send_dataplane_probe ops cid probe err t =
     (let (t, r) = encapsulate ops probe t in
      case r of
        WriteToNetwork pkt \<Rightarrow>
          (t, [inject_client_id pkt cid], (case err of None \<Rightarrow> Inr () | Some e \<Rightarrow> Inl (Io e)))
      | TunnErr e \<Rightarrow> (t, [], Inl (Other (''dataplane encap: '' @ e)))
      | _ \<Rightarrow> (t, [], Inr ()))"

record 't dataplane =
  dp_tunn :: 't
  dp_net :: "bytes list"
  successes :: nat
  last_probe_at :: nat
  resend_at :: nat

text \<open>The probe whose result is ignored.\<close>

definition dp_probe :: "'t tunn_ops \<Rightarrow> bytes \<Rightarrow> bytes \<Rightarrow> 't dataplane \<Rightarrow> 't dataplane" where
  "dp_probe ops cid probe s =
     (let (t, out, _) = send_dataplane_probe ops cid probe None (dp_tunn s)
      in s\<lparr>dp_tunn := t, dp_net := dp_net s @ out\<rparr>)"

definition dp_start :: "'t tunn_ops \<Rightarrow> bytes \<Rightarrow> bytes \<Rightarrow> str option \<Rightarrow> nat \<Rightarrow> 't \<Rightarrow> bytes list \<Rightarrow> 't dataplane result" where
  "dp_start ops cid probe err at_time t net =
     (let (t, out, r) = send_dataplane_probe ops cid probe err t in
      case r of
        Inl e \<Rightarrow> Inl e
      | Inr _ \<Rightarrow> Inr \<lparr>dp_tunn = t, dp_net = net @ out, successes = 0, last_probe_at = at_time, resend_at = at_time + 700\<rparr>)"

definition dp_recv :: "'t tunn_ops \<Rightarrow> bytes \<Rightarrow> bytes \<Rightarrow> nat \<Rightarrow> nat \<Rightarrow> bytes \<Rightarrow> 't dataplane \<Rightarrow> ('t dataplane, nat result) ctl" where
  "dp_recv ops cid probe start at_time d s =
     (let (t, r) = decapsulate ops (strip_client_id d) (dp_tunn s); s = s\<lparr>dp_tunn := t\<rparr>;
          confirmed =
            (let s = s\<lparr>successes := successes s + 1\<rparr> in
             if DATAPLANE_REQUIRED_SUCCESSES \<le> successes s then Stop (Inr (at_time - start))
             else
               (let next_at = max at_time (last_probe_at s + DATAPLANE_PROBE_GAP);
                    s = dp_probe ops cid probe s
                in Go (s\<lparr>last_probe_at := next_at, resend_at := next_at + 700\<rparr>)))
      in case r of
           WriteToTunnelV4 _ \<Rightarrow> confirmed
         | WriteToTunnelV6 _ \<Rightarrow> confirmed
         | WriteToNetwork pkt \<Rightarrow> Go (s\<lparr>dp_net := dp_net s @ [inject_client_id pkt cid]\<rparr>)
         | _ \<Rightarrow> Go s)"

definition dp_resend :: "'t tunn_ops \<Rightarrow> bytes \<Rightarrow> bytes \<Rightarrow> nat \<Rightarrow> 't dataplane \<Rightarrow> 't dataplane" where
  "dp_resend ops cid probe t s =
     (if resend_at s \<le> t then (dp_probe ops cid probe s)\<lparr>last_probe_at := t, resend_at := t + 700\<rparr> else s)"

definition dp_step :: "'t tunn_ops \<Rightarrow> bytes \<Rightarrow> bytes \<Rightarrow> nat \<Rightarrow> nat \<Rightarrow> turn \<Rightarrow> 't dataplane \<Rightarrow> ('t dataplane, nat result) ctl" where
  "dp_step ops cid probe start deadline e s =
     (if deadline \<le> now e then Stop (Inl (Other ''dataplane timeout''))
      else
        (let s = dp_resend ops cid probe (now e) s
         in case arrival e of
              Arrived t (Inl err) \<Rightarrow> Stop (Inl (Io err))
            | Arrived t (Inr d) \<Rightarrow> dp_recv ops cid probe start t d s
            | Slept \<Rightarrow> Go s))"

subsection \<open>The check of an endpoint\<close>

text \<open>Waiting for the handshake, then, unless the data check is switched off, for the data plane.\<close>

datatype 't verify = Handshake 't "bytes list" | Dataplane "'t dataplane"

definition verify_init :: "'t tunn_ops \<Rightarrow> bytes \<Rightarrow> str option \<Rightarrow> 't \<Rightarrow> 't verify result" where
  "verify_init ops cid err t =
     (let (t, r) = encapsulate ops [] t in
      case r of
        WriteToNetwork pkt \<Rightarrow>
          (case err of
             None \<Rightarrow> Inr (Handshake t [inject_client_id pkt cid])
           | Some e \<Rightarrow> Inl (Io e))
      | _ \<Rightarrow> Inl (Other ''handshake init failed''))"

definition handshake_done :: "'t tunn_ops \<Rightarrow> bytes \<Rightarrow> bytes \<Rightarrow> bool \<Rightarrow> nat \<Rightarrow> nat \<Rightarrow> str option \<Rightarrow> 't \<Rightarrow> bytes list
    \<Rightarrow> ('t verify, nat result) ctl" where
  "handshake_done ops cid probe data_check start at_time err t net =
     (if data_check then
        (case dp_start ops cid probe err at_time t net of
           Inl e \<Rightarrow> Stop (Inl e)
         | Inr s \<Rightarrow> Go (Dataplane s))
      else Stop (Inr (at_time - start)))"

fun verify_step :: "'t tunn_ops \<Rightarrow> bytes \<Rightarrow> bytes \<Rightarrow> bool \<Rightarrow> nat \<Rightarrow> nat \<Rightarrow> turn \<Rightarrow> 't verify
    \<Rightarrow> ('t verify, nat result) ctl" where
  "verify_step ops cid probe data_check start deadline e (Handshake t net) =
     (if deadline \<le> now e then Stop (Inl (Other ''verify timeout''))
      else
        (case arrival e of
           Slept \<Rightarrow> Stop (Inl (Other ''verify timeout''))
         | Arrived at_time (Inl err) \<Rightarrow> Stop (Inl (Io err))
         | Arrived at_time (Inr d) \<Rightarrow>
             (let (t, r) = decapsulate ops (strip_client_id d) t in
              case r of
                Done \<Rightarrow> handshake_done ops cid probe data_check start at_time (probe_err e) t net
              | WriteToNetwork pkt \<Rightarrow>
                  (case reply_err e of
                     Some err \<Rightarrow> Stop (Inl (Io err))
                   | None \<Rightarrow>
                       handshake_done ops cid probe data_check start at_time (probe_err e) t
                         (net @ [inject_client_id pkt cid]))
              | _ \<Rightarrow> Go (Handshake t net))))"
| "verify_step ops cid probe data_check start deadline e (Dataplane s) =
     (case dp_step ops cid probe start deadline e s of Go s \<Rightarrow> Go (Dataplane s) | Stop r \<Rightarrow> Stop r)"

text \<open>
  \<open>verify_endpoint_keep_session\<close> from the bound socket on: the obfuscation, the handshake
  initiation and the loop. The probe is built when the data check starts; its random fields
  are \<open>ids\<close>.
\<close>

definition verify_endpoint_keep_session ::
  "'t wg_env \<Rightarrow> str option \<Rightarrow> (u16 \<times> u16 \<times> u16) \<Rightarrow> u32 \<Rightarrow> nat \<Rightarrow> nat \<Rightarrow> nat \<Rightarrow> str option \<Rightarrow> 't \<Rightarrow> turn list
    \<Rightarrow> action list \<times> ('t verify, nat result) ctl" where
  "verify_endpoint_keep_session e no_data_check ids local_ipv4 start timeout k init_err t turns =
     (let data_check = (no_data_check = None);
          deadline = start + timeout;
          as = (if aethernoize_enabled (obf e)
                then drawn (apply_obfuscation (hexd e) (captures e) (gen e) (obf e)) k else []);
          probe = (case ids of (dns_id, ip_id, sport) \<Rightarrow> build_dataplane_probe dns_id ip_id sport local_ipv4)
      in (as,
          (case verify_init (boring e) (client_id e) init_err t of
             Inl err \<Rightarrow> Stop (Inl err)
           | Inr v \<Rightarrow> run_loop (verify_step (boring e) (client_id e) probe data_check start deadline) turns v)))"

subsection \<open>The client id\<close>

lemma length_set_reserved [simp]: "length three = 3 \<Longrightarrow> 4 \<le> length p \<Longrightarrow> length (set_reserved p three) = length p"
  by (simp add: set_reserved_def)

lemma set_reserved_first [simp]: "4 \<le> length p \<Longrightarrow> set_reserved p three ! 0 = p ! 0"
  by (simp add: set_reserved_def nth_append)

lemma set_reserved_twice:
  "length a = 3 \<Longrightarrow> 4 \<le> length p \<Longrightarrow> set_reserved (set_reserved p a) b = set_reserved p b"
  by (simp add: set_reserved_def min_def)

lemma set_reserved_field: "length a = 3 \<Longrightarrow> 4 \<le> length p \<Longrightarrow> take 3 (drop (Suc 0) (set_reserved p a)) = a"
  by (simp add: set_reserved_def min_def)

lemma set_reserved_same:
  assumes "4 \<le> length p"
  shows "set_reserved p (take 3 (drop 1 p)) = p"
proof -
  have "take 3 (drop 1 p) @ drop 4 p = drop 1 p"
    using append_take_drop_id [of 3 "drop 1 p"] by simp
  then show ?thesis unfolding set_reserved_def by (metis append_take_drop_id)
qed

lemma inject_eq: "inject_client_id p cid = (if is_wg_message p then set_reserved p cid else p)"
  by (simp add: inject_client_id_def is_wg_message_def)

lemma strip_eq: "strip_client_id p = (if is_wg_message p then set_reserved p [0, 0, 0] else p)"
  by (simp add: strip_client_id_def is_wg_message_def)

lemma is_wg_message_reserved [simp]:
  "length a = 3 \<Longrightarrow> is_wg_message p \<Longrightarrow> is_wg_message (set_reserved p a)"
  by (simp add: is_wg_message_def)

lemma not_wireguard_message: "not_wireguard p \<Longrightarrow> \<not> is_wg_message p"
  by (cases p) (auto simp: not_wireguard_def is_wg_message_def WG_MSG_TYPE_MIN_def WG_MSG_TYPE_MAX_def
      word_le_nat_alt word_less_nat_alt)

subsection \<open>The invariant of a running tunnel\<close>

definition tagged :: "bytes \<Rightarrow> bytes \<Rightarrow> bool" where
  "tagged cid p \<longleftrightarrow> is_wg_message p \<longrightarrow> take 3 (drop 1 p) = cid"

fun wire_ok :: "bytes \<Rightarrow> wire \<Rightarrow> bool" where
  "wire_ok cid (Wire p) = tagged cid p"
| "wire_ok cid (Obfuscation as) = True"
| "wire_ok cid (Spawned as None) = True"
| "wire_ok cid (Spawned as (Some p)) = (tagged cid p \<and> list_all not_wireguard (sends as))"

definition is_obfuscation :: "wire \<Rightarrow> bool" where
  "is_obfuscation w = (case w of Obfuscation _ \<Rightarrow> True | _ \<Rightarrow> False)"

lemma is_obfuscation_simps [simp]:
  "\<not> is_obfuscation (Wire p)" "is_obfuscation (Obfuscation as)" "\<not> is_obfuscation (Spawned as q)"
  by (simp_all add: is_obfuscation_def)

text \<open>\<open>b\<close> is how often the tunnel may still obfuscate when it starts: once, or not at all.\<close>

definition wg_inv :: "bytes \<Rightarrow> nat \<Rightarrow> 't wg_tunnel \<Rightarrow> bool" where
  "wg_inv cid b s \<longleftrightarrow>
     list_all (wire_ok cid) (wires s)
     \<and> length (filter is_obfuscation (wires s)) + (if obf_sent s then 0 else 1) \<le> b"

lemma tagged_inject: "length cid = 3 \<Longrightarrow> tagged cid (inject_client_id p cid)"
  by (auto simp: tagged_def inject_eq set_reserved_field is_wg_message_def)

lemma wg_inv_emit:
  "wg_inv cid b s \<Longrightarrow> wire_ok cid w \<Longrightarrow> \<not> is_obfuscation w \<Longrightarrow> wg_inv cid b (emit w s)"
  by (simp add: wg_inv_def emit_def)

lemma wg_inv_obfuscate:
  "wg_inv cid b s \<Longrightarrow> \<not> obf_sent s \<Longrightarrow> wg_inv cid b (emit (Obfuscation as) (s\<lparr>obf_sent := True, draws := k\<rparr>))"
  by (simp add: wg_inv_def emit_def)

lemma wg_inv_update [simp]:
  "wg_inv cid b (s\<lparr>tunn := t\<rparr>) = wg_inv cid b s" "wg_inv cid b (s\<lparr>draws := k\<rparr>) = wg_inv cid b s"
  "wg_inv cid b (s\<lparr>inbound := q\<rparr>) = wg_inv cid b s"
  by (simp_all add: wg_inv_def)

lemma keepalive_not_wireguard: "list_all not_wireguard (sends (drawn (send_keepalive_junk g c) k))"
  using keepalive_junk_all [of g c k] by (auto simp: list_all_iff Let_def)

lemma recv_turn_inv: "length (client_id e) = 3 \<Longrightarrow> wg_inv (client_id e) b s \<Longrightarrow> wg_inv (client_id e) b (recv_turn e d s)"
  by (auto simp: recv_turn_def Let_def tagged_inject intro!: wg_inv_emit split: prod.split tunn_result.split)

lemma timer_turn_inv: "length (client_id e) = 3 \<Longrightarrow> wg_inv (client_id e) b s \<Longrightarrow> wg_inv (client_id e) b (timer_turn e s)"
  by (auto simp: timer_turn_def Let_def tagged_inject take_actions_def keepalive_not_wireguard intro!: wg_inv_emit
      split: prod.split tunn_result.split)

lemma send_turn_inv: "length (client_id e) = 3 \<Longrightarrow> wg_inv (client_id e) b s \<Longrightarrow> wg_inv (client_id e) b (send_turn e p s)"
  by (auto simp: send_turn_def Let_def tagged_inject take_actions_def intro!: wg_inv_emit wg_inv_obfuscate
      split: prod.split tunn_result.split)

interpretation wg: event_loop "wg_step e" "\<lambda>s. length (client_id e) = 3 \<and> wg_inv (client_id e) b s"
    "\<lambda>s. wg_inv (client_id e) b s" "\<lambda>_. True" for e b
proof
  fix ev :: wg_event and s :: "'a wg_tunnel" and s' r
  assume s: "length (client_id e) = 3 \<and> wg_inv (client_id e) b s"
  show "wg_step e ev s = Go s' \<Longrightarrow> length (client_id e) = 3 \<and> wg_inv (client_id e) b s'"
    using s by (cases ev) (auto intro: recv_turn_inv send_turn_inv timer_turn_inv split: sum.splits option.splits)
  show "wg_step e ev s = Stop r \<Longrightarrow> wg_inv (client_id e) b r"
    using s by (cases ev) (auto split: sum.splits option.splits)
qed

subsection \<open>The data-plane check counts its confirmations\<close>

definition is_tunnel :: "tunn_result \<Rightarrow> bool" where
  "is_tunnel r = (case r of WriteToTunnelV4 _ \<Rightarrow> True | WriteToTunnelV6 _ \<Rightarrow> True | _ \<Rightarrow> False)"

text \<open>A turn confirms the data plane when a datagram of the peer decapsulates to an IP packet.\<close>

definition dp_confirms :: "'t tunn_ops \<Rightarrow> bytes \<Rightarrow> bytes \<Rightarrow> nat \<Rightarrow> turn \<Rightarrow> 't dataplane \<Rightarrow> bool" where
  "dp_confirms ops cid probe deadline e s \<longleftrightarrow>
     now e < deadline \<and>
     (case arrival e of
        Arrived t (Inr d) \<Rightarrow> is_tunnel (snd (decapsulate ops (strip_client_id d) (dp_tunn (dp_resend ops cid probe (now e) s))))
      | _ \<Rightarrow> False)"

lemma dp_keeps_successes [simp]:
  "successes (dp_probe ops cid probe s) = successes s"
  "successes (dp_resend ops cid probe t s) = successes s"
  by (simp_all add: dp_probe_def dp_resend_def split: prod.split)

lemma dp_recv_counts:
  assumes "successes s < 2"
  shows "dp_recv ops cid probe start t d s = Go s' \<Longrightarrow>
      successes s' = successes s + (if is_tunnel (snd (decapsulate ops (strip_client_id d) (dp_tunn s))) then 1 else 0)
      \<and> successes s' < 2"
    and "dp_recv ops cid probe start t d s = Stop r \<Longrightarrow>
      is_tunnel (snd (decapsulate ops (strip_client_id d) (dp_tunn s))) \<and> successes s + 1 = 2"
  using assms
  by (auto simp: dp_recv_def Let_def is_tunnel_def DATAPLANE_REQUIRED_SUCCESSES_def
      split: prod.splits tunn_result.splits if_splits)

interpretation dp: confirming_loop "dp_step ops cid probe start deadline" "dp_confirms ops cid probe deadline"
    successes is_ok 2 for ops cid probe start deadline
proof
  fix s :: "'a dataplane" and e :: turn and s' r assume s: "successes s < 2"
  let ?s = "dp_resend ops cid probe (now e) s"
  have s': "successes ?s < 2" using s by simp
  show "dp_step ops cid probe start deadline e s = Go s' \<Longrightarrow>
      successes s' = successes s + (if dp_confirms ops cid probe deadline e s then 1 else 0) \<and> successes s' < 2"
    using s
    by (auto simp: dp_step_def dp_confirms_def Let_def dest!: dp_recv_counts(1) [OF s']
        split: if_splits arrival.splits sum.splits)
  show "dp_step ops cid probe start deadline e s = Stop r \<Longrightarrow> is_ok r \<Longrightarrow>
      dp_confirms ops cid probe deadline e s \<and> successes s + 1 = 2"
    by (auto simp: dp_step_def dp_confirms_def Let_def dest!: dp_recv_counts(2) [OF s']
        split: if_splits arrival.splits sum.splits)
qed

definition verify_confirms :: "'t tunn_ops \<Rightarrow> bytes \<Rightarrow> bytes \<Rightarrow> nat \<Rightarrow> turn \<Rightarrow> 't verify \<Rightarrow> bool" where
  "verify_confirms ops cid probe deadline e v =
     (case v of Handshake _ _ \<Rightarrow> False | Dataplane s \<Rightarrow> dp_confirms ops cid probe deadline e s)"

definition verify_successes :: "'t verify \<Rightarrow> nat" where
  "verify_successes v = (case v of Handshake _ _ \<Rightarrow> 0 | Dataplane s \<Rightarrow> successes s)"

lemma handshake_done_starts:
  "handshake_done ops cid probe True start t err tn net = Go v \<Longrightarrow> verify_successes v = 0"
  "handshake_done ops cid probe True start t err tn net = Stop r \<Longrightarrow> \<not> is_ok r"
  by (auto simp: handshake_done_def dp_start_def verify_successes_def split: prod.splits sum.splits)

lemma verify_handshake_cases:
  assumes c: "verify_step ops cid probe dc start deadline e (Handshake t net) = c"
  obtains (error) err where "c = Stop (Inl err)"
    | (waiting) t' net' where "c = Go (Handshake t' net')"
    | (shaken) at_time t' net' where "handshake_done ops cid probe dc start at_time (probe_err e) t' net' = c"
proof (cases "deadline \<le> now e")
  case True
  then show ?thesis using error c by auto
next
  case False
  show ?thesis
  proof (cases "arrival e")
    case Slept
    then show ?thesis using error False c by auto
  next
    case (Arrived at_time x)
    show ?thesis
    proof (cases x)
      case (Inl err)
      then show ?thesis using error False Arrived c by auto
    next
      case (Inr d)
      obtain t' r where r: "decapsulate ops (strip_client_id d) t = (t', r)" by fastforce
      show ?thesis
      proof (cases r)
        case Done
        then show ?thesis using shaken False Arrived Inr r c by auto
      next
        case (WriteToNetwork pkt)
        then show ?thesis
          using shaken [of at_time t' "net @ [inject_client_id pkt cid]"] error False Arrived Inr r c
          by (cases "reply_err e") auto
      qed (use waiting False Arrived Inr r c in auto)
    qed
  qed
qed

lemma handshake_counts:
  "verify_step ops cid probe True start deadline e (Handshake t net) = Go v \<Longrightarrow> verify_successes v = 0"
proof (erule verify_handshake_cases)
  fix t' net' assume "Go v = Go (Handshake t' net')"
  then show "verify_successes v = 0" by (simp add: verify_successes_def)
qed (simp_all add: handshake_done_starts(1))

lemma handshake_stops:
  "verify_step ops cid probe True start deadline e (Handshake t net) = Stop r \<Longrightarrow> \<not> is_ok r"
proof (erule verify_handshake_cases)
  fix err :: aether_error assume "Stop r = Stop (Inl err)"
  then show "\<not> is_ok r" by simp
qed (simp_all add: handshake_done_starts(2))

interpretation verify: confirming_loop "verify_step ops cid probe True start deadline"
    "verify_confirms ops cid probe deadline" verify_successes is_ok 2 for ops cid probe start deadline
proof
  fix v :: "'a verify" and e :: turn and v' r assume v: "verify_successes v < 2"
  show "verify_step ops cid probe True start deadline e v = Go v' \<Longrightarrow>
      verify_successes v' = verify_successes v + (if verify_confirms ops cid probe deadline e v then 1 else 0)
      \<and> verify_successes v' < 2"
  proof (cases v)
    case (Handshake t net)
    have "verify_successes v = 0" "\<not> verify_confirms ops cid probe deadline e v"
      by (simp_all add: Handshake verify_successes_def verify_confirms_def)
    then show "verify_step ops cid probe True start deadline e v = Go v' \<Longrightarrow>
      verify_successes v' = verify_successes v + (if verify_confirms ops cid probe deadline e v then 1 else 0)
      \<and> verify_successes v' < 2"
      using handshake_counts [of ops cid probe start deadline e t net v'] unfolding Handshake
      by (simp del: verify_step.simps)
  next
    case (Dataplane s)
    show "verify_successes v' = verify_successes v + (if verify_confirms ops cid probe deadline e v then 1 else 0)
      \<and> verify_successes v' < 2" if go: "verify_step ops cid probe True start deadline e v = Go v'"
    proof -
      obtain s' where s': "dp_step ops cid probe start deadline e s = Go s'" "v' = Dataplane s'"
        using go unfolding Dataplane by (auto split: ctl.splits)
      have "successes s < 2" using v by (simp add: Dataplane verify_successes_def)
      from dp.step_counts [OF this s'(1)] show ?thesis
        by (simp add: Dataplane s'(2) verify_confirms_def verify_successes_def)
    qed
  qed
  show "verify_step ops cid probe True start deadline e v = Stop r \<Longrightarrow> is_ok r \<Longrightarrow>
      verify_confirms ops cid probe deadline e v \<and> verify_successes v + 1 = 2"
  proof (cases v)
    case (Handshake t net)
    show "verify_confirms ops cid probe deadline e v \<and> verify_successes v + 1 = 2"
      if "verify_step ops cid probe True start deadline e v = Stop r" "is_ok r"
      using handshake_stops [OF that(1) [unfolded Handshake]] that(2) by contradiction
  next
    case (Dataplane s)
    show "verify_confirms ops cid probe deadline e v \<and> verify_successes v + 1 = 2"
      if "verify_step ops cid probe True start deadline e v = Stop r" "is_ok r"
    proof -
      have s: "dp_step ops cid probe start deadline e s = Stop r"
        using that(1) unfolding Dataplane by (auto split: ctl.splits)
      have "successes s < 2" using v by (simp add: Dataplane verify_successes_def)
      from dp.step_confirms [OF this s that(2)] show ?thesis
        by (simp add: Dataplane verify_confirms_def verify_successes_def)
    qed
  qed
qed

text \<open>No turn goes on once the deadline has passed.\<close>

lemma verify_step_deadline: "verify_step ops cid probe dc start deadline e v = Go v' \<Longrightarrow> now e < deadline"
  by (cases v) (auto simp: dp_step_def split: if_splits ctl.splits)

lemma verify_run_deadline:
  "run_loop (verify_step ops cid probe dc start deadline) es v = Go v' \<Longrightarrow> list_all (\<lambda>e. now e < deadline) es"
proof (induction es arbitrary: v)
  case (Cons e es)
  then obtain v1 where v1: "verify_step ops cid probe dc start deadline e v = Go v1" by (auto split: ctl.splits)
  then show ?case using Cons.IH [of v1] Cons.prems verify_step_deadline [OF v1] by simp
qed simp

subsection \<open>Properties\<close>

text \<open>The client id travels in the reserved bytes and nowhere else: injecting it keeps the
  length of a packet, tags every WireGuard message, changes nothing else, and is undone by
  stripping on a message whose reserved bytes were zero; packets that are no WireGuard message,
  as the junk of the obfuscation, pass both unchanged.\<close>

theorem client_id_roundtrip:
  assumes "length cid = 3"
  shows "strip_client_id (inject_client_id p cid) = strip_client_id p
    \<and> length (inject_client_id p cid) = length p \<and> tagged cid (inject_client_id p cid)
    \<and> (if is_wg_message p
       then take 3 (drop 1 p) = [0, 0, 0] \<longrightarrow> strip_client_id (inject_client_id p cid) = p
       else inject_client_id p cid = p \<and> strip_client_id p = p)"
proof (cases "is_wg_message p")
  case True
  then have len: "4 \<le> length p" by (simp add: is_wg_message_def)
  then have "strip_client_id (inject_client_id p cid) = set_reserved p [0, 0, 0]"
    using True assms by (simp add: inject_eq strip_eq set_reserved_twice)
  moreover have "take 3 (drop 1 p) = [0, 0, 0] \<Longrightarrow> set_reserved p [0, 0, 0] = p"
    using set_reserved_same [OF len] by simp
  ultimately show ?thesis
    using True assms len tagged_inject [OF assms, of p] by (simp add: inject_eq strip_eq)
next
  case False
  then show ?thesis using tagged_inject [OF assms, of p] by (simp add: inject_eq strip_eq)
qed

theorem client_id_roundtrip_witness:
  "strip_client_id (inject_client_id [1, 0, 0, 0, 9, 8] [7, 7, 7]) = [1, 0, 0, 0, 9, 8]"
proof -
  let ?p = "[1, 0, 0, 0, 9, 8] :: bytes"
  have w: "is_wg_message ?p" by (simp add: is_wg_message_def WG_MSG_TYPE_MIN_def WG_MSG_TYPE_MAX_def)
  have "length ([7, 7, 7] :: bytes) = 3" by simp
  from client_id_roundtrip [OF this, of ?p]
  have "take 3 (drop 1 ?p) = [0, 0, 0] \<longrightarrow> strip_client_id (inject_client_id ?p [7, 7, 7]) = ?p"
    unfolding if_P [OF w] by (elim conjE)
  then show ?thesis by simp
qed

text \<open>A property of the state a loop is in, whether it goes on or has stopped.\<close>

definition loop_end :: "('s \<Rightarrow> bool) \<Rightarrow> ('s, 's) ctl \<Rightarrow> bool" where
  "loop_end P c = (case c of Go s \<Rightarrow> P s | Stop s \<Rightarrow> P s)"

lemma wg_run_inv:
  assumes "length (client_id e) = 3" and "wg_inv (client_id e) b s"
  shows "loop_end (wg_inv (client_id e) b) (run_loop (wg_step e) evs s)"
proof (cases "run_loop (wg_step e) evs s")
  case (Go s')
  then show ?thesis using wg.run_Go [of evs e b s s'] assms by (simp add: loop_end_def)
next
  case (Stop s')
  then show ?thesis using wg.run_Stop [of evs e b s s'] assms by (simp add: loop_end_def)
qed

text \<open>C15. A running tunnel, whatever boringtun does and in whatever order packets, timers and
  datagrams come: every WireGuard message it sends carries the client id, the junk that goes
  before a keepalive is never a WireGuard message, and it runs the obfuscation at most once, or
  never when it took over a session that was already verified.\<close>

theorem tunnel_wires_safe:
  assumes "length (client_id e) = 3"
  shows "loop_end (wg_inv (client_id e) 1) (run_loop (wg_step e) evs (wg_tunnel_new t k))
    \<and> loop_end (wg_inv (client_id e) 0) (run_loop (wg_step e) evs (wg_tunnel_from_established t k))"
proof -
  have "wg_inv (client_id e) 1 (wg_tunnel_new t k)" "wg_inv (client_id e) 0 (wg_tunnel_from_established t k)"
    by (simp_all add: wg_inv_def wg_tunnel_new_def wg_tunnel_from_established_def)
  then show ?thesis using wg_run_inv [OF assms] by blast
qed

text \<open>A boringtun of one key pair that seals nothing: what it sends it receives.\<close>

definition plain_tunn :: "nat tunn_ops" where
  "plain_tunn = \<lparr>encapsulate = (\<lambda>p t. (t + 1, WriteToNetwork ([4, 0, 0, 0] @ p))),
     decapsulate = (\<lambda>d t. (t, if t = 0 then Done else WriteToTunnelV4 (drop 4 d))),
     update_timers = (\<lambda>t. (t, Done))\<rparr>"

definition sample_env :: "nat wg_env" where
  "sample_env = \<lparr>boring = plain_tunn, hexd = (\<lambda>_. None), captures = (\<lambda>_. []), gen = (\<lambda>_. 0),
     obf = aethernoize_off, client_id = [7, 8, 9]\<rparr>"

theorem tunnel_wires_safe_witness:
  "loop_end (wg_inv [7, 8, 9] 1) (run_loop (wg_step sample_env)
     [OutboundRecv (Some [69, 1]), SockRecv (Inr [4, 7, 8, 9, 69])] (wg_tunnel_new 1 0))"
proof -
  have e: "client_id sample_env = [7, 8, 9]" by (simp add: sample_env_def)
  then have "length (client_id sample_env) = 3" by simp
  from tunnel_wires_safe [OF this, of _ 1 0] show ?thesis unfolding e by blast
qed

text \<open>C3. An endpoint passes the check, with the data check on, only after two datagrams of the
  peer decapsulated to IP packets within the deadline; and the check ends with its deadline:
  it never goes on with a turn that starts after it.\<close>

theorem verify_endpoint_sound:
  "case run_loop (verify_step ops cid probe True start deadline) turns (Handshake t net) of
     Stop r \<Rightarrow> is_ok r \<longrightarrow>
       count_turns (verify_confirms ops cid probe deadline) (verify_step ops cid probe True start deadline)
         turns (Handshake t net) = 2
   | Go v \<Rightarrow> verify_successes v < 2 \<and> list_all (\<lambda>e. now e < deadline) turns"
proof -
  have s: "verify_successes (Handshake t net) = 0" by (simp add: verify_successes_def)
  show ?thesis
  proof (cases "run_loop (verify_step ops cid probe True start deadline) turns (Handshake t net)")
    case (Go v)
    then show ?thesis
      using verify.run_counts [OF _ Go] s verify_run_deadline [OF Go] by simp
  next
    case (Stop r)
    then show ?thesis
      using verify.run_confirms [OF _ Stop] s by simp
  qed
qed

theorem verify_endpoint_sound_witness:
  "count_turns (verify_confirms plain_tunn [7, 8, 9] [69] 1000) (verify_step plain_tunn [7, 8, 9] [69] True 0 1000)
     [\<lparr>now = 5, arrival = Arrived 10 (Inr [2, 7, 8, 9]), reply_err = None, probe_err = None\<rparr>,
      \<lparr>now = 10, arrival = Arrived 20 (Inr [4, 7, 8, 9, 69]), reply_err = None, probe_err = None\<rparr>,
      \<lparr>now = 20, arrival = Arrived 30 (Inr [4, 7, 8, 9, 69]), reply_err = None, probe_err = None\<rparr>]
     (Handshake 0 []) = 2"
  (is "count_turns _ _ ?es _ = 2")
proof -
  have "run_loop (verify_step plain_tunn [7, 8, 9] [69] True 0 1000) ?es (Handshake 0 []) = Stop (Inr 30)"
    by code_simp
  then show ?thesis
    using verify_endpoint_sound [where ops = plain_tunn and cid = "[7, 8, 9]" and probe = "[69]" and start = 0
        and deadline = 1000 and turns = ?es and t = 0 and net = "[]"] by (simp only: ctl.case is_ok_simps simp_thms)
qed

text \<open>
  The junk after a handshake is spawned after every packet the send task seals, not once after
  the handshake.
\<close>

lemma junk_after_every_packet:
  assumes "0 < an_jc_after_hs (obf e)" and "encapsulate (boring e) p (tunn s) = (t, WriteToNetwork pkt)"
  shows "\<exists>as ws. wires (send_turn e p s) = wires s @ ws @ [Spawned as None]"
  using assms by (auto simp: send_turn_def Let_def take_actions_def emit_def)

end
