(* ===== verification/Cidr.thy ===== *)
theory Cidr
  imports Rng Net_Addr
begin

section \<open>Address blocks (prober.rs)\<close>

text \<open>
  Parsing, enumerating and sampling the address blocks the probers scan. Sampling draws
  offsets until it has enough different ones, a loop that may run forever for an unlucky
  generator: it is a partial function, so that not returning is the value \<open>None\<close>, and it is
  shown to return for every generator that keeps drawing every value.
\<close>

definition parse_cidr_v4 :: "str \<Rightarrow> (u32 \<times> nat) option" where
  "parse_cidr_v4 cidr = do {
     (ip, prefix) \<leftarrow> split_once (CHR ''/'') cidr;
     a \<leftarrow> parse_ipv4 ip;
     p \<leftarrow> parse_uint 8 prefix;
     Some (a, p)
   }"

text \<open>\<open>saturating_sub\<close> on \<open>u32\<close> is subtraction of natural numbers.\<close>

definition enumerate_cidr_v4 :: "str \<Rightarrow> u32 list" where
  "enumerate_cidr_v4 cidr =
     (case parse_cidr_v4 cidr of
        None \<Rightarrow> []
      | Some (base, prefix) \<Rightarrow>
          (let host_bits = 32 - prefix in
           if host_bits = 0 then [base]
           else if 12 < host_bits then []
           else
             (let size = 2 ^ host_bits :: nat
              in map (\<lambda>off. base + word_of_nat off) [1..<size - 1])))"

partial_function (option) sample_loop :: "rng \<Rightarrow> u32 \<Rightarrow> nat \<Rightarrow> nat \<Rightarrow> nat list \<Rightarrow> u32 list \<Rightarrow> nat \<Rightarrow> (u32 list \<times> nat) option" where
  "sample_loop g base usable want chosen out k =
     (if length out < want then
        (let off = 1 + in_range 0 (usable - 1) (g k) in
         if off \<notin> set chosen
         then sample_loop g base usable want (off # chosen) (out @ [base + word_of_nat off]) (Suc k)
         else sample_loop g base usable want chosen out (Suc k))
      else Some (out, k))"

definition sample_cidr_v4 :: "rng \<Rightarrow> str \<Rightarrow> nat \<Rightarrow> nat \<Rightarrow> (u32 list \<times> nat) option" where
  "sample_cidr_v4 g cidr n k =
     (case parse_cidr_v4 cidr of
        None \<Rightarrow> Some ([], k)
      | Some (base, prefix) \<Rightarrow>
          (let host_bits = 32 - prefix;
               size = (if 32 \<le> host_bits then 2 ^ 32 - 1 else 2 ^ host_bits :: nat)
           in if size \<le> 2 then Some ([base], k)
              else
                (let usable = size - 2; want = min (n mod 2 ^ 32) usable
                 in sample_loop g base usable want [] [] k)))"

definition parse_cidr_v6 :: "str \<Rightarrow> (u128 \<times> nat) option" where
  "parse_cidr_v6 cidr = do {
     (ip, prefix) \<leftarrow> split_once (CHR ''/'') cidr;
     a \<leftarrow> parse_ipv6 ip;
     p \<leftarrow> parse_uint 8 prefix;
     Some (a, p)
   }"

definition gen_u32 :: "rng \<Rightarrow> u32 rand" where
  "gen_u32 g = State (\<lambda>k. (word_of_nat (g k), Suc k))"

text \<open>A shift by 32 bits (a block of prefix 0) panics in the code; no block the probers use has one.\<close>

definition draw_embedded :: "rng \<Rightarrow> (u32 \<times> nat) list \<Rightarrow> u128 rand" where
  "draw_embedded g v4 =
     (if v4 = [] then do { r \<leftarrow> gen_u32 g; State_Monad.return (ucast r) }
      else do {
        i \<leftarrow> gen_range g 0 (length v4 - 1);
        (let (b, p) = v4 ! i; host_bits = 32 - p in do {
           host \<leftarrow> (if host_bits = 0 then State_Monad.return 0
                    else do { r \<leftarrow> gen_u32 g; State_Monad.return (r AND (2 ^ host_bits - 1)) });
           State_Monad.return (ucast (b OR host))
         })
      })"

definition sample_cidr_v6 :: "rng \<Rightarrow> str \<Rightarrow> nat \<Rightarrow> str list \<Rightarrow> u128 list rand" where
  "sample_cidr_v6 g cidr n v4_cidrs =
     (case parse_cidr_v6 cidr of
        None \<Rightarrow> State_Monad.return []
      | Some (base, prefix) \<Rightarrow>
          if 128 - prefix = 0 then State_Monad.return [base]
          else
            (let v4 = List.map_filter parse_cidr_v4 v4_cidrs in
             repeat_rand n (\<lambda>_. do { e \<leftarrow> draw_embedded g v4; State_Monad.return [base OR e] })))"

subsection \<open>Offsets stay inside their block\<close>

lemma word_add_inj:
  assumes "a < 2 ^ 32" "b < 2 ^ 32" "(base :: u32) + word_of_nat a = base + word_of_nat b"
  shows "a = b"
proof -
  have "(word_of_nat a :: u32) = word_of_nat b" using assms(3) by simp
  then have "unat (word_of_nat a :: u32) = unat (word_of_nat b :: u32)" by simp
  then show ?thesis using assms(1, 2) by (simp add: unat_of_nat take_bit_nat_eq_self)
qed

text \<open>
  What the sampling loop keeps: the offsets chosen are different, between 1 and \<open>usable\<close>, and
  the addresses are those offsets from the base, in the order of the draws.
\<close>

definition sampled :: "u32 \<Rightarrow> nat \<Rightarrow> nat list \<Rightarrow> u32 list \<Rightarrow> bool" where
  "sampled base usable chosen out \<longleftrightarrow>
     distinct chosen \<and> list_all (\<lambda>o'. 1 \<le> o' \<and> o' \<le> usable) chosen
     \<and> out = map (\<lambda>o'. base + word_of_nat o') (rev chosen)"

lemma sampled_step:
  assumes "sampled base usable chosen out" and "0 < usable" and "off = 1 + in_range 0 (usable - 1) r"
    and "off \<notin> set chosen"
  shows "sampled base usable (off # chosen) (out @ [base + word_of_nat off])"
  using assms in_range_bounds [of 0 "usable - 1" r] by (auto simp: sampled_def)

definition sampling_ok :: "rng \<Rightarrow> u32 \<Rightarrow> nat \<Rightarrow> nat \<Rightarrow> nat list \<Rightarrow> u32 list \<Rightarrow> nat \<Rightarrow> u32 list \<times> nat \<Rightarrow> bool" where
  "sampling_ok g base usable want chosen out k r \<longleftrightarrow>
     (sampled base usable chosen out \<longrightarrow> length out \<le> want \<longrightarrow> 0 < usable \<longrightarrow>
       (\<exists>chosen'. sampled base usable chosen' (fst r)) \<and> length (fst r) = want)"

lemma sample_loop_ok: "sample_loop g base usable want chosen out k = Some r \<Longrightarrow> sampling_ok g base usable want chosen out k r"
proof (rule sample_loop.raw_induct [where P = sampling_ok])
  fix sl g base usable want chosen out k r
  assume ih: "\<And>g base usable want chosen out k r. sl g base usable want chosen out k = Some r \<Longrightarrow>
      sampling_ok g base usable want chosen out k r"
    and body: "(if length out < want then
        (let off = 1 + in_range 0 (usable - 1) (g k) in
         if off \<notin> set chosen
         then sl g base usable want (off # chosen) (out @ [base + word_of_nat off]) (Suc k)
         else sl g base usable want chosen out (Suc k))
      else Some (out, k)) = Some r"
  let ?off = "1 + in_range 0 (usable - 1) (g k)"
  show "sampling_ok g base usable want chosen out k r"
  proof (cases "length out < want")
    case True
    show ?thesis
    proof (cases "?off \<notin> set chosen")
      case new: True
      then have "sl g base usable want (?off # chosen) (out @ [base + word_of_nat ?off]) (Suc k) = Some r"
        using body True by (simp add: Let_def)
      from ih [OF this] show ?thesis
        using True sampled_step [OF _ _ refl new] unfolding sampling_ok_def by simp
    next
      case False
      then have "sl g base usable want chosen out (Suc k) = Some r" using body True by (simp add: Let_def)
      from ih [OF this] show ?thesis unfolding sampling_ok_def .
    qed
  next
    case False
    then show ?thesis using body by (auto simp: sampling_ok_def)
  qed
qed

text \<open>
  A generator is fair to a range when it keeps drawing every offset of the range; over a fair
  generator the loop returns.
\<close>

definition fair :: "rng \<Rightarrow> nat \<Rightarrow> bool" where
  "fair g usable \<longleftrightarrow> (\<forall>o' k. 1 \<le> o' \<and> o' \<le> usable \<longrightarrow> (\<exists>j \<ge> k. 1 + in_range 0 (usable - 1) (g j) = o'))"

lemma sample_loop_skip:
  assumes "length out < want" and "k \<le> j" and "\<forall>i. k \<le> i \<and> i < j \<longrightarrow> 1 + in_range 0 (usable - 1) (g i) \<in> set chosen"
  shows "sample_loop g base usable want chosen out k = sample_loop g base usable want chosen out j"
  using assms(2, 3)
proof (induction rule: inc_induct)
  case (step n)
  have "1 + in_range 0 (usable - 1) (g n) \<in> set chosen" using step by auto
  then have "sample_loop g base usable want chosen out n = sample_loop g base usable want chosen out (Suc n)"
    using assms(1) by (subst sample_loop.simps) (simp add: Let_def)
  then show ?case using step by auto
qed simp

lemma fresh_offset:
  assumes "sampled base usable chosen out" and "length out < usable"
  shows "\<exists>o'. 1 \<le> o' \<and> o' \<le> usable \<and> o' \<notin> set chosen"
proof (rule ccontr)
  assume "\<not> ?thesis"
  then have "{1..usable} \<subseteq> set chosen" by auto
  then have "card {1..usable} \<le> card (set chosen)" by (intro card_mono) simp_all
  moreover have "card (set chosen) = length out" using assms(1) by (simp add: sampled_def distinct_card)
  ultimately show False using assms(2) by simp
qed

lemma sample_loop_returns:
  assumes "fair g usable" and "0 < usable"
  shows "sampled base usable chosen out \<Longrightarrow> length out \<le> want \<Longrightarrow> want \<le> usable \<Longrightarrow>
     \<exists>r. sample_loop g base usable want chosen out k = Some r"
proof (induction "want - length out" arbitrary: chosen out k)
  case 0
  then show ?case by (subst sample_loop.simps) simp
next
  case (Suc n)
  then have lt: "length out < want" by simp
  let ?draw = "\<lambda>i. 1 + in_range 0 (usable - 1) (g i)"
  obtain o' where "1 \<le> o'" "o' \<le> usable" "o' \<notin> set chosen"
    using fresh_offset [OF Suc.prems(1)] lt Suc.prems(3) by auto
  then have "\<exists>j. k \<le> j \<and> ?draw j \<notin> set chosen" using assms(1) unfolding fair_def by metis
  then obtain j where j: "k \<le> j" "?draw j \<notin> set chosen" and least: "\<And>i. i < j \<Longrightarrow> \<not> (k \<le> i \<and> ?draw i \<notin> set chosen)"
    using exists_least_iff [of "\<lambda>j. k \<le> j \<and> ?draw j \<notin> set chosen"] by blast
  have "sample_loop g base usable want chosen out k = sample_loop g base usable want chosen out j"
    using least by (intro sample_loop_skip [OF lt j(1)]) auto
  also have "\<dots> = sample_loop g base usable want (?draw j # chosen) (out @ [base + word_of_nat (?draw j)]) (Suc j)"
    using lt j(2) by (subst sample_loop.simps) (simp add: Let_def)
  finally show ?case
    using Suc.hyps(1) [of "out @ [base + word_of_nat (?draw j)]" "?draw j # chosen" "Suc j"] Suc.hyps(2) Suc.prems
      sampled_step [OF Suc.prems(1) assms(2) refl j(2)] lt by simp
qed

subsection \<open>Properties\<close>

text \<open>The offset of an address in a block.\<close>

definition host_of :: "u32 \<Rightarrow> u32 \<Rightarrow> nat" where
  "host_of base a = unat (a - base)"

text \<open>What sampling a block should give: different hosts, neither the network nor the broadcast address.\<close>

definition good_sample :: "u32 \<Rightarrow> nat \<Rightarrow> nat \<Rightarrow> u32 list \<Rightarrow> bool" where
  "good_sample base host_bits n out \<longleftrightarrow>
     distinct out \<and> length out = min n (2 ^ host_bits - 2)
     \<and> list_all (\<lambda>a. 1 \<le> host_of base a \<and> host_of base a \<le> 2 ^ host_bits - 2) out"

lemma sampled_good:
  assumes "sampled base usable chosen out" and "usable < 2 ^ 32 - 1"
  shows "distinct out" and "list_all (\<lambda>a. 1 \<le> host_of base a \<and> host_of base a \<le> usable) out"
proof -
  have small: "o' < 2 ^ 32" if "o' \<in> set chosen" for o'
    using assms that by (force simp: sampled_def list_all_iff)
  have "inj_on (\<lambda>o'. base + word_of_nat o') (set chosen)"
    using small word_add_inj by (auto intro!: inj_onI)
  then show "distinct out" using assms(1) by (simp add: sampled_def distinct_map)
  have "host_of base (base + word_of_nat o') = o'" if "o' \<in> set chosen" for o'
    using small [OF that] by (simp add: host_of_def unat_of_nat take_bit_nat_eq_self)
  then show "list_all (\<lambda>a. 1 \<le> host_of base a \<and> host_of base a \<le> usable) out"
    using assms(1) by (simp add: sampled_def list_all_iff)
qed

lemma pow_less_32: "h < 32 \<Longrightarrow> (2::nat) ^ h \<le> 2 ^ 31"
  by (intro power_increasing) simp_all

text \<open>Sampling an IPv4 block of 2 to 31 host bits gives as many different hosts as asked for,
  or all there are, and never the network or the broadcast address; and it returns for every
  generator that keeps drawing every offset of the block.\<close>

theorem sample_cidr_v4_good:
  assumes "parse_cidr_v4 cidr = Some (base, 32 - h)" and "2 \<le> h" and "h < 32" and "n < 2 ^ 32"
  shows "(case sample_cidr_v4 g cidr n k of
      Some (out, k') \<Rightarrow> good_sample base h n out
    | None \<Rightarrow> \<not> fair g (2 ^ h - 2))"
proof -
  have h: "4 \<le> (2::nat) ^ h" "(2::nat) ^ h \<le> 2 ^ 31"
    using power_increasing [of 2 h "2::nat"] pow_less_32 assms by simp_all
  have run: "sample_cidr_v4 g cidr n k = sample_loop g base (2 ^ h - 2) (min n (2 ^ h - 2)) [] [] k"
    using assms h by (simp add: sample_cidr_v4_def Let_def)
  have start: "sampled base (2 ^ h - 2) [] []" by (simp add: sampled_def)
  show ?thesis
  proof (cases "sample_cidr_v4 g cidr n k")
    case None
    then show ?thesis
      using sample_loop_returns [of g "2 ^ h - 2" base "[]" "[]" "min n (2 ^ h - 2)" k] start h unfolding run by auto
  next
    case (Some r)
    then obtain chosen where "sampled base (2 ^ h - 2) chosen (fst r)" "length (fst r) = min n (2 ^ h - 2)"
      using sample_loop_ok [of g base "2 ^ h - 2" "min n (2 ^ h - 2)" "[]" "[]" k r] start h
      unfolding run sampling_ok_def by auto
    then show ?thesis
      using sampled_good [of base "2 ^ h - 2" chosen "fst r"] h Some by (cases r) (simp add: good_sample_def)
  qed
qed

theorem sample_cidr_v4_good_witness:
  "case sample_cidr_v4 (\<lambda>k. k) ''162.159.192.0/24'' 3 0 of
     Some (out, k') \<Rightarrow> good_sample (ipv4_new 162 159 192 0) 8 3 out
   | None \<Rightarrow> \<not> fair (\<lambda>k. k) 254"
proof -
  have "parse_cidr_v4 ''162.159.192.0/24'' = Some (ipv4_new 162 159 192 0, 32 - 8)" by code_simp
  from sample_cidr_v4_good [OF this, of 3 "\<lambda>k. k" 0] show ?thesis
    by (simp cong: option.case_cong)
qed

end
