(* ===== verification/Prober.thy ===== *)
theory Prober
  imports Cidr
begin

section \<open>The search for a MASQUE gateway (prober.rs)\<close>

text \<open>
  The scan modes with their strategies, the candidates and their order, the check of one
  candidate, and the loop that takes results as they come and selects the fastest gateway.
  What the network answers to a candidate is a parameter; which candidate finishes next is an
  event. Times are milliseconds.
\<close>

definition MASQUE_CIDRS_V4 :: "str list" where
  "MASQUE_CIDRS_V4 =
     [''162.159.36.0/24'', ''162.159.46.0/24'', ''162.159.192.0/24'', ''162.159.193.0/24'',
      ''162.159.195.0/24'', ''162.159.196.0/24'', ''162.159.197.0/24'', ''162.159.198.0/24'',
      ''162.159.204.0/24'', ''172.65.251.0/24'', ''188.114.96.0/24'', ''188.114.97.0/24'',
      ''188.114.98.0/24'', ''188.114.99.0/24'']"

definition MASQUE_SEEDS :: "str list" where
  "MASQUE_SEEDS =
     [''162.159.198.2'', ''162.159.198.1'', ''162.159.192.1'', ''162.159.193.1'', ''162.159.195.1'', ''162.159.196.1'']"

definition MASQUE_PORTS :: "u16 list" where
  "MASQUE_PORTS = [443, 500, 1701, 4443, 8443, 8095]"

definition MASQUE_CIDRS_V6 :: "str list" where
  "MASQUE_CIDRS_V6 = [''2606:4700:d0::/48'', ''2606:4700:d1::/48'', ''2606:4700:102::/48'']"

definition MASQUE_SEEDS_V6 :: "str list" where
  "MASQUE_SEEDS_V6 =
     [''2606:4700:d0::a29f:c602'', ''2606:4700:d1::a29f:c602'', ''2606:4700:d0::a29f:c601'', ''2606:4700:d0::a29f:c001'']"

subsection \<open>Modes\<close>

datatype ip_scan = V4 | V6 | Both

definition ip_scan_parse :: "str \<Rightarrow> ip_scan" where
  "ip_scan_parse s =
     (let w = to_lowercase (trim s) in
      if w \<in> {''6'', ''v6'', ''ipv6''} then V6
      else if w \<in> {''both'', ''all'', ''dual''} then Both
      else V4)"

fun ip_scan_label :: "ip_scan \<Rightarrow> str" where
  "ip_scan_label V4 = ''ipv4''"
| "ip_scan_label V6 = ''ipv6''"
| "ip_scan_label Both = ''dual-stack''"

definition want_v4 :: "ip_scan \<Rightarrow> bool" where
  "want_v4 i \<longleftrightarrow> i = V4 \<or> i = Both"

definition want_v6 :: "ip_scan \<Rightarrow> bool" where
  "want_v6 i \<longleftrightarrow> i = V6 \<or> i = Both"

datatype scan_mode = Turbo | Balanced | Thorough | Stealth | Ironclad

definition scan_mode_parse :: "str \<Rightarrow> scan_mode" where
  "scan_mode_parse s =
     (let w = to_lowercase (trim s) in
      if w \<in> {''turbo'', ''fast''} then Turbo
      else if w \<in> {''thorough'', ''deep'', ''pro''} then Thorough
      else if w \<in> {''stealth'', ''quiet''} then Stealth
      else if w \<in> {''ironclad'', ''real'', ''verify'', ''guaranteed''} then Ironclad
      else Balanced)"

fun scan_mode_label :: "scan_mode \<Rightarrow> str" where
  "scan_mode_label Turbo = ''turbo''"
| "scan_mode_label Balanced = ''balanced''"
| "scan_mode_label Thorough = ''thorough''"
| "scan_mode_label Stealth = ''stealth''"
| "scan_mode_label Ironclad = ''ironclad''"

record strategy =
  concurrency :: nat
  per_probe_timeout :: nat
  overall_deadline :: nat
  quiet_after_first :: nat
  target_successes :: nat
  early_exit_first :: bool
  full_subnet :: bool
  sample_per_cidr :: nat

fun scan_mode_strategy :: "scan_mode \<Rightarrow> strategy" where
  "scan_mode_strategy Turbo =
     \<lparr>concurrency = 20, per_probe_timeout = 6000, overall_deadline = 45000, quiet_after_first = 0,
      target_successes = 1, early_exit_first = True, full_subnet = False, sample_per_cidr = 64\<rparr>"
| "scan_mode_strategy Balanced =
     \<lparr>concurrency = 16, per_probe_timeout = 6000, overall_deadline = 120000, quiet_after_first = 20000,
      target_successes = 6, early_exit_first = False, full_subnet = False, sample_per_cidr = 140\<rparr>"
| "scan_mode_strategy Thorough =
     \<lparr>concurrency = 20, per_probe_timeout = 10000, overall_deadline = 300000, quiet_after_first = 30000,
      target_successes = 0, early_exit_first = False, full_subnet = True, sample_per_cidr = 0\<rparr>"
| "scan_mode_strategy Stealth =
     \<lparr>concurrency = 3, per_probe_timeout = 12000, overall_deadline = 180000, quiet_after_first = 25000,
      target_successes = 4, early_exit_first = False, full_subnet = False, sample_per_cidr = 64\<rparr>"
| "scan_mode_strategy Ironclad =
     \<lparr>concurrency = 4, per_probe_timeout = 15000, overall_deadline = 180000, quiet_after_first = 15000,
      target_successes = 3, early_exit_first = False, full_subnet = False, sample_per_cidr = 140\<rparr>"

definition IRONCLAD_TCPING_TIMEOUT :: nat where "IRONCLAD_TCPING_TIMEOUT = 10000"

subsection \<open>Candidates\<close>

text \<open>
  A candidate goes to the end of the list unless it was there before: \<open>seen\<close> is the hash set
  of the code.
\<close>

definition offer :: "'c \<Rightarrow> 'c set \<times> 'c list \<Rightarrow> 'c set \<times> 'c list" where
  "offer c s = (case s of (seen, out) \<Rightarrow> if c \<in> seen then (seen, out) else (insert c seen, out @ [c]))"

definition offer_all :: "'c list \<Rightarrow> 'c set \<times> 'c list \<Rightarrow> 'c set \<times> 'c list" where
  "offer_all cs s = fold offer cs s"

text \<open>The hosts of several blocks, one of each block in turn.\<close>

definition max_len :: "'a list list \<Rightarrow> nat" where
  "max_len hs = fold (\<lambda>h m. max (length h) m) hs 0"

definition interleave :: "'a list list \<Rightarrow> 'a list" where
  "interleave hs =
     concat (map (\<lambda>i. List.map_filter (\<lambda>h. if i < length h then Some (h ! i) else None) hs) [0..<max_len hs])"

fun hosts_v4 :: "rng \<Rightarrow> strategy \<Rightarrow> str list \<Rightarrow> nat \<Rightarrow> (u32 list list \<times> nat) option" where
  "hosts_v4 g st [] k = Some ([], k)"
| "hosts_v4 g st (c # cs) k = do {
     (h, k) \<leftarrow> (if full_subnet st then Some (enumerate_cidr_v4 c, k) else sample_cidr_v4 g c (sample_per_cidr st) k);
     (hs, k) \<leftarrow> hosts_v4 g st cs k;
     Some (h # hs, k)
   }"

fun hosts_v6 :: "rng \<Rightarrow> nat \<Rightarrow> str list \<Rightarrow> str list \<Rightarrow> nat \<Rightarrow> u128 list list \<times> nat" where
  "hosts_v6 g per v4_cidrs [] k = ([], k)"
| "hosts_v6 g per v4_cidrs (c # cs) k =
     (let (h, k) = run_state (sample_cidr_v6 g c per v4_cidrs) k;
          (hs, k) = hosts_v6 g per v4_cidrs cs k
      in (h # hs, k))"

text \<open>The stages of \<open>build_candidates\<close>: each family on the primary port, then the seeds on the others.\<close>

type_synonym candidates = "(ip_addr \<times> u16) set \<times> (ip_addr \<times> u16) list"

definition seeds_v4 :: "u32 list" where
  "seeds_v4 = List.map_filter parse_ipv4 MASQUE_SEEDS"

definition seeds_v6 :: "u128 list" where
  "seeds_v6 = List.map_filter parse_ipv6 MASQUE_SEEDS_V6"

definition primary_port :: "u16 list \<Rightarrow> u16" where
  "primary_port ports = (case ports of [] \<Rightarrow> 443 | p # _ \<Rightarrow> p)"

definition candidates_v4 :: "rng \<Rightarrow> strategy \<Rightarrow> u16 \<Rightarrow> candidates \<Rightarrow> nat \<Rightarrow> (candidates \<times> nat) option" where
  "candidates_v4 g st primary s k = do {
     let s = offer_all (map (\<lambda>a. (IpV4 a, primary)) seeds_v4) s;
     (cidr_hosts, k) \<leftarrow> hosts_v4 g st MASQUE_CIDRS_V4 k;
     Some (offer_all (map (\<lambda>a. (IpV4 a, primary)) (interleave cidr_hosts)) s, k)
   }"

definition candidates_v6 :: "rng \<Rightarrow> strategy \<Rightarrow> u16 \<Rightarrow> candidates \<Rightarrow> nat \<Rightarrow> candidates \<times> nat" where
  "candidates_v6 g st primary s k =
     (let s = offer_all (map (\<lambda>a. (IpV6 a, primary)) seeds_v6) s;
          per = (if sample_per_cidr st = 0 then 96 else sample_per_cidr st);
          (cidr6, k) = hosts_v6 g per MASQUE_CIDRS_V4 MASQUE_CIDRS_V6 k
      in (offer_all (map (\<lambda>a. (IpV6 a, primary)) (interleave cidr6)) s, k))"

definition other_ports :: "('a \<Rightarrow> ip_addr) \<Rightarrow> 'a list \<Rightarrow> u16 list \<Rightarrow> u16 \<Rightarrow> candidates \<Rightarrow> candidates" where
  "other_ports ip seeds ports primary s =
     offer_all (concat (map (\<lambda>a. map (\<lambda>p. (ip a, p)) (filter (\<lambda>p. p \<noteq> primary) ports)) seeds)) s"

definition build_candidates :: "rng \<Rightarrow> strategy \<Rightarrow> u16 list \<Rightarrow> ip_scan \<Rightarrow> nat \<Rightarrow> ((ip_addr \<times> u16) list \<times> nat) option" where
  "build_candidates g st ports ip k =
     (let primary = primary_port ports in do {
        (s, k) \<leftarrow> (if want_v4 ip then candidates_v4 g st primary ({}, []) k else Some (({}, []), k));
        let (s, k) = (if want_v6 ip then candidates_v6 g st primary s k else (s, k));
        let s = (if want_v4 ip then other_ports IpV4 seeds_v4 ports primary s else s);
        let s = (if want_v6 ip then other_ports IpV6 seeds_v6 ports primary s else s);
        Some (snd s, k)
      })"

subsection \<open>Checking one candidate\<close>

record probe_result =
  pr_ip :: ip_addr
  pr_port :: u16
  rtt :: nat

text \<open>
  What the three checks answer for an address within a time limit: a round trip time or an
  error. They are modelled in the theories of the tunnels; here they are parameters.
\<close>

record checks =
  masque_http_ping :: "sock_addr \<Rightarrow> nat \<Rightarrow> nat result"
  verify_h2 :: "sock_addr \<Rightarrow> nat \<Rightarrow> nat result"
  verify_masque :: "sock_addr \<Rightarrow> nat \<Rightarrow> nat result"
  h2_enabled :: bool

definition found :: "ip_addr \<Rightarrow> u16 \<Rightarrow> nat result \<Rightarrow> probe_result option" where
  "found ip port r = (case r of Inr t \<Rightarrow> Some \<lparr>pr_ip = ip, pr_port = port, rtt = t\<rparr> | Inl _ \<Rightarrow> None)"

definition verify_one :: "checks \<Rightarrow> ip_addr \<Rightarrow> u16 \<Rightarrow> nat \<Rightarrow> bool \<Rightarrow> probe_result option" where
  "verify_one ck ip port timeout ironclad =
     (if ironclad then found ip port (masque_http_ping ck (SockAddr ip port) IRONCLAD_TCPING_TIMEOUT)
      else if h2_enabled ck then found ip port (verify_h2 ck (SockAddr ip port) timeout)
      else found ip port (verify_masque ck (SockAddr ip port) timeout))"

subsection \<open>The selection loop\<close>

text \<open>
  A turn: the time it starts, and what the \<open>select!\<close> yields: a finished candidate with the
  time it is taken, the end of the candidates, or the end of the wait.
\<close>

datatype scan_item = Finished nat "(ip_addr \<times> u16)" | Exhausted | Waited

record scan_turn =
  at_ms :: nat
  item :: scan_item

record scan =
  best :: "probe_result option"
  found_n :: nat
  quiet_until :: "nat option"

definition scan_start :: scan where
  "scan_start = \<lparr>best = None, found_n = 0, quiet_until = None\<rparr>"

definition scan_finish :: "probe_result option \<Rightarrow> probe_result result" where
  "scan_finish b = (case b of Some pr \<Rightarrow> Inr pr | None \<Rightarrow> Inl NoCleanEndpoint)"

definition scan_take :: "strategy \<Rightarrow> nat \<Rightarrow> probe_result \<Rightarrow> scan \<Rightarrow> (scan, probe_result result) ctl" where
  "scan_take st t pr s =
     (if early_exit_first st then Stop (Inr pr)
      else
        (let s = s\<lparr>best := Some (case best s of Some cur \<Rightarrow> if rtt cur \<le> rtt pr then cur else pr | None \<Rightarrow> pr),
                  found_n := found_n s + 1\<rparr>
         in if 0 < target_successes st \<and> target_successes st \<le> found_n s \<and> quiet_until s = None then
              (if quiet_after_first st \<noteq> 0 then Go (s\<lparr>quiet_until := Some (t + quiet_after_first st)\<rparr>)
               else Stop (scan_finish (best s)))
            else Go s))"

definition scan_step :: "checks \<Rightarrow> strategy \<Rightarrow> bool \<Rightarrow> nat \<Rightarrow> scan_turn \<Rightarrow> scan \<Rightarrow> (scan, probe_result result) ctl" where
  "scan_step ck st ironclad deadline e s =
     (let effective = (case quiet_until s of Some q \<Rightarrow> min q deadline | None \<Rightarrow> deadline) in
      if effective - at_ms e = 0 then Stop (scan_finish (best s))
      else
        (case item e of
           Exhausted \<Rightarrow> Stop (scan_finish (best s))
         | Waited \<Rightarrow> Stop (scan_finish (best s))
         | Finished t (ip, port) \<Rightarrow>
             (case verify_one ck ip port (per_probe_timeout st) ironclad of
                None \<Rightarrow> Go s
              | Some pr \<Rightarrow> scan_take st t pr s)))"

text \<open>
  \<open>hunt_best_gateway\<close>: \<open>has_v6\<close> is what \<open>host_has_ipv6\<close> returns, \<open>start\<close> the time the loop
  starts. The result holds the candidates, which a run of the loop works through in any order.
\<close>

definition hunt_best_gateway ::
  "checks \<Rightarrow> rng \<Rightarrow> bool \<Rightarrow> u16 list \<Rightarrow> ip_scan \<Rightarrow> scan_mode \<Rightarrow> nat \<Rightarrow> scan_turn list \<Rightarrow> nat
    \<Rightarrow> ((ip_addr \<times> u16) list \<times> (scan, probe_result result) ctl) option" where
  "hunt_best_gateway ck g has_v6 ports ip mode start turns k =
     (let st = scan_mode_strategy mode in
      if want_v6 ip \<and> \<not> has_v6 \<and> \<not> want_v4 ip then Some ([], Stop (Inl NoCleanEndpoint))
      else do {
        let effective_ip = (if want_v6 ip \<and> \<not> has_v6 then V4 else ip);
        (candidates, k) \<leftarrow> build_candidates g st ports effective_ip k;
        Some (candidates,
          run_loop (scan_step ck st (mode = Ironclad) (start + overall_deadline st)) turns scan_start)
      })"

subsection \<open>Selecting the fastest\<close>

definition better :: "('r \<Rightarrow> nat) \<Rightarrow> 'r option \<Rightarrow> 'r \<Rightarrow> 'r option" where
  "better t b pr = Some (case b of Some cur \<Rightarrow> if t cur \<le> t pr then cur else pr | None \<Rightarrow> pr)"

definition fastest :: "('r \<Rightarrow> nat) \<Rightarrow> 'r list \<Rightarrow> 'r option" where
  "fastest t prs = fold (\<lambda>pr b. better t b pr) prs None"

definition selection :: "'r option \<Rightarrow> 'r result" where
  "selection b = (case b of Some pr \<Rightarrow> Inr pr | None \<Rightarrow> Inl NoCleanEndpoint)"

lemma fastest_Nil [simp]: "fastest t [] = None"
  by (simp add: fastest_def)

lemma fastest_snoc [simp]: "fastest t (prs @ [pr]) = better t (fastest t prs) pr"
  by (simp add: fastest_def)

lemma fastest_Some: "fastest t prs = Some pr \<Longrightarrow> pr \<in> set prs \<and> (\<forall>q \<in> set prs. t pr \<le> t q)"
proof (induction prs arbitrary: pr rule: rev_induct)
  case (snoc x prs)
  show ?case
  proof (cases "fastest t prs")
    case None
    then have "prs = []" by (cases prs rule: rev_exhaust) (auto simp: better_def)
    then show ?thesis using snoc.prems by (simp add: better_def fastest_def)
  next
    case (Some cur)
    then show ?thesis using snoc by (auto simp: better_def split: if_splits)
  qed
qed simp

lemma fastest_None: "fastest t prs = None \<longleftrightarrow> prs = []"
  by (cases prs rule: rev_exhaust) (auto simp: better_def)

text \<open>
  The contract of a selection loop, which both probers meet: \<open>yields\<close> is the verified endpoint
  of a turn, \<open>sel\<close> the one held so far. A loop that exits \<open>early\<close> never holds one.
\<close>

locale selection_loop =
  fixes step :: "'e \<Rightarrow> 's \<Rightarrow> ('s, 'r result) ctl"
    and sel :: "'s \<Rightarrow> 'r option"
    and yields :: "'e \<Rightarrow> 'r option"
    and t :: "'r \<Rightarrow> nat"
    and ok :: "'s \<Rightarrow> bool"
  assumes step_Go: "ok s \<Longrightarrow> step e s = Go s' \<Longrightarrow>
      ok s' \<and> sel s' = (case yields e of None \<Rightarrow> sel s | Some pr \<Rightarrow> better t (sel s) pr)"
    and step_Stop: "ok s \<Longrightarrow> step e s = Stop r \<Longrightarrow>
      r = selection (sel s) \<or> (\<exists>pr. yields e = Some pr \<and> r = selection (better t (sel s) pr))"
begin

lemma run_Go:
  "ok s \<Longrightarrow> sel s = fastest t prs \<Longrightarrow> run_loop step es s = Go s' \<Longrightarrow>
     sel s' = fastest t (prs @ List.map_filter yields es)"
proof (induction es arbitrary: s prs)
  case (Cons e es)
  then obtain s1 where s1: "step e s = Go s1" by (auto split: ctl.splits)
  have ok1: "ok s1" and sel1: "sel s1 = fastest t (prs @ List.map_filter yields [e])"
    using step_Go [OF Cons.prems(1) s1] Cons.prems(2) by (simp_all split: option.split)
  have "run_loop step es s1 = Go s'" using Cons.prems(3) s1 by simp
  from Cons.IH [OF ok1 sel1 this] show ?case by (simp split: option.splits)
qed simp

lemma run_Stop:
  "ok s \<Longrightarrow> sel s = fastest t prs \<Longrightarrow> run_loop step es s = Stop r \<Longrightarrow>
     \<exists>n. r = selection (fastest t (prs @ List.map_filter yields (take n es)))"
proof (induction es arbitrary: s prs)
  case (Cons e es)
  show ?case
  proof (cases "step e s")
    case (Stop r')
    then have "r' = r" using Cons.prems(3) by simp
    with step_Stop [OF Cons.prems(1) Stop] Cons.prems(2)
    have "r = selection (fastest t (prs @ List.map_filter yields (take 0 (e # es))))
        \<or> r = selection (fastest t (prs @ List.map_filter yields (take 1 (e # es))))"
      by auto
    then show ?thesis by blast
  next
    case (Go s1)
    have ok1: "ok s1" and sel1: "sel s1 = fastest t (prs @ List.map_filter yields [e])"
      using step_Go [OF Cons.prems(1) Go] Cons.prems(2) by (simp_all split: option.split)
    have "run_loop step es s1 = Stop r" using Cons.prems(3) Go by simp
    from Cons.IH [OF ok1 sel1 this] obtain n
      where "r = selection (fastest t (prs @ List.map_filter yields (take (Suc n) (e # es))))"
      by (auto split: option.splits)
    then show ?thesis by blast
  qed
qed simp

end

text \<open>The endpoint a turn verifies.\<close>

definition scan_yields :: "checks \<Rightarrow> strategy \<Rightarrow> bool \<Rightarrow> scan_turn \<Rightarrow> probe_result option" where
  "scan_yields ck st ironclad e =
     (case item e of Finished t (ip, port) \<Rightarrow> verify_one ck ip port (per_probe_timeout st) ironclad | _ \<Rightarrow> None)"

lemma scan_finish_selection: "scan_finish b = selection b"
  by (simp add: scan_finish_def selection_def)

interpretation gateway: selection_loop "scan_step ck st ironclad deadline" best "scan_yields ck st ironclad" rtt
    "\<lambda>s. early_exit_first st \<longrightarrow> best s = None" for ck st ironclad deadline
proof
  fix s :: scan and e s' r assume s: "early_exit_first st \<longrightarrow> best s = None"
  show "scan_step ck st ironclad deadline e s = Go s' \<Longrightarrow>
      (early_exit_first st \<longrightarrow> best s' = None)
      \<and> best s' = (case scan_yields ck st ironclad e of None \<Rightarrow> best s | Some pr \<Rightarrow> better rtt (best s) pr)"
    using s by (auto simp: scan_step_def scan_take_def scan_yields_def better_def Let_def
        split: if_splits scan_item.splits option.splits)
  show "scan_step ck st ironclad deadline e s = Stop r \<Longrightarrow>
      r = selection (best s)
      \<or> (\<exists>pr. scan_yields ck st ironclad e = Some pr \<and> r = selection (better rtt (best s) pr))"
    using s by (auto simp: scan_step_def scan_take_def scan_yields_def better_def Let_def
        scan_finish_selection selection_def split: if_splits scan_item.splits option.splits)
qed

lemma verify_one_candidate: "verify_one ck ip port t ironclad = Some pr \<Longrightarrow> pr_ip pr = ip \<and> pr_port pr = port"
  by (auto simp: verify_one_def found_def split: if_splits sum.splits)

subsection \<open>The candidates\<close>

text \<open>
  A list of candidates with its hash set is consistent; a stage extends it by candidates that
  satisfy \<open>P\<close>, at least those of \<open>new\<close>.
\<close>

definition consistent :: "'c set \<times> 'c list \<Rightarrow> bool" where
  "consistent s \<longleftrightarrow> fst s = set (snd s) \<and> distinct (snd s)"

definition extends :: "('c \<Rightarrow> bool) \<Rightarrow> 'c set \<Rightarrow> 'c set \<times> 'c list \<Rightarrow> 'c set \<times> 'c list \<Rightarrow> bool" where
  "extends P new s s' \<longleftrightarrow>
     (consistent s \<longrightarrow> consistent s') \<and> (\<exists>more. snd s' = snd s @ more \<and> list_all P more)
     \<and> (consistent s \<longrightarrow> new \<subseteq> set (snd s'))"

lemma extends_refl: "extends P {} s s"
  by (simp add: extends_def)

lemma extends_trans: "extends P a s s' \<Longrightarrow> extends P b s' s'' \<Longrightarrow> extends P (a \<union> b) s s''"
  by (auto simp: extends_def)

lemma extends_weaken: "extends P new s s' \<Longrightarrow> (\<And>c. P c \<Longrightarrow> Q c) \<Longrightarrow> extends Q new s s'"
  by (auto simp: extends_def list_all_iff)

lemma offer_extends: "P c \<Longrightarrow> extends P {c} s (offer c s)"
  by (auto simp: extends_def consistent_def offer_def split: prod.split)

lemma offer_all_extends: "list_all P cs \<Longrightarrow> extends P (set cs) s (offer_all cs s)"
proof (induction cs arbitrary: s)
  case Nil
  then show ?case by (simp add: offer_all_def extends_refl)
next
  case (Cons c cs)
  have "offer_all (c # cs) s = offer_all cs (offer c s)" by (simp add: offer_all_def)
  then show ?case
    using extends_trans [OF offer_extends [of P c s] Cons.IH [of "offer c s"]] Cons.prems by simp
qed

text \<open>What a list of candidates should be for the ports and address families asked for.\<close>

definition family_ok :: "ip_scan \<Rightarrow> ip_addr \<Rightarrow> bool" where
  "family_ok ip a = (case a of IpV4 _ \<Rightarrow> want_v4 ip | IpV6 _ \<Rightarrow> want_v6 ip)"

definition candidate_ok :: "u16 list \<Rightarrow> ip_scan \<Rightarrow> ip_addr \<times> u16 \<Rightarrow> bool" where
  "candidate_ok ports ip c \<longleftrightarrow> (snd c = primary_port ports \<or> snd c \<in> set ports) \<and> family_ok ip (fst c)"

definition seed_candidates :: "u16 list \<Rightarrow> ip_scan \<Rightarrow> (ip_addr \<times> u16) set" where
  "seed_candidates ports ip =
     (let ps = insert (primary_port ports) (set ports) in
      (if want_v4 ip then IpV4 ` set seeds_v4 \<times> ps else {})
      \<union> (if want_v6 ip then IpV6 ` set seeds_v6 \<times> ps else {}))"

lemma candidates_v4_extends:
  assumes "candidates_v4 g st (primary_port ports) s k = Some (s', k')" and "want_v4 ip"
  shows "extends (candidate_ok ports ip) (IpV4 ` set seeds_v4 \<times> {primary_port ports}) s s'"
proof -
  let ?cs = "\<lambda>hs. map (\<lambda>a. (IpV4 a, primary_port ports)) hs"
  have ok: "list_all (candidate_ok ports ip) (?cs hs)" for hs
    using assms(2) by (simp add: list_all_iff candidate_ok_def family_ok_def)
  obtain hs where "s' = offer_all (?cs hs) (offer_all (?cs seeds_v4) s)"
    using assms(1) by (auto simp: candidates_v4_def split: Option.bind_splits)
  then have "extends (candidate_ok ports ip) (set (?cs seeds_v4) \<union> set (?cs hs)) s s'"
    using extends_trans [OF offer_all_extends [OF ok] offer_all_extends [OF ok]] by blast
  then show ?thesis by (auto simp: extends_def)
qed

lemma candidates_v6_extends:
  assumes "candidates_v6 g st (primary_port ports) s k = (s', k')" and "want_v6 ip"
  shows "extends (candidate_ok ports ip) (IpV6 ` set seeds_v6 \<times> {primary_port ports}) s s'"
proof -
  let ?cs = "\<lambda>hs. map (\<lambda>a. (IpV6 a, primary_port ports)) hs"
  have ok: "list_all (candidate_ok ports ip) (?cs hs)" for hs
    using assms(2) by (simp add: list_all_iff candidate_ok_def family_ok_def)
  obtain hs where "s' = offer_all (?cs hs) (offer_all (?cs seeds_v6) s)"
    using assms(1) by (auto simp: candidates_v6_def Let_def split: prod.splits)
  then have "extends (candidate_ok ports ip) (set (?cs seeds_v6) \<union> set (?cs hs)) s s'"
    using extends_trans [OF offer_all_extends [OF ok] offer_all_extends [OF ok]] by blast
  then show ?thesis by (auto simp: extends_def)
qed

lemma other_ports_extends:
  assumes "\<And>a. family_ok ip (f a)"
  shows "extends (candidate_ok ports ip) (f ` set seeds \<times> (set ports - {primary_port ports})) s
    (other_ports f seeds ports (primary_port ports) s)"
proof -
  let ?cs = "concat (map (\<lambda>a. map (\<lambda>p. (f a, p)) (filter (\<lambda>p. p \<noteq> primary_port ports) ports)) seeds)"
  have "list_all (candidate_ok ports ip) ?cs"
    using assms by (auto simp: list_all_iff candidate_ok_def)
  from offer_all_extends [OF this, of s] show ?thesis
    unfolding other_ports_def extends_def by auto
qed

lemma extends_if: "(b \<Longrightarrow> extends P new s s') \<Longrightarrow> extends P (if b then new else {}) s (if b then s' else s)"
  by (simp add: extends_refl)

lemma build_candidates_extends:
  assumes "build_candidates g st ports ip k = Some (cs, k')"
  shows "\<exists>s. snd s = cs \<and> extends (candidate_ok ports ip) (seed_candidates ports ip) ({}, []) s"
proof -
  let ?p = "primary_port ports" and ?P = "candidate_ok ports ip" and ?o = "set ports - {primary_port ports}"
  obtain s1 k1 where s1: "(if want_v4 ip then candidates_v4 g st ?p ({}, []) k else Some (({}, []), k)) = Some (s1, k1)"
    using assms by (auto simp: build_candidates_def Let_def split: Option.bind_splits)
  obtain s2 k2 where s2: "(if want_v6 ip then candidates_v6 g st ?p s1 k1 else (s1, k1)) = (s2, k2)" by fastforce
  let ?s3 = "if want_v4 ip then other_ports IpV4 seeds_v4 ports ?p s2 else s2"
  let ?s4 = "if want_v6 ip then other_ports IpV6 seeds_v6 ports ?p ?s3 else ?s3"
  have cs: "cs = snd ?s4"
    using assms unfolding build_candidates_def Let_def s1 by (simp add: s2)
  have e1: "extends ?P (if want_v4 ip then IpV4 ` set seeds_v4 \<times> {?p} else {}) ({}, []) s1"
    using s1 candidates_v4_extends by (auto simp: extends_refl split: if_splits)
  have e2: "extends ?P (if want_v6 ip then IpV6 ` set seeds_v6 \<times> {?p} else {}) s1 s2"
    using s2 candidates_v6_extends by (auto simp: extends_refl split: if_splits)
  have e3: "extends ?P (if want_v4 ip then IpV4 ` set seeds_v4 \<times> ?o else {}) s2 ?s3"
    by (rule extends_if) (rule other_ports_extends, simp add: family_ok_def)
  have e4: "extends ?P (if want_v6 ip then IpV6 ` set seeds_v6 \<times> ?o else {}) ?s3 ?s4"
    by (rule extends_if) (rule other_ports_extends, simp add: family_ok_def)
  have "seed_candidates ports ip \<subseteq>
      (if want_v4 ip then IpV4 ` set seeds_v4 \<times> {?p} else {}) \<union> (if want_v6 ip then IpV6 ` set seeds_v6 \<times> {?p} else {})
      \<union> (if want_v4 ip then IpV4 ` set seeds_v4 \<times> ?o else {}) \<union> (if want_v6 ip then IpV6 ` set seeds_v6 \<times> ?o else {})"
    unfolding seed_candidates_def Let_def by auto
  then have "extends ?P (seed_candidates ports ip) ({}, []) ?s4"
    using extends_trans [OF extends_trans [OF extends_trans [OF e1 e2] e3] e4] unfolding extends_def by blast
  then show ?thesis using cs by blast
qed

subsection \<open>Properties\<close>


lemma hosts_v4_full: "full_subnet st \<Longrightarrow> \<exists>hs. hosts_v4 g st cs k = Some (hs, k)"
proof (induction cs)
  case (Cons c cs)
  then obtain hs where "hosts_v4 g st cs k = Some (hs, k)" by blast
  then show ?case using Cons.prems by simp
qed simp

lemma thorough_candidates: "\<exists>cs. build_candidates g (scan_mode_strategy Thorough) ports V4 k = Some (cs, k)"
proof -
  obtain hs where "hosts_v4 g (scan_mode_strategy Thorough) MASQUE_CIDRS_V4 k = Some (hs, k)"
    using hosts_v4_full [of "scan_mode_strategy Thorough" g MASQUE_CIDRS_V4 k] by auto
  then show ?thesis by (simp add: build_candidates_def candidates_v4_def want_v4_def want_v6_def Let_def)
qed


text \<open>A search ends with the selection of what it had verified when it ended.\<close>

lemma hunt_best_gateway_ends:
  assumes "hunt_best_gateway ck g has_v6 ports ip mode start turns k = Some (cands, Stop r)"
  shows "\<exists>n. r = selection (fastest rtt
    (List.map_filter (scan_yields ck (scan_mode_strategy mode) (mode = Ironclad)) (take n turns)))"
proof -
  let ?st = "scan_mode_strategy mode" and ?i = "mode = Ironclad"
  let ?v = "\<lambda>n. List.map_filter (scan_yields ck ?st ?i) (take n turns)"
  show ?thesis
  proof (cases "want_v6 ip \<and> \<not> has_v6 \<and> \<not> want_v4 ip")
    case True
    then have "r = selection (fastest rtt (?v 0))"
      using assms by (simp add: hunt_best_gateway_def Let_def selection_def)
    then show ?thesis ..
  next
    case False
    then have run: "run_loop (scan_step ck ?st ?i (start + overall_deadline ?st)) turns scan_start = Stop r"
      using assms by (auto simp: hunt_best_gateway_def Let_def split: Option.bind_splits)
    show ?thesis using gateway.run_Stop [OF _ _ run, of "[]"] by (simp add: scan_start_def)
  qed
qed

lemma hunt_best_gateway_verified:
  assumes "hunt_best_gateway ck g has_v6 ports ip mode start turns k = Some (cands, Stop (Inr pr))"
  shows "\<exists>e \<in> set turns. scan_yields ck (scan_mode_strategy mode) (mode = Ironclad) e = Some pr"
proof -
  let ?v = "\<lambda>n. List.map_filter (scan_yields ck (scan_mode_strategy mode) (mode = Ironclad)) (take n turns)"
  obtain n where "Inr pr = selection (fastest rtt (?v n))" using hunt_best_gateway_ends [OF assms] ..
  then have "fastest rtt (?v n) = Some pr" by (auto simp: selection_def split: option.splits)
  then have "pr \<in> set (?v n)" using fastest_Some by metis
  then show ?thesis by (auto simp: List.map_filter_def dest!: in_set_takeD)
qed


definition sample_checks :: checks where
  "sample_checks = \<lparr>masque_http_ping = (\<lambda>_ _. Inl NoCleanEndpoint), verify_h2 = (\<lambda>_ _. Inl NoCleanEndpoint),
     verify_masque = (\<lambda>a _. Inr (unat (sa_port a))), h2_enabled = False\<rparr>"


end
