(* ===== verification/Wg_Prober.thy ===== *)
theory Wg_Prober
  imports Prober
begin

section \<open>The search for a WireGuard endpoint (wg_prober.rs)\<close>

text \<open>
  The WireGuard prober: its modes and strategies, its copies of the block functions, its
  candidates (addresses that take the ports in turn), the check of one candidate and its
  selection loop. The loop meets the contract of the gateway search, and the copies are shown
  to be the functions of \<open>Cidr\<close>.
\<close>

definition WG_PREFIXES_V4 :: "str list" where
  "WG_PREFIXES_V4 =
     [''162.159.192.0/24'', ''162.159.195.0/24'', ''188.114.96.0/24'', ''188.114.97.0/24'', ''188.114.98.0/24'',
      ''188.114.99.0/24'']"

definition WG_PREFIXES_V6 :: "str list" where
  "WG_PREFIXES_V6 = [''2606:4700:d0::/64'', ''2606:4700:d1::/64'']"

definition WG_PORTS :: "u16 list" where
  "WG_PORTS =
     [500, 854, 859, 864, 878, 880, 890, 891, 894, 903, 908, 928, 934, 939, 942, 943, 945, 946, 955, 968, 987, 988,
      1002, 1010, 1014, 1018, 1070, 1074, 1180, 1387, 1701, 1843, 2371, 2408, 2506, 3138, 3476, 3581, 3854, 4177,
      4198, 4233, 4500, 5279, 5956, 7103, 7152, 7156, 7281, 7559, 8319, 8742, 8854, 8886]"

definition WG_SEEDS_V4 :: "str list" where
  "WG_SEEDS_V4 = [''162.159.192.1'', ''162.159.195.1'', ''188.114.96.1'', ''188.114.97.1'']"

definition WG_SEEDS_V6 :: "str list" where
  "WG_SEEDS_V6 =
     [''2606:4700:d0::a29f:c001'', ''2606:4700:d1::a29f:c001'', ''2606:4700:d0::a29f:c301'', ''2606:4700:d0::bc72:6001'']"

datatype wg_scan_mode = WgTurbo | WgBalanced | WgThorough | WgStealth | WgIronclad

definition wg_scan_mode_parse :: "str \<Rightarrow> wg_scan_mode" where
  "wg_scan_mode_parse s =
     (let w = to_lowercase (trim s) in
      if w \<in> {''turbo'', ''fast''} then WgTurbo
      else if w \<in> {''thorough'', ''deep'', ''pro''} then WgThorough
      else if w \<in> {''stealth'', ''quiet''} then WgStealth
      else if w \<in> {''ironclad'', ''real'', ''verify'', ''guaranteed''} then WgIronclad
      else WgBalanced)"

fun wg_scan_mode_label :: "wg_scan_mode \<Rightarrow> str" where
  "wg_scan_mode_label WgTurbo = ''turbo''"
| "wg_scan_mode_label WgBalanced = ''balanced''"
| "wg_scan_mode_label WgThorough = ''thorough''"
| "wg_scan_mode_label WgStealth = ''stealth''"
| "wg_scan_mode_label WgIronclad = ''ironclad''"

record wg_strategy =
  wg_concurrency :: nat
  wg_per_probe_timeout :: nat
  wg_overall_deadline :: nat
  wg_quiet_after_first :: nat
  wg_target_successes :: nat
  wg_early_exit_first :: bool
  wg_full_subnet :: bool
  wg_sample_per_cidr :: nat

fun wg_scan_mode_strategy :: "wg_scan_mode \<Rightarrow> wg_strategy" where
  "wg_scan_mode_strategy WgTurbo =
     \<lparr>wg_concurrency = 12, wg_per_probe_timeout = 5000, wg_overall_deadline = 30000, wg_quiet_after_first = 0,
      wg_target_successes = 1, wg_early_exit_first = True, wg_full_subnet = False, wg_sample_per_cidr = 40\<rparr>"
| "wg_scan_mode_strategy WgBalanced =
     \<lparr>wg_concurrency = 8, wg_per_probe_timeout = 7000, wg_overall_deadline = 80000, wg_quiet_after_first = 12000,
      wg_target_successes = 5, wg_early_exit_first = False, wg_full_subnet = False, wg_sample_per_cidr = 120\<rparr>"
| "wg_scan_mode_strategy WgThorough =
     \<lparr>wg_concurrency = 10, wg_per_probe_timeout = 9000, wg_overall_deadline = 250000, wg_quiet_after_first = 25000,
      wg_target_successes = 0, wg_early_exit_first = False, wg_full_subnet = True, wg_sample_per_cidr = 0\<rparr>"
| "wg_scan_mode_strategy WgStealth =
     \<lparr>wg_concurrency = 3, wg_per_probe_timeout = 10000, wg_overall_deadline = 150000, wg_quiet_after_first = 20000,
      wg_target_successes = 3, wg_early_exit_first = False, wg_full_subnet = False, wg_sample_per_cidr = 50\<rparr>"
| "wg_scan_mode_strategy WgIronclad =
     \<lparr>wg_concurrency = 4, wg_per_probe_timeout = 15000, wg_overall_deadline = 180000, wg_quiet_after_first = 15000,
      wg_target_successes = 3, wg_early_exit_first = False, wg_full_subnet = False, wg_sample_per_cidr = 120\<rparr>"

definition WG_IRONCLAD_TCPING_TIMEOUT :: nat where "WG_IRONCLAD_TCPING_TIMEOUT = 10000"

subsection \<open>The copies of the block functions\<close>

definition wg_parse_cidr_v4 :: "str \<Rightarrow> (u32 \<times> nat) option" where
  "wg_parse_cidr_v4 cidr = do {
     (ip, prefix) \<leftarrow> split_once (CHR ''/'') cidr;
     a \<leftarrow> parse_ipv4 ip;
     p \<leftarrow> parse_uint 8 prefix;
     Some (a, p)
   }"

definition wg_enumerate_cidr_v4 :: "str \<Rightarrow> u32 list" where
  "wg_enumerate_cidr_v4 cidr =
     (case wg_parse_cidr_v4 cidr of
        None \<Rightarrow> []
      | Some (base, prefix) \<Rightarrow>
          (let host_bits = 32 - prefix in
           if host_bits = 0 then [base]
           else if 12 < host_bits then []
           else
             (let size = 2 ^ host_bits :: nat
              in map (\<lambda>off. base + word_of_nat off) [1..<size - 1])))"

text \<open>The loop of the copy is word for word that of the original: \<open>sample_loop\<close>.\<close>

definition wg_sample_cidr_v4 :: "rng \<Rightarrow> str \<Rightarrow> nat \<Rightarrow> nat \<Rightarrow> (u32 list \<times> nat) option" where
  "wg_sample_cidr_v4 g cidr n k =
     (case wg_parse_cidr_v4 cidr of
        None \<Rightarrow> Some ([], k)
      | Some (base, prefix) \<Rightarrow>
          (let host_bits = 32 - prefix;
               size = (if 32 \<le> host_bits then 2 ^ 32 - 1 else 2 ^ host_bits :: nat)
           in if size \<le> 2 then Some ([base], k)
              else
                (let usable = size - 2; want = min (n mod 2 ^ 32) usable
                 in sample_loop g base usable want [] [] k)))"

definition wg_parse_cidr_v6 :: "str \<Rightarrow> (u128 \<times> nat) option" where
  "wg_parse_cidr_v6 cidr = do {
     (ip, prefix) \<leftarrow> split_once (CHR ''/'') cidr;
     a \<leftarrow> parse_ipv6 ip;
     p \<leftarrow> parse_uint 8 prefix;
     Some (a, p)
   }"

definition wg_draw_embedded :: "rng \<Rightarrow> (u32 \<times> nat) list \<Rightarrow> u128 rand" where
  "wg_draw_embedded g v4 =
     (if v4 = [] then do { r \<leftarrow> gen_u32 g; State_Monad.return (ucast r) }
      else do {
        i \<leftarrow> gen_range g 0 (length v4 - 1);
        (let (b, p) = v4 ! i; host_bits = 32 - p in do {
           host \<leftarrow> (if host_bits = 0 then State_Monad.return 0
                    else do { r \<leftarrow> gen_u32 g; State_Monad.return (r AND (2 ^ host_bits - 1)) });
           State_Monad.return (ucast (b OR host))
         })
      })"

definition wg_sample_cidr_v6 :: "rng \<Rightarrow> str \<Rightarrow> nat \<Rightarrow> str list \<Rightarrow> u128 list rand" where
  "wg_sample_cidr_v6 g cidr n v4_cidrs =
     (case wg_parse_cidr_v6 cidr of
        None \<Rightarrow> State_Monad.return []
      | Some (base, prefix) \<Rightarrow>
          if 128 - prefix = 0 then State_Monad.return [base]
          else
            (let v4 = List.map_filter wg_parse_cidr_v4 v4_cidrs in
             repeat_rand n (\<lambda>_. do { e \<leftarrow> wg_draw_embedded g v4; State_Monad.return [base OR e] })))"

lemma wg_cidr_eq:
  "wg_parse_cidr_v4 = parse_cidr_v4" "wg_enumerate_cidr_v4 = enumerate_cidr_v4"
  "wg_sample_cidr_v4 = sample_cidr_v4" "wg_parse_cidr_v6 = parse_cidr_v6" "wg_sample_cidr_v6 = sample_cidr_v6"
proof -
  show 4: "wg_parse_cidr_v4 = parse_cidr_v4" by (rule ext) (simp add: wg_parse_cidr_v4_def parse_cidr_v4_def)
  show 6: "wg_parse_cidr_v6 = parse_cidr_v6" by (rule ext) (simp add: wg_parse_cidr_v6_def parse_cidr_v6_def)
  have d: "wg_draw_embedded = draw_embedded" by (intro ext) (simp add: wg_draw_embedded_def draw_embedded_def)
  show "wg_enumerate_cidr_v4 = enumerate_cidr_v4"
    by (rule ext) (simp add: wg_enumerate_cidr_v4_def enumerate_cidr_v4_def 4)
  show "wg_sample_cidr_v4 = sample_cidr_v4"
    unfolding wg_sample_cidr_v4_def [abs_def] sample_cidr_v4_def [abs_def] 4 by (rule refl)
  show "wg_sample_cidr_v6 = sample_cidr_v6"
    unfolding wg_sample_cidr_v6_def [abs_def] sample_cidr_v6_def [abs_def] 4 6 d by (rule refl)
qed

subsection \<open>Candidates\<close>

fun wg_hosts_v4 :: "rng \<Rightarrow> wg_strategy \<Rightarrow> str list \<Rightarrow> nat \<Rightarrow> (u32 list list \<times> nat) option" where
  "wg_hosts_v4 g st [] k = Some ([], k)"
| "wg_hosts_v4 g st (c # cs) k = do {
     (h, k) \<leftarrow>
       (if wg_full_subnet st then Some (wg_enumerate_cidr_v4 c, k)
        else wg_sample_cidr_v4 g c (wg_sample_per_cidr st) k);
     (hs, k) \<leftarrow> wg_hosts_v4 g st cs k;
     Some (h # hs, k)
   }"

fun wg_hosts_v6 :: "rng \<Rightarrow> nat \<Rightarrow> str list \<Rightarrow> str list \<Rightarrow> nat \<Rightarrow> u128 list list \<times> nat" where
  "wg_hosts_v6 g per v4_cidrs [] k = ([], k)"
| "wg_hosts_v6 g per v4_cidrs (c # cs) k =
     (let (h, k) = run_state (wg_sample_cidr_v6 g c per v4_cidrs) k;
          (hs, k) = wg_hosts_v6 g per v4_cidrs cs k
      in (h # hs, k))"

definition dedup_ports :: "u16 list \<Rightarrow> u16 list" where
  "dedup_ports ports = (let deduped = snd (offer_all ports ({}, [])) in if deduped = [] then [2408] else deduped)"

definition wg_anchors :: "ip_scan \<Rightarrow> ip_addr list" where
  "wg_anchors ip =
     (if want_v4 ip then map IpV4 (List.map_filter parse_ipv4 WG_SEEDS_V4) else [])
     @ (if want_v6 ip then map IpV6 (List.map_filter parse_ipv6 WG_SEEDS_V6) else [])"

text \<open>The addresses take the ports in turn.\<close>

definition deal_ports :: "u16 list \<Rightarrow> ip_addr list \<Rightarrow> (ip_addr \<times> u16) list" where
  "deal_ports ports ips = map (\<lambda>(i, a). (a, ports ! (i mod length ports))) (zip [0..<length ips] ips)"

definition build_wg_candidates :: "rng \<Rightarrow> wg_strategy \<Rightarrow> u16 list \<Rightarrow> ip_scan \<Rightarrow> nat \<Rightarrow> ((ip_addr \<times> u16) list \<times> nat) option" where
  "build_wg_candidates g st ports ip k = do {
     let ports = dedup_ports ports;
     (pool4, k) \<leftarrow>
       (if want_v4 ip then do {
          (cidr_hosts, k) \<leftarrow> wg_hosts_v4 g st WG_PREFIXES_V4 k;
          Some (map IpV4 (interleave cidr_hosts), k)
        } else Some ([], k));
     let (pool6, k) =
       (if want_v6 ip then
          (let per = (if wg_sample_per_cidr st = 0 then 80 else wg_sample_per_cidr st);
               (cidr6, k) = wg_hosts_v6 g per WG_PREFIXES_V4 WG_PREFIXES_V6 k
           in (map IpV6 (interleave cidr6), k))
        else ([], k));
     let ips = wg_anchors ip @ pool4 @ pool6;
     Some (snd (offer_all (deal_ports ports ips) ({}, [])), k)
   }"

subsection \<open>Checking one candidate, and the selection loop\<close>

record wg_probe_result =
  wpr_ip :: ip_addr
  wpr_port :: u16
  wrtt :: nat

text \<open>The endpoint check of \<open>Wireguard\<close> and the HTTP round trip through an established session.\<close>

record wg_checks =
  wg_verify :: "sock_addr \<Rightarrow> nat \<Rightarrow> nat result"
  wg_http_ping :: "sock_addr \<Rightarrow> nat \<Rightarrow> nat result"

definition verify_one_wg :: "wg_checks \<Rightarrow> ip_addr \<Rightarrow> u16 \<Rightarrow> nat \<Rightarrow> bool \<Rightarrow> wg_probe_result option" where
  "verify_one_wg ck ip port timeout ironclad =
     (let peer = SockAddr ip port in
      case wg_verify ck peer timeout of
        Inl e \<Rightarrow> None
      | Inr t \<Rightarrow>
          if \<not> ironclad then Some \<lparr>wpr_ip = ip, wpr_port = port, wrtt = t\<rparr>
          else
            (case wg_http_ping ck peer WG_IRONCLAD_TCPING_TIMEOUT of
               Inr http_rtt \<Rightarrow> Some \<lparr>wpr_ip = ip, wpr_port = port, wrtt = http_rtt\<rparr>
             | Inl e \<Rightarrow> None))"

record wg_scan =
  wbest :: "wg_probe_result option"
  wfound :: nat
  wquiet_until :: "nat option"

definition wg_scan_start :: wg_scan where
  "wg_scan_start = \<lparr>wbest = None, wfound = 0, wquiet_until = None\<rparr>"

definition wg_scan_finish :: "wg_probe_result option \<Rightarrow> wg_probe_result result" where
  "wg_scan_finish b = (case b of Some pr \<Rightarrow> Inr pr | None \<Rightarrow> Inl NoCleanEndpoint)"

definition wg_scan_take :: "wg_strategy \<Rightarrow> nat \<Rightarrow> wg_probe_result \<Rightarrow> wg_scan \<Rightarrow> (wg_scan, wg_probe_result result) ctl" where
  "wg_scan_take st t pr s =
     (if wg_early_exit_first st then Stop (Inr pr)
      else
        (let s = s\<lparr>wbest := Some (case wbest s of Some cur \<Rightarrow> if wrtt cur \<le> wrtt pr then cur else pr | None \<Rightarrow> pr),
                  wfound := wfound s + 1\<rparr>
         in if 0 < wg_target_successes st \<and> wg_target_successes st \<le> wfound s \<and> wquiet_until s = None then
              (if wg_quiet_after_first st \<noteq> 0 then Go (s\<lparr>wquiet_until := Some (t + wg_quiet_after_first st)\<rparr>)
               else Stop (wg_scan_finish (wbest s)))
            else Go s))"

definition wg_scan_step :: "wg_checks \<Rightarrow> wg_strategy \<Rightarrow> bool \<Rightarrow> nat \<Rightarrow> scan_turn \<Rightarrow> wg_scan \<Rightarrow> (wg_scan, wg_probe_result result) ctl" where
  "wg_scan_step ck st ironclad deadline e s =
     (let effective = (case wquiet_until s of Some q \<Rightarrow> min q deadline | None \<Rightarrow> deadline) in
      if effective - at_ms e = 0 then Stop (wg_scan_finish (wbest s))
      else
        (case item e of
           Exhausted \<Rightarrow> Stop (wg_scan_finish (wbest s))
         | Waited \<Rightarrow> Stop (wg_scan_finish (wbest s))
         | Finished t (ip, port) \<Rightarrow>
             (case verify_one_wg ck ip port (wg_per_probe_timeout st) ironclad of
                None \<Rightarrow> Go s
              | Some pr \<Rightarrow> wg_scan_take st t pr s)))"

definition hunt_best_wg_endpoint ::
  "wg_checks \<Rightarrow> rng \<Rightarrow> bool \<Rightarrow> u16 list \<Rightarrow> ip_scan \<Rightarrow> wg_scan_mode \<Rightarrow> nat \<Rightarrow> scan_turn list \<Rightarrow> nat
    \<Rightarrow> ((ip_addr \<times> u16) list \<times> (wg_scan, wg_probe_result result) ctl) option" where
  "hunt_best_wg_endpoint ck g has_v6 ports ip mode start turns k =
     (let st = wg_scan_mode_strategy mode in
      if want_v6 ip \<and> \<not> has_v6 \<and> \<not> want_v4 ip then Some ([], Stop (Inl NoCleanEndpoint))
      else do {
        let effective_ip = (if want_v6 ip \<and> \<not> has_v6 then V4 else ip);
        (candidates, k) \<leftarrow> build_wg_candidates g st ports effective_ip k;
        Some (candidates,
          run_loop (wg_scan_step ck st (mode = WgIronclad) (start + wg_overall_deadline st)) turns wg_scan_start)
      })"

subsection \<open>The loop meets the contract of a selection\<close>

definition wg_scan_yields :: "wg_checks \<Rightarrow> wg_strategy \<Rightarrow> bool \<Rightarrow> scan_turn \<Rightarrow> wg_probe_result option" where
  "wg_scan_yields ck st ironclad e =
     (case item e of Finished t (ip, port) \<Rightarrow> verify_one_wg ck ip port (wg_per_probe_timeout st) ironclad | _ \<Rightarrow> None)"

lemma wg_scan_finish_selection: "wg_scan_finish b = selection b"
  by (simp add: wg_scan_finish_def selection_def)

interpretation endpoint: selection_loop "wg_scan_step ck st ironclad deadline" wbest
    "wg_scan_yields ck st ironclad" wrtt "\<lambda>s. wg_early_exit_first st \<longrightarrow> wbest s = None" for ck st ironclad deadline
proof
  fix s :: wg_scan and e s' r assume s: "wg_early_exit_first st \<longrightarrow> wbest s = None"
  show "wg_scan_step ck st ironclad deadline e s = Go s' \<Longrightarrow>
      (wg_early_exit_first st \<longrightarrow> wbest s' = None)
      \<and> wbest s' = (case wg_scan_yields ck st ironclad e of None \<Rightarrow> wbest s | Some pr \<Rightarrow> better wrtt (wbest s) pr)"
    using s by (auto simp: wg_scan_step_def wg_scan_take_def wg_scan_yields_def better_def Let_def
        split: if_splits scan_item.splits option.splits)
  show "wg_scan_step ck st ironclad deadline e s = Stop r \<Longrightarrow>
      r = selection (wbest s)
      \<or> (\<exists>pr. wg_scan_yields ck st ironclad e = Some pr \<and> r = selection (better wrtt (wbest s) pr))"
    using s by (auto simp: wg_scan_step_def wg_scan_take_def wg_scan_yields_def better_def Let_def
        wg_scan_finish_selection selection_def split: if_splits scan_item.splits option.splits)
qed

lemma verify_one_wg_candidate: "verify_one_wg ck ip port t ironclad = Some pr \<Longrightarrow> wpr_ip pr = ip \<and> wpr_port pr = port"
  by (auto simp: verify_one_wg_def Let_def split: if_splits sum.splits)

subsection \<open>The candidates\<close>

lemma dedup_ports_props: "distinct (dedup_ports ports)" "dedup_ports ports \<noteq> []"
    "set (dedup_ports ports) = (if ports = [] then {2408} else set ports)"
proof -
  have e: "extends (\<lambda>p. p \<in> set ports) (set ports) ({}, []) (offer_all ports ({}, []))"
    by (rule offer_all_extends) (simp add: list_all_iff)
  then have s: "set (snd (offer_all ports ({}, []))) = set ports" "distinct (snd (offer_all ports ({}, [])))"
    by (auto simp: extends_def consistent_def list_all_iff)
  have empty: "snd (offer_all ports ({}, [])) = [] \<longleftrightarrow> ports = []" using s(1) by (metis set_empty)
  show "dedup_ports ports \<noteq> []" "distinct (dedup_ports ports)"
    using s by (simp_all add: dedup_ports_def Let_def)
  show "set (dedup_ports ports) = (if ports = [] then {2408} else set ports)"
    using s(1) by (simp add: dedup_ports_def Let_def empty)
qed

lemma deal_ports_props:
  assumes "ports \<noteq> []"
  shows "map fst (deal_ports ports ips) = ips" and "list_all (\<lambda>c. snd c \<in> set ports) (deal_ports ports ips)"
proof -
  have "map fst (deal_ports ports ips) = map snd (zip [0..<length ips] ips)"
    unfolding deal_ports_def by (simp add: comp_def case_prod_unfold)
  then show "map fst (deal_ports ports ips) = ips" by simp
  have "i mod length ports < length ports" for i using assms by simp
  then show "list_all (\<lambda>c. snd c \<in> set ports) (deal_ports ports ips)"
    by (auto simp: deal_ports_def list_all_iff)
qed

definition wg_candidate_ok :: "u16 list \<Rightarrow> ip_scan \<Rightarrow> ip_addr \<times> u16 \<Rightarrow> bool" where
  "wg_candidate_ok ports ip c \<longleftrightarrow>
     (if ports = [] then snd c = 2408 else snd c \<in> set ports) \<and> family_ok ip (fst c)"

lemma wg_anchors_family: "a \<in> set (wg_anchors ip) \<Longrightarrow> family_ok ip a"
  by (auto simp: wg_anchors_def family_ok_def split: if_splits)

lemma build_wg_candidates_pools:
  assumes "build_wg_candidates g st ports ip k = Some (cs, k')"
  obtains pool where "\<forall>a \<in> set pool. family_ok ip a"
    "cs = snd (offer_all (deal_ports (dedup_ports ports) (wg_anchors ip @ pool)) ({}, []))"
proof -
  obtain pool4 k1 where p4: "(if want_v4 ip then do {
          (cidr_hosts, k) \<leftarrow> wg_hosts_v4 g st WG_PREFIXES_V4 k;
          Some (map IpV4 (interleave cidr_hosts), k)
        } else Some ([], k)) = Some (pool4, k1)"
    using assms by (auto simp: build_wg_candidates_def Let_def split: Option.bind_splits)
  obtain pool6 k2 where p6: "(if want_v6 ip then
          (let per = (if wg_sample_per_cidr st = 0 then 80 else wg_sample_per_cidr st);
               (cidr6, k) = wg_hosts_v6 g per WG_PREFIXES_V4 WG_PREFIXES_V6 k1
           in (map IpV6 (interleave cidr6), k))
        else ([], k1)) = (pool6, k2)" by fastforce
  have "\<forall>a \<in> set (pool4 @ pool6). family_ok ip a"
    using p4 p6 by (auto simp: family_ok_def Let_def split: if_splits Option.bind_splits prod.splits)
  moreover have "cs = snd (offer_all (deal_ports (dedup_ports ports) (wg_anchors ip @ pool4 @ pool6)) ({}, []))"
    using assms unfolding build_wg_candidates_def p4 by (simp add: p6 Let_def)
  ultimately show ?thesis using that [of "pool4 @ pool6"] by simp
qed

subsection \<open>Properties\<close>

text \<open>The candidates of a WireGuard scan are each tried once, on one of the ports asked for
  (2408 when none is) and of an address family asked for, and every well-known address of those
  families is among them.\<close>

theorem build_wg_candidates_good:
  assumes "build_wg_candidates g st ports ip k = Some (cs, k')"
  shows "distinct cs \<and> list_all (wg_candidate_ok ports ip) cs \<and> set (wg_anchors ip) \<subseteq> fst ` set cs"
proof -
  obtain pool where pool: "\<forall>a \<in> set pool. family_ok ip a"
    and cs: "cs = snd (offer_all (deal_ports (dedup_ports ports) (wg_anchors ip @ pool)) ({}, []))"
    by (rule build_wg_candidates_pools [OF assms])
  let ?d = "deal_ports (dedup_ports ports) (wg_anchors ip @ pool)"
  have f: "map fst ?d = wg_anchors ip @ pool" and p: "list_all (\<lambda>c. snd c \<in> set (dedup_ports ports)) ?d"
    using deal_ports_props [OF dedup_ports_props(2)] by blast+
  have "family_ok ip (fst c)" if "c \<in> set ?d" for c
  proof -
    have "fst c \<in> set (map fst ?d)" using that by simp
    then show ?thesis unfolding f using pool wg_anchors_family by auto
  qed
  then have "list_all (wg_candidate_ok ports ip) ?d"
    using p dedup_ports_props(3) [of ports] by (auto simp: list_all_iff wg_candidate_ok_def)
  from offer_all_extends [OF this, of "({}, [])"]
  have "distinct cs" "list_all (wg_candidate_ok ports ip) cs" "set ?d \<subseteq> set cs"
    by (auto simp: cs extends_def consistent_def)
  moreover have "set (wg_anchors ip) \<subseteq> fst ` set ?d"
    unfolding set_map [symmetric] f by simp
  ultimately show ?thesis by blast
qed

lemma wg_hosts_v4_full: "wg_full_subnet st \<Longrightarrow> \<exists>hs. wg_hosts_v4 g st cs k = Some (hs, k)"
proof (induction cs)
  case (Cons c cs)
  then obtain hs where "wg_hosts_v4 g st cs k = Some (hs, k)" by blast
  then show ?case using Cons.prems by simp
qed simp

lemma wg_thorough_candidates:
  "\<exists>cs. build_wg_candidates g (wg_scan_mode_strategy WgThorough) ports V4 k = Some (cs, k)"
proof -
  obtain hs where "wg_hosts_v4 g (wg_scan_mode_strategy WgThorough) WG_PREFIXES_V4 k = Some (hs, k)"
    using wg_hosts_v4_full [of "wg_scan_mode_strategy WgThorough" g WG_PREFIXES_V4 k] by auto
  then show ?thesis by (simp add: build_wg_candidates_def want_v4_def want_v6_def Let_def)
qed

theorem build_wg_candidates_good_witness:
  "\<exists>cs. build_wg_candidates (\<lambda>_. 0) (wg_scan_mode_strategy WgThorough) [500, 4500, 500] V4 0 = Some (cs, 0)
     \<and> distinct cs \<and> list_all (wg_candidate_ok [500, 4500, 500] V4) cs"
proof -
  obtain cs where cs: "build_wg_candidates (\<lambda>_. 0) (wg_scan_mode_strategy WgThorough) [500, 4500, 500] V4 0 = Some (cs, 0)"
    using wg_thorough_candidates by blast
  then show ?thesis using build_wg_candidates_good [OF cs] by blast
qed

text \<open>A search ends with the selection of what it had verified when it ended.\<close>

lemma hunt_best_wg_endpoint_ends:
  assumes "hunt_best_wg_endpoint ck g has_v6 ports ip mode start turns k = Some (cands, Stop r)"
  shows "\<exists>n. r = selection (fastest wrtt
    (List.map_filter (wg_scan_yields ck (wg_scan_mode_strategy mode) (mode = WgIronclad)) (take n turns)))"
proof -
  let ?st = "wg_scan_mode_strategy mode" and ?i = "mode = WgIronclad"
  let ?v = "\<lambda>n. List.map_filter (wg_scan_yields ck ?st ?i) (take n turns)"
  show ?thesis
  proof (cases "want_v6 ip \<and> \<not> has_v6 \<and> \<not> want_v4 ip")
    case True
    then have "r = selection (fastest wrtt (?v 0))"
      using assms by (simp add: hunt_best_wg_endpoint_def Let_def selection_def)
    then show ?thesis ..
  next
    case False
    then have run: "run_loop (wg_scan_step ck ?st ?i (start + wg_overall_deadline ?st)) turns wg_scan_start = Stop r"
      using assms by (auto simp: hunt_best_wg_endpoint_def Let_def split: Option.bind_splits)
    show ?thesis using endpoint.run_Stop [OF _ _ run, of "[]"] by (simp add: wg_scan_start_def)
  qed
qed

lemma hunt_best_wg_endpoint_verified:
  assumes "hunt_best_wg_endpoint ck g has_v6 ports ip mode start turns k = Some (cands, Stop (Inr pr))"
  shows "\<exists>e \<in> set turns. wg_scan_yields ck (wg_scan_mode_strategy mode) (mode = WgIronclad) e = Some pr"
proof -
  let ?v = "\<lambda>n. List.map_filter (wg_scan_yields ck (wg_scan_mode_strategy mode) (mode = WgIronclad)) (take n turns)"
  obtain n where "Inr pr = selection (fastest wrtt (?v n))" using hunt_best_wg_endpoint_ends [OF assms] ..
  then have "fastest wrtt (?v n) = Some pr" by (auto simp: selection_def split: option.splits)
  then have "pr \<in> set (?v n)" using fastest_Some by metis
  then show ?thesis by (auto simp: List.map_filter_def dest!: in_set_takeD)
qed

text \<open>The WireGuard search returns the fastest endpoint: one of its candidates, which passed the
  check of its mode, and none taken before the search ended was faster; and it fails only when
  none of those passed.\<close>

theorem hunt_best_wg_endpoint_selects:
  assumes "hunt_best_wg_endpoint ck g has_v6 ports ip mode start turns k = Some (cands, Stop r)"
    and "\<forall>e \<in> set turns. case item e of Finished t c \<Rightarrow> c \<in> set cands | _ \<Rightarrow> True"
  shows "\<exists>n. let verified = List.map_filter (wg_scan_yields ck (wg_scan_mode_strategy mode) (mode = WgIronclad)) (take n turns) in
    case r of
      Inr pr \<Rightarrow> pr \<in> set verified \<and> (\<forall>q \<in> set verified. wrtt pr \<le> wrtt q) \<and> (wpr_ip pr, wpr_port pr) \<in> set cands
    | Inl e \<Rightarrow> e = NoCleanEndpoint \<and> verified = []"
proof -
  let ?st = "wg_scan_mode_strategy mode" and ?i = "mode = WgIronclad"
  let ?v = "\<lambda>n. List.map_filter (wg_scan_yields ck ?st ?i) (take n turns)"
  obtain n where n: "r = selection (fastest wrtt (?v n))" using hunt_best_wg_endpoint_ends [OF assms(1)] ..
  have cand: "(wpr_ip pr, wpr_port pr) \<in> set cands" if v: "pr \<in> set (?v n)" for pr
  proof -
    obtain e where e: "e \<in> set turns" "wg_scan_yields ck ?st ?i e = Some pr"
      using v by (auto simp: List.map_filter_def dest!: in_set_takeD)
    then obtain t i p where "item e = Finished t (i, p)" "verify_one_wg ck i p (wg_per_probe_timeout ?st) ?i = Some pr"
      by (auto simp: wg_scan_yields_def split: scan_item.splits prod.splits)
    then show ?thesis using verify_one_wg_candidate assms(2) e(1) by fastforce
  qed
  show ?thesis
  proof (cases "fastest wrtt (?v n)")
    case None
    then show ?thesis using n by (intro exI [of _ n]) (simp add: selection_def fastest_None Let_def)
  next
    case (Some pr)
    then show ?thesis using n cand fastest_Some [OF Some]
      by (intro exI [of _ n]) (simp add: selection_def Let_def)
  qed
qed

definition sample_wg_checks :: wg_checks where
  "sample_wg_checks = \<lparr>wg_verify = (\<lambda>a _. Inr (unat (sa_port a))), wg_http_ping = (\<lambda>_ _. Inl NoCleanEndpoint)\<rparr>"

theorem hunt_best_wg_endpoint_selects_witness:
  "\<exists>cands. hunt_best_wg_endpoint sample_wg_checks (\<lambda>_. 0) False [500] V4 WgThorough 0 [\<lparr>at_ms = 0, item = Waited\<rparr>] 0
     = Some (cands, Stop (Inl NoCleanEndpoint))"
proof -
  obtain cs where cs: "build_wg_candidates (\<lambda>_. 0) (wg_scan_mode_strategy WgThorough) [500] V4 0 = Some (cs, 0)"
    using wg_thorough_candidates by blast
  have run: "hunt_best_wg_endpoint sample_wg_checks (\<lambda>_. 0) False [500] V4 WgThorough 0 [\<lparr>at_ms = 0, item = Waited\<rparr>] 0
      = Some (cs, Stop (Inl NoCleanEndpoint))"
    using cs by (simp add: hunt_best_wg_endpoint_def want_v4_def want_v6_def wg_scan_step_def wg_scan_start_def
        wg_scan_finish_def)
  from hunt_best_wg_endpoint_selects [OF run] run show ?thesis by blast
qed

end
