(* ===== verification/Tls.thy ===== *)
theory Tls
  imports Errors Consts
begin

section \<open>TLS configuration and encrypted client hello (tls.rs)\<close>

text \<open>
  The configuration of a QUIC connection and the calls around encrypted client hello. The
  boring and base64 crates are parameters: the calls that can fail return their error text.
  The functions on a connection take the two calls of the C library on a connection of any
  type.
\<close>

definition show_int :: "int \<Rightarrow> str" where
  "show_int i = (if i < 0 then ''-'' @ show_nat (nat (- i)) else show_nat (nat i))"

definition CHROME_GROUPS :: str where "CHROME_GROUPS = ''P-256:X25519:P-384''"

record tls_params =
  tp_cert_pem :: bytes
  tp_key_pem :: bytes
  pin_endpoint :: bool

text \<open>What the code asks of boring and of quiche; certificates and keys are of any type.\<close>

record ('x, 'k) boring =
  new_context :: "str option"
  set_min_proto_version :: "str \<Rightarrow> str option"
  set_max_proto_version :: "str \<Rightarrow> str option"
  set_curves_list :: "str \<Rightarrow> str option"
  set_alpn_protos :: "bytes \<Rightarrow> str option"
  x509_from_pem :: "bytes \<Rightarrow> str + 'x"
  private_key_from_pem :: "bytes \<Rightarrow> str + 'k"
  set_certificate :: "'x \<Rightarrow> str option"
  set_private_key :: "'x \<Rightarrow> 'k \<Rightarrow> str option"
  with_context :: "str option"
  set_application_protos :: "bytes list \<Rightarrow> str option"

text \<open>The settings a configuration carries.\<close>

record ('x, 'k) quic_config =
  curves :: str
  alpn_wire :: bytes
  application_protos :: "bytes list"
  certificate :: 'x
  private_key :: 'k
  verify_peer :: bool
  grease :: bool
  max_idle_timeout :: nat
  max_udp_payload :: nat
  initial_max_data :: nat
  initial_max_stream_data :: nat
  initial_max_streams :: nat
  active_migration_disabled :: bool
  dgram_queues :: "(nat \<times> nat) option"

definition tls_groups :: "(str \<Rightarrow> str option) \<Rightarrow> str" where
  "tls_groups env =
     (case env ''AETHER_TLS_GROUPS'' of
        Some s \<Rightarrow> (if trim s = [] then CHROME_GROUPS else trim s)
      | None \<Rightarrow> CHROME_GROUPS)"

definition or_err :: "(str \<Rightarrow> aether_error) \<Rightarrow> str option \<Rightarrow> 'a result \<Rightarrow> 'a result" where
  "or_err f e k = (case e of Some t \<Rightarrow> Inl (f t) | None \<Rightarrow> k)"

definition or_fail :: "(str \<Rightarrow> aether_error) \<Rightarrow> str + 'b \<Rightarrow> ('b \<Rightarrow> 'a result) \<Rightarrow> 'a result" where
  "or_fail f r k = (case r of Inl t \<Rightarrow> Inl (f t) | Inr x \<Rightarrow> k x)"

definition build_config :: "('x, 'k) boring \<Rightarrow> (str \<Rightarrow> str option) \<Rightarrow> tls_params \<Rightarrow> ('x, 'k) quic_config result" where
  "build_config b env params =
     (let groups = tls_groups env;
          alpn = word_of_nat (length ALPN_H3) # ALPN_H3
      in or_err Tls (new_context b)
         (or_err Tls (set_min_proto_version b ''TLS1.3'')
         (or_err Tls (set_max_proto_version b ''TLS1.3'')
         (or_err Tls (set_curves_list b groups)
         (or_err Tls (set_alpn_protos b alpn)
         (or_fail Tls (x509_from_pem b (tp_cert_pem params)) (\<lambda>cert.
          or_fail Tls (private_key_from_pem b (tp_key_pem params)) (\<lambda>key.
          or_err Tls (set_certificate b cert)
         (or_err Tls (set_private_key b cert key)
         (or_err Quic (with_context b)
         (or_err Quic (set_application_protos b [ALPN_H3])
         (Inr \<lparr>curves = groups, alpn_wire = alpn, application_protos = [ALPN_H3], certificate = cert,
            private_key = key, verify_peer = False, grease = True, max_idle_timeout = 120000,
            max_udp_payload = 1350, initial_max_data = 10000000, initial_max_stream_data = 2000000,
            initial_max_streams = 100, active_migration_disabled = True,
            dgram_queues = Some (65536, 65536)\<rparr>))))))))))))"

subsection \<open>Encrypted client hello\<close>

definition inject_ech :: "(bytes \<Rightarrow> 'c \<Rightarrow> 'c \<times> int) \<Rightarrow> bytes \<Rightarrow> 'c \<Rightarrow> 'c \<times> unit result" where
  "inject_ech set1 ech c =
     (if ech = [] then (c, Inl (Ech ''empty ech config list''))
      else
        (let (c, rc) = set1 ech c in
         if rc \<noteq> 1 then (c, Inl (Ech (''SSL_set1_ech_config_list failed (rc='' @ show_int rc @ '')'')))
         else (c, Inr ())))"

text \<open>\<open>get0\<close>: the bytes behind the pointer the library writes, if it writes one.\<close>

definition extract_ech_retry_configs :: "('c \<Rightarrow> bytes option) \<Rightarrow> 'c \<Rightarrow> bytes option" where
  "extract_ech_retry_configs get0 c =
     (case get0 c of None \<Rightarrow> None | Some out \<Rightarrow> if out = [] then None else Some out)"

definition decode_ech_config_list :: "(str \<Rightarrow> str + bytes) \<Rightarrow> str \<Rightarrow> bytes result" where
  "decode_ech_config_list b64 s = or_fail Ech (b64 (trim s)) Inr"

lemma extract_nonempty: "extract_ech_retry_configs get0 c = Some e \<Longrightarrow> e \<noteq> []"
  by (auto simp: extract_ech_retry_configs_def split: option.splits if_splits)

text \<open>The pin of the parameters has no effect: two sets that differ in it configure the same.\<close>

lemma build_config_ignores_pin: "build_config b env (params\<lparr>pin_endpoint := p\<rparr>) = build_config b env params"
  by (simp add: build_config_def)

lemma build_config_never_verifies: "build_config b env params = Inr c \<Longrightarrow> \<not> verify_peer c"
  by (auto simp: build_config_def or_err_def or_fail_def Let_def split: option.splits sum.splits)

end
