(* ===== verification/Quic_Conn.thy ===== *)
theory Quic_Conn
  imports Masque Ip_Packet Tls Noize
begin

section \<open>The interface of quiche and what the tunnel does with a connection (quic.rs)\<close>

text \<open>
  The quiche crate is a parameter: a record of the calls on a connection of any type \<open>'c\<close> and
  an HTTP/3 connection of any type \<open>'h\<close>; the call of the timer, \<open>on_timeout\<close>, is a parameter
  of the loops of its own. Errors of quiche are the text they render to. A loop
  that calls quiche until it has nothing left is a partial function: it returns \<open>None\<close> when it
  never ends. The locale \<open>quiche_queues\<close> states that the queues of quiche are finite, which
  makes every one of these loops end; it is interpreted on a connection that is a script of
  what the calls return.
\<close>

type_synonym header = "bytes \<times> bytes"

datatype h3_event = Headers u64 "header list" | BodyData u64 | OtherEvent u64

datatype h3_poll = PollEvent h3_event | PollDone | PollErr str

datatype dgram = DgramOk bytes | DgramDone | DgramErr str

text \<open>\<open>Packet data from to\<close>: a packet to be sent from one of our addresses.\<close>

datatype packet_out = Packet bytes sock_addr sock_addr | SendDone | SendErr str

record ('c, 'h) quiche =
  q_connect :: "str \<Rightarrow> bytes \<Rightarrow> sock_addr \<Rightarrow> sock_addr \<Rightarrow> str + 'c"
  q_set1_ech :: "bytes \<Rightarrow> 'c \<Rightarrow> 'c \<times> int"
  q_get0_retry :: "'c \<Rightarrow> bytes option"
  q_established :: "'c \<Rightarrow> bool"
  q_closed :: "'c \<Rightarrow> bool"
  q_ack_eliciting :: "'c \<Rightarrow> 'c"
  q_dgram_send :: "bytes \<Rightarrow> 'c \<Rightarrow> 'c"
  q_dgram_recv :: "'c \<Rightarrow> 'c \<times> dgram"
  q_recv :: "bytes \<Rightarrow> sock_addr \<Rightarrow> sock_addr \<Rightarrow> 'c \<Rightarrow> 'c"
  q_close :: "str \<Rightarrow> 'c \<Rightarrow> 'c"
  q_send :: "'c \<Rightarrow> 'c \<times> packet_out"
  q_h3 :: "'c \<Rightarrow> 'c \<times> (str + 'h)"
  q_request :: "(str \<times> str) list \<Rightarrow> 'c \<Rightarrow> 'h \<Rightarrow> ('c \<times> 'h) \<times> (str + u64)"
  q_poll :: "'c \<Rightarrow> 'h \<Rightarrow> ('c \<times> 'h) \<times> h3_poll"
  q_body :: "u64 \<Rightarrow> 'c \<Rightarrow> 'h \<Rightarrow> ('c \<times> 'h) \<times> bytes option"
  q_spare_dcids :: "'c \<Rightarrow> nat"
  q_probe_path :: "sock_addr \<Rightarrow> sock_addr \<Rightarrow> 'c \<Rightarrow> 'c \<times> str option"
  q_migrate_source :: "sock_addr \<Rightarrow> 'c \<Rightarrow> 'c \<times> str option"

text \<open>
  The queues are finite: every datagram, packet, event and piece of body that is taken leaves
  fewer of its kind, \<open>dgrams\<close>, \<open>packets\<close> and \<open>events\<close> counting what is left. Queueing a
  datagram adds nothing to what was received.
\<close>

locale quiche_queues =
  fixes q :: "('c, 'h) quiche" and dgrams packets :: "'c \<Rightarrow> nat" and events :: "'c \<Rightarrow> 'h \<Rightarrow> nat"
  assumes dgram_taken: "q_dgram_recv q c = (c', DgramOk d) \<Longrightarrow> dgrams c' < dgrams c"
    and dgram_queued: "dgrams (q_dgram_send q d c) \<le> dgrams c" "events (q_dgram_send q d c) h \<le> events c h"
    and packet_taken: "q_send q c = (c', Packet d from to) \<Longrightarrow> packets c' < packets c"
    and event_taken: "q_poll q c h = ((c', h'), PollEvent e) \<Longrightarrow> events c' h' < events c h"
    and body_taken: "q_body q sid c h = ((c', h'), Some b) \<Longrightarrow> b \<noteq> [] \<Longrightarrow> events c' h' < events c h"
    and body_end: "q_body q sid c h = ((c', h'), r) \<Longrightarrow> events c' h' \<le> events c h"

subsection \<open>Addresses\<close>

definition bytes_to_ip :: "u8 \<Rightarrow> bytes \<Rightarrow> ip_addr option" where
  "bytes_to_ip version bs =
     (if version = 4 \<and> length bs = 4 then Some (IpV4 (of_be bs))
      else if version = 6 \<and> length bs = 16 then Some (IpV6 (of_be bs))
      else None)"

definition bind_addr_for :: "sock_addr \<Rightarrow> sock_addr" where
  "bind_addr_for peer = (if is_ipv4 peer then SockAddr (IpV4 0) 0 else SockAddr (IpV6 0) 0)"

lemma bytes_to_ip_assigned: "assigned_wf a \<Longrightarrow> \<exists>ip. bytes_to_ip (ip_version a) (address a) = Some ip"
  by (auto simp: assigned_wf_def addr_ok_def bytes_to_ip_def)

subsection \<open>Capsules of the request stream\<close>

text \<open>What a capsule offers to the receiver of assigned addresses.\<close>

definition capsule_addrs :: "capsule \<Rightarrow> (ip_addr \<times> u8) list" where
  "capsule_addrs c =
     (case c of
        AddressAssign as \<Rightarrow>
          concat (map (\<lambda>a. case bytes_to_ip (ip_version a) (address a) of
                             Some ip \<Rightarrow> [(ip, prefix_len a)] | None \<Rightarrow> []) as)
      | _ \<Rightarrow> [])"

definition drain_capsules :: "octets \<Rightarrow> capsule_parser \<Rightarrow> (ip_addr \<times> u8) list \<Rightarrow> capsule_parser \<times> (ip_addr \<times> u8) list" where
  "drain_capsules oc p out =
     (case drain oc p of (cs, p') \<Rightarrow> (p', out @ concat (map capsule_addrs cs)))"

text \<open>The state of \<open>poll_h3\<close>: both connections, the parser, the addresses offered so far.\<close>

record ('c, 'h) h3_state =
  hs_conn :: 'c
  hs_h3 :: 'h
  hs_capsules :: capsule_parser
  hs_offered :: "(ip_addr \<times> u8) list"

partial_function (option) recv_bodies :: "('c, 'h) quiche \<Rightarrow> u64 \<Rightarrow> ('c, 'h) h3_state \<Rightarrow> ('c, 'h) h3_state option" where
  "recv_bodies q sid s =
     (case q_body q sid (hs_conn s) (hs_h3 s) of
        ((c, h), None) \<Rightarrow> Some (s\<lparr>hs_conn := c, hs_h3 := h\<rparr>)
      | ((c, h), Some b) \<Rightarrow>
          if b = [] then Some (s\<lparr>hs_conn := c, hs_h3 := h\<rparr>)
          else recv_bodies q sid (s\<lparr>hs_conn := c, hs_h3 := h, hs_capsules := parser_push b (hs_capsules s)\<rparr>))"

partial_function (option) poll_h3 :: "octets \<Rightarrow> ('c, 'h) quiche \<Rightarrow> u64 \<Rightarrow> ('c, 'h) h3_state
    \<Rightarrow> (('c, 'h) h3_state \<times> unit result) option" where
  "poll_h3 oc q req_stream s =
     (case q_poll q (hs_conn s) (hs_h3 s) of
        ((c, h), PollDone) \<Rightarrow> Some (s\<lparr>hs_conn := c, hs_h3 := h\<rparr>, Inr ())
      | ((c, h), PollErr e) \<Rightarrow> Some (s\<lparr>hs_conn := c, hs_h3 := h\<rparr>, Inl (H3 e))
      | ((c, h), PollEvent (BodyData stream_id)) \<Rightarrow>
          if stream_id \<noteq> req_stream then poll_h3 oc q req_stream (s\<lparr>hs_conn := c, hs_h3 := h\<rparr>)
          else
            Option.bind (recv_bodies q stream_id (s\<lparr>hs_conn := c, hs_h3 := h\<rparr>)) (\<lambda>s.
              poll_h3 oc q req_stream
                (let (p, out) = drain_capsules oc (hs_capsules s) (hs_offered s)
                 in s\<lparr>hs_capsules := p, hs_offered := out\<rparr>))
      | ((c, h), PollEvent _) \<Rightarrow> poll_h3 oc q req_stream (s\<lparr>hs_conn := c, hs_h3 := h\<rparr>))"

declare recv_bodies.simps [code] poll_h3.simps [code]

subsection \<open>Datagrams of the data plane\<close>

text \<open>
  \<open>accepts inbound\<close>: the receiver of the inbound channel is still there after \<open>inbound\<close> was
  delivered to it. The result is the connection, what was delivered in all, and whether this
  call got a packet.
\<close>

partial_function (option) drain_loop :: "octets \<Rightarrow> ('c, 'h) quiche \<Rightarrow> (bytes list \<Rightarrow> bool) \<Rightarrow> u64 \<Rightarrow> 'c \<Rightarrow> bytes list
    \<Rightarrow> bool \<Rightarrow> ('c \<times> bytes list \<times> bool) option" where
  "drain_loop oc q accepts sid c inbound delivered =
     (case q_dgram_recv q c of
        (c, DgramOk d) \<Rightarrow>
          (case decode_ip_datagram oc d sid of
             Inr (Some ip_packet) \<Rightarrow>
               if accepts inbound then drain_loop oc q accepts sid c (inbound @ [ip_packet]) True
               else Some (c, inbound, True)
           | _ \<Rightarrow> drain_loop oc q accepts sid c inbound delivered)
      | (c, _) \<Rightarrow> Some (c, inbound, delivered))"

definition drain_datagrams :: "octets \<Rightarrow> ('c, 'h) quiche \<Rightarrow> (bytes list \<Rightarrow> bool) \<Rightarrow> u64 option \<Rightarrow> 'c \<Rightarrow> bytes list
    \<Rightarrow> ('c \<times> bytes list \<times> bool) option" where
  "drain_datagrams oc q accepts req_stream c inbound =
     (case req_stream of
        None \<Rightarrow> Some (c, inbound, False)
      | Some sid \<Rightarrow> drain_loop oc q accepts sid c inbound False)"

subsection \<open>Packets to the network\<close>

text \<open>
  A packet is sent from the socket it names, or from any socket when that one is unknown:
  \<open>any_socket\<close> is the first in the order of the hash map. Whether a send fails may depend on
  everything sent before.
\<close>

datatype udp = Udp (via: sock_addr) (udp_data: bytes) (dest: sock_addr)

record network =
  any_socket :: "sock_addr list \<Rightarrow> sock_addr"
  send_fails :: "udp list \<Rightarrow> str option"

definition socket_for :: "network \<Rightarrow> sock_addr list \<Rightarrow> sock_addr \<Rightarrow> sock_addr option" where
  "socket_for net sockets from =
     (if from \<in> set sockets then Some from
      else if sockets \<noteq> [] then Some (any_socket net sockets)
      else None)"

partial_function (option) flush :: "('c, 'h) quiche \<Rightarrow> network \<Rightarrow> sock_addr list \<Rightarrow> 'c \<Rightarrow> udp list
    \<Rightarrow> (('c \<times> udp list) \<times> unit result) option" where
  "flush q net sockets c sent =
     (case q_send q c of
        (c, Packet d from to) \<Rightarrow>
          (case socket_for net sockets from of
             None \<Rightarrow> flush q net sockets c sent
           | Some sock \<Rightarrow>
               (case send_fails net sent of
                  Some e \<Rightarrow> Some ((c, sent), Inl (Io e))
                | None \<Rightarrow> flush q net sockets c (sent @ [Udp sock d to])))
      | (c, SendDone) \<Rightarrow> Some ((c, sent), Inr ())
      | (c, SendErr e) \<Rightarrow> Some ((c, sent), Inl (Quic e)))"

declare drain_loop.simps [code] flush.simps [code]

text \<open>Moving to a new local address: the connection, the sockets and the result.\<close>

definition do_migrate :: "('c, 'h) quiche \<Rightarrow> str + sock_addr \<Rightarrow> sock_addr \<Rightarrow> 'c \<Rightarrow> sock_addr list
    \<Rightarrow> ('c \<times> sock_addr list) \<times> unit result" where
  "do_migrate q new_sock peer c sockets =
     (if q_spare_dcids q c = 0 then ((c, sockets), Inl (Other ''no spare dcids for migration''))
      else
        (case new_sock of
           Inl e \<Rightarrow> ((c, sockets), Inl (Io e))
         | Inr new_local \<Rightarrow>
             (let sockets = List.insert new_local sockets in
              case q_probe_path q new_local peer c of
                (c, Some e) \<Rightarrow> ((c, sockets), Inl (Quic e))
              | (c, None) \<Rightarrow>
                  (case q_migrate_source q new_local c of
                     (c, Some e) \<Rightarrow> ((c, sockets), Inl (Quic e))
                   | (c, None) \<Rightarrow> ((c, sockets), Inr ())))))"

subsection \<open>The loops end\<close>

context quiche_queues
begin

lemma recv_bodies_ends:
  "\<exists>s'. recv_bodies q sid s = Some s' \<and> events (hs_conn s') (hs_h3 s') \<le> events (hs_conn s) (hs_h3 s)"
proof (induction "events (hs_conn s) (hs_h3 s)" arbitrary: s rule: less_induct)
  case less
  obtain c h r where qb: "q_body q sid (hs_conn s) (hs_h3 s) = ((c, h), r)" by (metis prod.collapse)
  note le = body_end [OF qb]
  show ?case
  proof (cases "r = None \<or> r = Some []")
    case True
    then show ?thesis using le by (subst recv_bodies.simps) (auto simp: qb)
  next
    case False
    then obtain b where r: "r = Some b" "b \<noteq> []" by auto
    then have "events c h < events (hs_conn s) (hs_h3 s)" using body_taken qb by blast
    then obtain s' where "recv_bodies q sid (s\<lparr>hs_conn := c, hs_h3 := h, hs_capsules := parser_push b (hs_capsules s)\<rparr>) = Some s'"
      "events (hs_conn s') (hs_h3 s') \<le> events c h"
      using less [of "s\<lparr>hs_conn := c, hs_h3 := h, hs_capsules := parser_push b (hs_capsules s)\<rparr>"] by auto
    then show ?thesis using le r by (subst recv_bodies.simps) (simp add: qb)
  qed
qed

lemma poll_h3_ends: "\<exists>r. poll_h3 oc q req s = Some r"
proof (induction "events (hs_conn s) (hs_h3 s)" arbitrary: s rule: less_induct)
  case less
  obtain c h r where qp: "q_poll q (hs_conn s) (hs_h3 s) = ((c, h), r)" by (metis prod.collapse)
  show ?case
  proof (cases r)
    case (PollEvent e)
    then have lt: "events c h < events (hs_conn s) (hs_h3 s)" using event_taken qp by blast
    have skip: "\<exists>r. poll_h3 oc q req (s\<lparr>hs_conn := c, hs_h3 := h\<rparr>) = Some r" using less lt by simp
    show ?thesis
    proof (cases e)
      case (BodyData sid)
      obtain s' where s': "recv_bodies q sid (s\<lparr>hs_conn := c, hs_h3 := h\<rparr>) = Some s'"
        "events (hs_conn s') (hs_h3 s') \<le> events c h"
        using recv_bodies_ends [of sid "s\<lparr>hs_conn := c, hs_h3 := h\<rparr>"] by auto
      obtain p out where dr: "drain_capsules oc (hs_capsules s') (hs_offered s') = (p, out)" by fastforce
      have "\<exists>r. poll_h3 oc q req (s'\<lparr>hs_capsules := p, hs_offered := out\<rparr>) = Some r"
        using less lt s'(2) by simp
      then show ?thesis
        using skip s'(1) by (cases "sid = req"; subst poll_h3.simps) (simp_all add: qp PollEvent BodyData dr)
    qed (use skip in \<open>(subst poll_h3.simps, simp add: qp PollEvent)\<close>)+
  qed (subst poll_h3.simps, simp add: qp)+
qed

lemma drain_loop_ends: "\<exists>r. drain_loop oc q accepts sid c inbound delivered = Some r"
proof (induction "dgrams c" arbitrary: c inbound delivered rule: less_induct)
  case less
  obtain c' r where qd: "q_dgram_recv q c = (c', r)" by fastforce
  show ?case
  proof (cases r)
    case (DgramOk d)
    then have "dgrams c' < dgrams c" using dgram_taken qd by blast
    then have IH: "\<exists>r. drain_loop oc q accepts sid c' i b = Some r" for i b using less by blast
    show ?thesis
      by (subst drain_loop.simps) (use IH in \<open>auto simp: qd DgramOk split: sum.split option.split\<close>)
  qed (subst drain_loop.simps, simp add: qd)+
qed

lemma drain_datagrams_ends: "\<exists>r. drain_datagrams oc q accepts req c inbound = Some r"
  using drain_loop_ends by (auto simp: drain_datagrams_def split: option.split)

lemma flush_ends: "\<exists>r. flush q net sockets c sent = Some r"
proof (induction "packets c" arbitrary: c sent rule: less_induct)
  case less
  obtain c' r where qs: "q_send q c = (c', r)" by fastforce
  show ?case
  proof (cases r)
    case (Packet d src dst)
    then have "packets c' < packets c" using packet_taken qs by blast
    then have IH: "\<exists>r. flush q net sockets c' i = Some r" for i using less by blast
    show ?thesis
      by (subst flush.simps) (use IH in \<open>auto simp: qs Packet split: option.split\<close>)
  qed (subst flush.simps, simp add: qs)+
qed

end

subsection \<open>What the loops do\<close>

text \<open>
  \<open>reads q c ds c'\<close>: the calls to \<open>dgram_recv\<close> return \<open>ds\<close> and then an error, usually
  \<open>Done\<close>. \<open>emits q c ps c'\<close>: the calls to \<open>send\<close> return the packets \<open>ps\<close> and then \<open>Done\<close>.
  \<open>pieces\<close> and \<open>chunks\<close> say the same of the body of one data event and of a whole turn of
  \<open>poll\<close>, a chunk for every data event of the request stream.
\<close>

inductive reads :: "('c, 'h) quiche \<Rightarrow> 'c \<Rightarrow> bytes list \<Rightarrow> 'c \<Rightarrow> bool" for q where
  reads_end: "q_dgram_recv q c = (c', r) \<Longrightarrow> (\<forall>d. r \<noteq> DgramOk d) \<Longrightarrow> reads q c [] c'"
| reads_more: "q_dgram_recv q c = (c', DgramOk d) \<Longrightarrow> reads q c' ds c'' \<Longrightarrow> reads q c (d # ds) c''"

inductive emits :: "('c, 'h) quiche \<Rightarrow> 'c \<Rightarrow> (bytes \<times> sock_addr \<times> sock_addr) list \<Rightarrow> 'c \<Rightarrow> bool" for q where
  emits_end: "q_send q c = (c', SendDone) \<Longrightarrow> emits q c [] c'"
| emits_more: "q_send q c = (c', Packet d from to) \<Longrightarrow> emits q c' ps c'' \<Longrightarrow> emits q c ((d, from, to) # ps) c''"

inductive pieces :: "('c, 'h) quiche \<Rightarrow> u64 \<Rightarrow> 'c \<Rightarrow> 'h \<Rightarrow> bytes list \<Rightarrow> 'c \<Rightarrow> 'h \<Rightarrow> bool" for q sid where
  pieces_end: "q_body q sid c h = ((c', h'), r) \<Longrightarrow> r = None \<or> r = Some [] \<Longrightarrow> pieces q sid c h [] c' h'"
| pieces_more: "q_body q sid c h = ((c1, h1), Some b) \<Longrightarrow> b \<noteq> [] \<Longrightarrow> pieces q sid c1 h1 bs c' h' \<Longrightarrow>
    pieces q sid c h (b # bs) c' h'"

inductive chunks :: "('c, 'h) quiche \<Rightarrow> u64 \<Rightarrow> 'c \<Rightarrow> 'h \<Rightarrow> bytes list \<Rightarrow> 'c \<Rightarrow> 'h \<Rightarrow> bool" for q req where
  chunks_end: "q_poll q c h = ((c', h'), PollDone) \<Longrightarrow> chunks q req c h [] c' h'"
| chunks_other: "q_poll q c h = ((c1, h1), PollEvent e) \<Longrightarrow> e \<noteq> BodyData req \<Longrightarrow> chunks q req c1 h1 ds c' h' \<Longrightarrow>
    chunks q req c h ds c' h'"
| chunks_data: "q_poll q c h = ((c1, h1), PollEvent (BodyData req)) \<Longrightarrow> pieces q req c1 h1 bs c2 h2 \<Longrightarrow>
    chunks q req c2 h2 ds c' h' \<Longrightarrow> chunks q req c h (concat bs # ds) c' h'"

definition tunnel_packets :: "octets \<Rightarrow> u64 \<Rightarrow> bytes list \<Rightarrow> bytes list" where
  "tunnel_packets oc sid ds =
     concat (map (\<lambda>d. case decode_ip_datagram oc d sid of Inr (Some p) \<Rightarrow> [p] | _ \<Rightarrow> []) ds)"

definition offered_by :: "capsule list \<Rightarrow> (ip_addr \<times> u8) list" where
  "offered_by cs = concat (map capsule_addrs cs)"

lemma tunnel_packets_simps [simp]:
  "tunnel_packets oc sid [] = []"
  "tunnel_packets oc sid (d # ds) =
     (case decode_ip_datagram oc d sid of Inr (Some p) \<Rightarrow> [p] | _ \<Rightarrow> []) @ tunnel_packets oc sid ds"
  by (simp_all add: tunnel_packets_def)

lemma offered_by_simps [simp]: "offered_by [] = []" "offered_by (as @ bs) = offered_by as @ offered_by bs"
  by (simp_all add: offered_by_def)

lemma drain_capsules_eq: "drain_capsules oc p out = (snd (drain oc p), out @ offered_by (fst (drain oc p)))"
  by (simp add: drain_capsules_def offered_by_def split: prod.split)

lemma parser_push_push [simp]: "parser_push b (parser_push a p) = parser_push (a @ b) p"
  by (simp add: parser_push_def)

lemma parser_push_Nil [simp]: "parser_push [] p = p"
  by (simp add: parser_push_def)

lemma drain_loop_reads:
  "reads q c ds c' \<Longrightarrow>
    drain_loop oc q (\<lambda>_. True) sid c inbound b =
      Some (c', inbound @ tunnel_packets oc sid ds, b \<or> tunnel_packets oc sid ds \<noteq> [])"
proof (induction arbitrary: inbound b rule: reads.induct)
  case (reads_end c c' r)
  then show ?case by (subst drain_loop.simps) (cases r; simp)
next
  case (reads_more c c' d ds c'')
  then show ?case
    by (subst drain_loop.simps) (cases "decode_ip_datagram oc d sid"; auto split: option.split)
qed

lemma drain_loop_grows:
  assumes "drain_loop oc q accepts sid c inbound b = Some (c', inbound', b')"
  shows "length inbound \<le> length inbound' \<and> (b \<longrightarrow> b') \<and> ((\<forall>i. accepts i) \<and> b' \<and> \<not> b \<longrightarrow> length inbound < length inbound')"
proof -
  let ?P = "\<lambda>oc q accepts sid c inbound b (r :: 'a \<times> bytes list \<times> bool).
      length inbound \<le> length (fst (snd r)) \<and> (b \<longrightarrow> snd (snd r))
      \<and> ((\<forall>i. accepts i) \<and> snd (snd r) \<and> \<not> b \<longrightarrow> length inbound < length (fst (snd r)))"
  have "?P oc q accepts sid c inbound b (c', inbound', b')"
    using assms
    by (rule drain_loop.raw_induct [where P = ?P, rotated])
      (fastforce split: prod.splits dgram.splits sum.splits option.splits if_splits)
  then show ?thesis by simp
qed

lemma drain_datagrams_grows:
  assumes "drain_datagrams oc q accepts req c inbound = Some (c', inbound', got)"
  shows "length inbound \<le> length inbound'"
    and "got \<Longrightarrow> req \<noteq> None"
    and "(\<And>i. accepts i) \<Longrightarrow> got \<Longrightarrow> length inbound < length inbound'"
  using assms drain_loop_grows [of oc q accepts _ c inbound False c' inbound' got]
  by (auto simp: drain_datagrams_def split: option.splits)

lemma flush_emits:
  "emits q c ps c' \<Longrightarrow> sockets \<noteq> [] \<Longrightarrow> \<forall>i. send_fails net i = None \<Longrightarrow>
    flush q net sockets c sent =
      Some ((c', sent @ map (\<lambda>(d, from, to). Udp (the (socket_for net sockets from)) d to) ps), Inr ())"
proof (induction arbitrary: sent rule: emits.induct)
  case (emits_end c c')
  then show ?case by (subst flush.simps) simp
next
  case (emits_more c c' d src dst ps c'')
  have "\<exists>sock. socket_for net sockets src = Some sock"
    using emits_more.prems(1) by (simp add: socket_for_def)
  then obtain sock where "socket_for net sockets src = Some sock" ..
  then show ?case using emits_more by (subst flush.simps) simp
qed

lemma recv_bodies_pieces:
  "pieces q sid c h bs c' h' \<Longrightarrow> hs_conn s = c \<Longrightarrow> hs_h3 s = h \<Longrightarrow>
    recv_bodies q sid s =
      Some (s\<lparr>hs_conn := c', hs_h3 := h', hs_capsules := parser_push (concat bs) (hs_capsules s)\<rparr>)"
proof (induction arbitrary: s rule: pieces.induct)
  case (pieces_end c h c' h' r)
  then show ?case by (subst recv_bodies.simps) auto
next
  case (pieces_more c h c1 h1 b bs c' h')
  then show ?case by (subst recv_bodies.simps) simp
qed

lemma poll_h3_chunks:
  "chunks q req c h ds c' h' \<Longrightarrow> hs_conn s = c \<Longrightarrow> hs_h3 s = h \<Longrightarrow>
    poll_h3 oc q req s =
      Some (s\<lparr>hs_conn := c', hs_h3 := h', hs_capsules := snd (feed oc ds (hs_capsules s)),
              hs_offered := hs_offered s @ offered_by (fst (feed oc ds (hs_capsules s)))\<rparr>, Inr ())"
proof (induction arbitrary: s rule: chunks.induct)
  case (chunks_end c h c' h')
  then show ?case by (subst poll_h3.simps) simp
next
  case (chunks_other c h c1 h1 e ds c' h')
  then show ?case by (subst poll_h3.simps) (cases e; simp)
next
  case (chunks_data c h c1 h1 bs c2 h2 ds c' h')
  have "recv_bodies q req (s\<lparr>hs_conn := c1, hs_h3 := h1\<rparr>) =
      Some (s\<lparr>hs_conn := c2, hs_h3 := h2, hs_capsules := parser_push (concat bs) (hs_capsules s)\<rparr>)"
    using recv_bodies_pieces [OF chunks_data.hyps(2), of "s\<lparr>hs_conn := c1, hs_h3 := h1\<rparr>"] by simp
  then show ?case
    using chunks_data by (subst poll_h3.simps) (simp add: drain_capsules_eq split: prod.split)
qed

subsection \<open>A scripted connection\<close>

text \<open>
  A connection that is a script: a list of stages, each with what its queues hold; a received
  packet moves to the next stage. Its queues are finite.
\<close>

record stage =
  st_established :: bool
  st_closed :: bool
  st_dgrams :: "bytes list"
  st_packets :: "(bytes \<times> sock_addr \<times> sock_addr) list"
  st_events :: "(h3_event \<times> bytes list) list"
  st_body :: "bytes list"

definition idle :: stage where
  "idle = \<lparr>st_established = True, st_closed = False, st_dgrams = [], st_packets = [], st_events = [], st_body = []\<rparr>"

type_synonym script = "stage \<times> stage list"

definition script_dgram :: "script \<Rightarrow> script \<times> dgram" where
  "script_dgram c =
     (case st_dgrams (fst c) of
        [] \<Rightarrow> (c, DgramDone)
      | d # ds \<Rightarrow> (((fst c)\<lparr>st_dgrams := ds\<rparr>, snd c), DgramOk d))"

definition script_send :: "script \<Rightarrow> script \<times> packet_out" where
  "script_send c =
     (case st_packets (fst c) of
        [] \<Rightarrow> (c, SendDone)
      | (d, from, to) # ps \<Rightarrow> (((fst c)\<lparr>st_packets := ps\<rparr>, snd c), Packet d from to))"

definition script_poll :: "script \<Rightarrow> unit \<Rightarrow> (script \<times> unit) \<times> h3_poll" where
  "script_poll c h =
     (case st_events (fst c) of
        [] \<Rightarrow> ((c, h), PollDone)
      | (e, body) # es \<Rightarrow> ((((fst c)\<lparr>st_events := es, st_body := body\<rparr>, snd c), h), PollEvent e))"

definition script_body :: "u64 \<Rightarrow> script \<Rightarrow> unit \<Rightarrow> (script \<times> unit) \<times> bytes option" where
  "script_body sid c h =
     (case st_body (fst c) of
        [] \<Rightarrow> ((c, h), None)
      | b # bs \<Rightarrow> ((((fst c)\<lparr>st_body := bs\<rparr>, snd c), h), Some b))"

definition script_recv :: "script \<Rightarrow> script" where
  "script_recv c = (case snd c of [] \<Rightarrow> c | st # sts \<Rightarrow> (st, sts))"

definition script_ops :: "script \<Rightarrow> (script, unit) quiche" where
  "script_ops init =
     \<lparr>q_connect = (\<lambda>_ _ _ _. Inr init), q_set1_ech = (\<lambda>_ c. (c, 1)), q_get0_retry = (\<lambda>_. Some [1, 2]),
      q_established = st_established \<circ> fst, q_closed = st_closed \<circ> fst, q_ack_eliciting = id,
      q_dgram_send = (\<lambda>_ c. c), q_dgram_recv = script_dgram, q_recv = (\<lambda>_ _ _. script_recv),
      q_close = (\<lambda>_ c. ((fst c)\<lparr>st_closed := True\<rparr>, snd c)), q_send = script_send,
      q_h3 = (\<lambda>c. (c, Inr ())), q_request = (\<lambda>_ c h. ((c, h), Inr 0)), q_poll = script_poll,
      q_body = script_body, q_spare_dcids = (\<lambda>_. 1), q_probe_path = (\<lambda>_ _ c. (c, None)),
      q_migrate_source = (\<lambda>_ c. (c, None))\<rparr>"

lemmas script_defs = script_ops_def script_dgram_def script_send_def script_poll_def script_body_def
  script_recv_def idle_def

interpretation script: quiche_queues "script_ops init" "\<lambda>c. length (st_dgrams (fst c))" "\<lambda>c. length (st_packets (fst c))"
    "\<lambda>c h. length (st_body (fst c)) + (\<Sum>(e, b) \<leftarrow> st_events (fst c). Suc (length b))" for init
  by unfold_locales (auto simp: script_defs split: list.splits)

subsection \<open>Properties\<close>

text \<open>C23. The data plane towards the client: of the datagrams quiche holds, each encoding an IP
  packet for some stream, the tunnel delivers exactly the packets of its own request stream, in
  the order they arrived, and reports that it got data exactly when there was one.\<close>

theorem datagrams_delivered:
  assumes "octets_crate oc"
    and "reads q c (map (\<lambda>(s, p). projr (encode_ip_datagram oc s p)) arrivals) c'"
  shows "drain_datagrams oc q (\<lambda>_. True) (Some sid) c inbound =
    (let mine = map snd (filter (\<lambda>(s, p). quarter_stream_id s = quarter_stream_id sid) arrivals)
     in Some (c', inbound @ mine, mine \<noteq> []))"
proof -
  have "tunnel_packets oc sid (map (\<lambda>(s, p). projr (encode_ip_datagram oc s p)) arrivals) =
      map snd (filter (\<lambda>(s, p). quarter_stream_id s = quarter_stream_id sid) arrivals)"
    by (induction arrivals)
      (auto simp: octets_crate.encode_ip_datagram_eq [OF assms(1)] octets_crate.decode_encoded [OF assms(1)])
  then show ?thesis using drain_loop_reads [OF assms(2)] by (simp add: drain_datagrams_def Let_def)
qed

theorem datagrams_delivered_witness:
  "drain_datagrams rfc_octets (script_ops (idle, [])) (\<lambda>_. True) (Some 0)
      (idle\<lparr>st_dgrams := [[0, 0, 0x45, 1], [1, 0, 0x45, 2], [0, 0, 0x60]]\<rparr>, []) [] =
    Some ((idle, []), [[0x45, 1], [0x60]], True)"
proof -
  let ?as = "[(0, [0x45, 1]), (4, [0x45, 2]), (0, [0x60])] :: (u64 \<times> bytes) list"
  have ds: "map (\<lambda>(s, p). projr (encode_ip_datagram rfc_octets s p)) ?as = [[0, 0, 0x45, 1], [1, 0, 0x45, 2], [0, 0, 0x60]]"
    by (simp add: rfc.encode_ip_datagram_eq quarter_stream_id_def)
      (simp add: rfc_octets_def rfc_vput_def rfc_tag_def be_bytes_def)
  have "reads (script_ops (idle, [])) (idle\<lparr>st_dgrams := [[0, 0, 0x45, 1], [1, 0, 0x45, 2], [0, 0, 0x60]]\<rparr>, [])
      [[0, 0, 0x45, 1], [1, 0, 0x45, 2], [0, 0, 0x60]] (idle, [])"
    by (rule reads_more, simp add: script_defs)+ (rule reads_end, simp add: script_defs, simp)
  then have "reads (script_ops (idle, [])) (idle\<lparr>st_dgrams := [[0, 0, 0x45, 1], [1, 0, 0x45, 2], [0, 0, 0x60]]\<rparr>, [])
      (map (\<lambda>(s, p). projr (encode_ip_datagram rfc_octets s p)) ?as) (idle, [])"
    unfolding ds .
  then show ?thesis
    using datagrams_delivered [OF rfc.octets_crate_axioms, of "script_ops (idle, [])" _ ?as "(idle, [])" 0 "[]"]
    by (simp add: quarter_stream_id_def Let_def)
qed

text \<open>C24. The control plane: however HTTP/3 cuts the body of the CONNECT-IP response into data
  events and pieces, and whatever other events come between, a turn of \<open>poll_h3\<close> offers exactly
  the addresses of the ADDRESS_ASSIGN capsules in the body, in order, and leaves no partial
  capsule behind.\<close>

theorem edge_addresses:
  assumes "octets_crate oc"
    and "\<forall>f \<in> set fs. frame_ok oc f"
    and "chunks q req c h ds c' h'"
    and "concat ds = wire oc fs"
  shows "poll_h3 oc q req \<lparr>hs_conn = c, hs_h3 = h, hs_capsules = parser_new, hs_offered = []\<rparr> =
    Some (\<lparr>hs_conn = c', hs_h3 = h', hs_capsules = parser_new,
           hs_offered = offered_by (map (frame_capsule oc) fs)\<rparr>, Inr ())"
  using poll_h3_chunks [OF assms(3), of "\<lparr>hs_conn = c, hs_h3 = h, hs_capsules = parser_new, hs_offered = []\<rparr>" oc]
    octets_crate.feed_new [OF assms(1, 2, 4)]
  by simp

theorem edge_addresses_witness:
  "poll_h3 rfc_octets (script_ops (idle, [])) 0
     \<lparr>hs_conn = (idle\<lparr>st_events := [(Headers 0 [], []), (BodyData 0, [[1, 7, 1], [4, 172, 16]]),
                                  (BodyData 4, [[9]]), (BodyData 0, [[0, 2, 32]])]\<rparr>, []),
      hs_h3 = (), hs_capsules = parser_new, hs_offered = []\<rparr> =
   Some (\<lparr>hs_conn = (idle, []), hs_h3 = (), hs_capsules = parser_new,
          hs_offered = [(IpV4 (ipv4_new 172 16 0 2), 32)]\<rparr>, Inr ())"
proof -
  let ?val = "[1, 4, 172, 16, 0, 2, 32] :: bytes"
  let ?c = "(idle\<lparr>st_events := [(Headers 0 [], []), (BodyData 0, [[1, 7, 1], [4, 172, 16]]),
                             (BodyData 4, [[9]]), (BodyData 0, [[0, 2, 32]])]\<rparr>, []) :: script"
  have parsed: "parse_address_assign rfc_octets ?val =
      Inr [\<lparr>request_id = 1, ip_version = 4, address = [172, 16, 0, 2], prefix_len = 32\<rparr>]"
    using rfc.assigned_rds_enc [of "[\<lparr>request_id = 1, ip_version = 4, address = [172, 16, 0, 2], prefix_len = 32\<rparr>]"]
    by (simp add: assigned_wf_def addr_ok_def varint_max_def enc_assigned_def rfc_octets_def
        rfc_vput_def rfc_tag_def be_bytes_def)
  have ch: "chunks (script_ops (idle, [])) 0 ?c () [concat [[1, 7, 1], [4, 172, 16]], concat [[0, 2, 32]]] (idle, []) ()"
    by (rule chunks_other, simp add: script_defs, simp, rule chunks_data, simp add: script_defs,
        rule pieces_more, simp add: script_defs, simp, rule pieces_more, simp add: script_defs, simp,
        rule pieces_end, simp add: script_defs, simp, rule chunks_other, simp add: script_defs, simp,
        rule chunks_data, simp add: script_defs, rule pieces_more, simp add: script_defs, simp,
        rule pieces_end, simp add: script_defs, simp, rule chunks_end, simp add: script_defs)
  have ok: "\<forall>f \<in> set [(1, ?val)]. frame_ok rfc_octets f"
    by (simp add: frame_ok_def capsule_of_def capsule_kinds varint_max_def parsed)
  have cut: "concat [concat [[1, 7, 1], [4, 172, 16]], concat [[0, 2, 32]]] = wire rfc_octets [(1, ?val)]"
    by (simp add: wire_def rfc.encode_capsule_eq varint_max_def)
      (simp add: rfc_octets_def rfc_vput_def rfc_tag_def be_bytes_def)
  show ?thesis
    using edge_addresses [OF rfc.octets_crate_axioms ok ch cut]
    by (simp add: frame_capsule_def capsule_of_def capsule_kinds parsed offered_by_def capsule_addrs_def
        bytes_to_ip_def ipv4_new_def)
qed

text \<open>Flushing sends everything quiche has queued, in order, each packet to the address it
  names and from the socket it names, or from one of ours when that socket is unknown.\<close>

theorem flush_in_order:
  assumes "emits q c ps c'" and "sockets \<noteq> []" and "\<forall>i. send_fails net i = None"
    and "any_socket net sockets \<in> set sockets"
  shows "\<exists>out. flush q net sockets c sent = Some ((c', sent @ out), Inr ())
    \<and> map (\<lambda>u. (udp_data u, dest u)) out = map (\<lambda>(d, from, to). (d, to)) ps
    \<and> list_all2 (\<lambda>u (d, from, to). via u \<in> set sockets \<and> (from \<in> set sockets \<longrightarrow> via u = from)) out ps"
proof -
  let ?out = "map (\<lambda>(d, from, to). Udp (the (socket_for net sockets from)) d to) ps"
  have "flush q net sockets c sent = Some ((c', sent @ ?out), Inr ())"
    using flush_emits [OF assms(1-3)] .
  moreover have "map (\<lambda>u. (udp_data u, dest u)) ?out = map (\<lambda>(d, from, to). (d, to)) ps"
    by auto
  moreover have "list_all2 (\<lambda>u (d, from, to). via u \<in> set sockets \<and> (from \<in> set sockets \<longrightarrow> via u = from)) ?out ps"
    using assms(2, 4) by (auto simp: list_all2_conv_all_nth socket_for_def split: prod.split)
  ultimately show ?thesis by blast
qed

theorem flush_in_order_witness:
  "let a = SockAddr (IpV4 1) 10; b = SockAddr (IpV4 2) 20; peer = SockAddr (IpV4 3) 443 in
   \<exists>out. flush (script_ops (idle, [])) \<lparr>any_socket = hd, send_fails = (\<lambda>_. None)\<rparr> [a, b]
       (idle\<lparr>st_packets := [([1], b, peer), ([2], peer, peer)]\<rparr>, []) [] = Some (((idle, []), out), Inr ())
     \<and> map udp_data out = [[1], [2]] \<and> via (out ! 0) = b"
proof -
  let ?a = "SockAddr (IpV4 1) 10" and ?b = "SockAddr (IpV4 2) 20" and ?peer = "SockAddr (IpV4 3) 443"
  let ?net = "\<lparr>any_socket = hd, send_fails = (\<lambda>_. None)\<rparr>"
  let ?c = "(idle\<lparr>st_packets := [([1], ?b, ?peer), ([2], ?peer, ?peer)]\<rparr>, []) :: script"
  have em: "emits (script_ops (idle, [])) ?c [([1], ?b, ?peer), ([2], ?peer, ?peer)] (idle, [])"
    by (rule emits_more, simp add: script_defs)+ (rule emits_end, simp add: script_defs)
  then obtain out where out: "flush (script_ops (idle, [])) ?net [?a, ?b] ?c [] = Some (((idle, []), [] @ out), Inr ())"
    "map (\<lambda>u. (udp_data u, dest u)) out = [([1], ?peer), ([2], ?peer)]"
    "list_all2 (\<lambda>u (d, from, to). via u \<in> set [?a, ?b] \<and> (from \<in> set [?a, ?b] \<longrightarrow> via u = from)) out
       [([1], ?b, ?peer), ([2], ?peer, ?peer)]"
    using flush_in_order [OF em, of "[?a, ?b]" ?net "[]"] by auto
  then have "map udp_data out = [[1], [2]]" "via (out ! 0) = ?b"
    by (auto simp: map_eq_Cons_conv list_all2_Cons2)
  then show ?thesis using out(1) by (auto simp: Let_def)
qed

end
