(* ===== verification/Quic_Tunnel.thy ===== *)
theory Quic_Tunnel
  imports Quic_Conn
begin

section \<open>The QUIC tunnel (quic.rs)\<close>

text \<open>
  The loop of \<open>run\<close>: a turn looks at the validation deadline, waits for the first ready branch
  of a biased \<open>select!\<close>, then works on the connection. A turn is a value that says which
  branches are ready; what quiche does is the parameter of \<open>Quic_Conn\<close>. A turn has three
  ends: the loop goes on, \<open>run\<close> returns (with the state it leaves), or it never returns
  (\<open>None\<close>: an inner loop never ends, or the deadline overflows and the task panics).
\<close>

subsection \<open>Settings\<close>

definition validation_timeout :: "(str \<Rightarrow> str option) \<Rightarrow> nat" where
  "validation_timeout env =
     1000 * (case env ''AETHER_MASQUE_VALIDATE_SECS'' of
        None \<Rightarrow> 10
      | Some v \<Rightarrow> (case parse_uint 64 v of None \<Rightarrow> 10 | Some n \<Rightarrow> if 0 < n then n else 10))"

definition data_check_enabled :: "(str \<Rightarrow> str option) \<Rightarrow> bool" where
  "data_check_enabled env \<longleftrightarrow> env ''AETHER_MASQUE_NO_DATA_CHECK'' = None"

definition DATA_PROBE_REQUIRED_SUCCESSES :: nat where "DATA_PROBE_REQUIRED_SUCCESSES = 2"

definition default_authority :: str where "default_authority = ''cloudflareaccess.com''"
definition default_path :: str where "default_path = ''/''"
definition default_sni :: str where "default_sni = CONNECT_SNI"

text \<open>Adding a duration to an instant panics when the seconds leave the range of \<open>i64\<close>; times are milliseconds.\<close>

definition instant_add :: "nat \<Rightarrow> nat \<Rightarrow> nat option" where
  "instant_add t d = (if (t + d) div 1000 < 2 ^ 63 then Some (t + d) else None)"

subsection \<open>State\<close>

datatype control = Migrate | CloseConn

record ('c, 'h) quic_env =
  quic :: "('c, 'h) quiche"
  on_timeout :: "'c \<Rightarrow> 'c"
  octs :: octets
  udp_net :: network
  client_accepts :: "bytes list \<Rightarrow> bool"
  vars :: "str \<Rightarrow> str option"
  q_peer :: sock_addr
  q_local :: sock_addr
  q_sni :: str
  q_authority :: str
  q_path :: str
  q_ech_config :: "bytes option"
  q_noize :: noize_config
  q_hex :: "str \<Rightarrow> bytes option"
  q_gen :: rng
  q_draws :: nat
  probe_packet :: bytes

text \<open>
  The local variables of \<open>run\<close>, then the outputs: signals on \<open>ready_tx\<close>, packets on
  \<open>inbound_tx\<close>, addresses offered on \<open>addr_tx\<close>, UDP packets, the decoys sent before the
  handshake (with \<open>hex\<close>, the generator and its draws as in \<open>Noize\<close>), and for each connection that was
  opened the configuration of encrypted client hello it was given.
\<close>

record ('c, 'h) quic =
  conn :: 'c
  h3c :: "'h option"
  req_stream :: "u64 option"
  capsules :: capsule_parser
  sockets :: "sock_addr list"
  current_ech :: "bytes option"
  established_ever :: bool
  ech_retried :: bool
  ready_tx :: bool
  ready_fired :: bool
  validate_deadline :: "nat option"
  validate_successes :: nat
  ready_signals :: nat
  delivered :: "bytes list"
  offered :: "(ip_addr \<times> u8) list"
  udp_sent :: "udp list"
  decoys_sent :: "action list"
  ech_used :: "bytes option list"

text \<open>Which branches are ready in a turn, and what the calls outside quiche return in it.\<close>

record quic_turn =
  at_top :: nat
  at_work :: nat
  keepalive_tick :: bool
  probe_tick :: bool
  from_net :: "(sock_addr \<times> sock_addr \<times> bytes) option"
  from_ctrl :: "control option option"
  from_client :: "bytes option option"
  new_socket :: "str + sock_addr"
  new_scid :: bytes

datatype branch = Keepalive | Probe | FromNet sock_addr sock_addr bytes | Ctrl "control option"
  | Outbound "bytes option" | TimedOut

text \<open>
  \<open>biased\<close>: the first ready branch, in the order of the source; the probe branch is disabled
  unless \<open>probing\<close>. When nothing else is ready the timer of the connection ends the wait.
\<close>

definition select_biased :: "bool \<Rightarrow> quic_turn \<Rightarrow> branch" where
  "select_biased probing t =
     (if keepalive_tick t then Keepalive
      else if probing \<and> probe_tick t then Probe
      else case from_net t of
        Some (to_local, from, data) \<Rightarrow> FromNet to_local from data
      | None \<Rightarrow>
          (case from_ctrl t of
             Some ctrl \<Rightarrow> Ctrl ctrl
           | None \<Rightarrow>
               (case from_client t of
                  Some pkt \<Rightarrow> Outbound pkt
                | None \<Rightarrow> TimedOut)))"

subsection \<open>A turn\<close>

definition probing :: "('c, 'h) quic_env \<Rightarrow> ('c, 'h) quic \<Rightarrow> bool" where
  "probing e s \<longleftrightarrow> data_check_enabled (vars e) \<and> \<not> ready_fired s"

definition send_framed :: "octets \<Rightarrow> ('c, 'h) quiche \<Rightarrow> u64 option \<Rightarrow> bytes \<Rightarrow> 'c \<Rightarrow> 'c" where
  "send_framed oc q sid pkt c =
     (case sid of
        None \<Rightarrow> c
      | Some sid \<Rightarrow>
          (case encode_ip_datagram oc sid pkt of
             Inr framed \<Rightarrow> q_dgram_send q framed c
           | Inl _ \<Rightarrow> c))"

definition run_branch :: "('c, 'h) quic_env \<Rightarrow> quic_turn \<Rightarrow> branch \<Rightarrow> ('c, 'h) quic \<Rightarrow> ('c, 'h) quic" where
  "run_branch e t b s =
     (let q = quic e; c = conn s in
      case b of
        Keepalive \<Rightarrow> if q_established q c then s\<lparr>conn := q_ack_eliciting q c\<rparr> else s
      | Probe \<Rightarrow> s\<lparr>conn := send_framed (octs e) q (req_stream s) (probe_packet e) c\<rparr>
      | FromNet to_local from data \<Rightarrow> s\<lparr>conn := q_recv q data from to_local c\<rparr>
      | Ctrl (Some Migrate) \<Rightarrow>
          (case do_migrate q (new_socket t) (q_peer e) c (sockets s) of
             ((c, socks), _) \<Rightarrow> s\<lparr>conn := c, sockets := socks\<rparr>)
      | Ctrl _ \<Rightarrow> s\<lparr>conn := q_close q ''bye'' c\<rparr>
      | Outbound (Some ip_packet) \<Rightarrow> s\<lparr>conn := send_framed (octs e) q (req_stream s) ip_packet c\<rparr>
      | Outbound None \<Rightarrow> s\<lparr>conn := q_close q ''eof'' c\<rparr>
      | TimedOut \<Rightarrow> s\<lparr>conn := on_timeout e c\<rparr>)"

text \<open>The steps after the \<open>select!\<close>, each with the result that \<open>?\<close> passes on.\<close>

type_synonym ('c, 'h) outcome = "(('c, 'h) quic \<times> unit result) option"

definition and_then :: "('c, 'h) outcome \<Rightarrow> (('c, 'h) quic \<Rightarrow> ('c, 'h) outcome) \<Rightarrow> ('c, 'h) outcome" where
  "and_then m f = (case m of None \<Rightarrow> None | Some (s, Inl err) \<Rightarrow> Some (s, Inl err) | Some (s, Inr _) \<Rightarrow> f s)"

definition fire_ready :: "('c, 'h) quic \<Rightarrow> ('c, 'h) quic" where
  "fire_ready s =
     s\<lparr>ready_fired := True, ready_tx := False,
       ready_signals := ready_signals s + (if ready_tx s then 1 else 0)\<rparr>"

definition open_request :: "('c, 'h) quic_env \<Rightarrow> quic_turn \<Rightarrow> ('c, 'h) quic \<Rightarrow> ('c, 'h) outcome" where
  "open_request e t s =
     (if q_established (quic e) (conn s) \<and> h3c s = None then
        (let s = s\<lparr>established_ever := True\<rparr> in
         case q_h3 (quic e) (conn s) of
           (c, Inl err) \<Rightarrow> Some (s\<lparr>conn := c\<rparr>, Inl (H3 err))
         | (c, Inr h) \<Rightarrow>
             (case q_request (quic e) (connect_ip_request (q_authority e) (q_path e)) c h of
                ((c, h), Inl err) \<Rightarrow> Some (s\<lparr>conn := c\<rparr>, Inl (H3 err))
              | ((c, h), Inr sid) \<Rightarrow>
                  (let s = s\<lparr>conn := c, req_stream := Some sid, h3c := Some h\<rparr> in
                   if data_check_enabled (vars e) then
                     (case instant_add (at_work t) (validation_timeout (vars e)) of
                        None \<Rightarrow> None
                      | Some dl \<Rightarrow> Some (s\<lparr>validate_deadline := Some dl\<rparr>, Inr ()))
                   else if \<not> ready_fired s then Some (fire_ready s, Inr ())
                   else Some (s, Inr ()))))
      else Some (s, Inr ()))"

definition poll_turn :: "('c, 'h) quic_env \<Rightarrow> ('c, 'h) quic \<Rightarrow> ('c, 'h) outcome" where
  "poll_turn e s =
     (case (h3c s, req_stream s) of
        (Some h, Some sid) \<Rightarrow>
          map_option (\<lambda>(p, r). (s\<lparr>conn := hs_conn p, h3c := Some (hs_h3 p), capsules := hs_capsules p,
                                   offered := hs_offered p\<rparr>, r))
            (poll_h3 (octs e) (quic e) sid
               \<lparr>hs_conn = conn s, hs_h3 = h, hs_capsules = capsules s, hs_offered = offered s\<rparr>)
      | _ \<Rightarrow> Some (s, Inr ()))"

definition confirm :: "('c, 'h) quic \<Rightarrow> ('c, 'h) quic" where
  "confirm s =
     (let s = s\<lparr>validate_successes := validate_successes s + 1\<rparr> in
      if DATA_PROBE_REQUIRED_SUCCESSES \<le> validate_successes s then (fire_ready s)\<lparr>validate_deadline := None\<rparr>
      else s)"

definition drain_turn :: "('c, 'h) quic_env \<Rightarrow> ('c, 'h) quic \<Rightarrow> ('c, 'h) outcome" where
  "drain_turn e s =
     map_option (\<lambda>(c, inb, got_data).
         (let s = s\<lparr>conn := c, delivered := inb\<rparr> in
          (if got_data \<and> \<not> ready_fired s then confirm s else s, Inr ())))
       (drain_datagrams (octs e) (quic e) (client_accepts e) (req_stream s) (conn s) (delivered s))"

definition flush_turn :: "('c, 'h) quic_env \<Rightarrow> ('c, 'h) quic \<Rightarrow> ('c, 'h) outcome" where
  "flush_turn e s =
     map_option (\<lambda>((c, sent), r). (s\<lparr>conn := c, udp_sent := sent\<rparr>, r))
       (flush (quic e) (udp_net e) (sockets s) (conn s) (udp_sent s))"

definition work :: "('c, 'h) quic_env \<Rightarrow> quic_turn \<Rightarrow> ('c, 'h) quic \<Rightarrow> ('c, 'h) outcome" where
  "work e t s =
     and_then (open_request e t s) (\<lambda>s.
     and_then (poll_turn e s) (\<lambda>s.
     and_then (drain_turn e s) (flush_turn e)))"

text \<open>A connection with the configuration \<open>ech\<close>, and the state that goes on with it.\<close>

definition reconnect :: "('c, 'h) quic_env \<Rightarrow> quic_turn \<Rightarrow> bytes \<Rightarrow> ('c, 'h) quic \<Rightarrow> ('c, 'h) outcome" where
  "reconnect e t retry s =
     (let s = s\<lparr>ech_retried := True, current_ech := Some retry\<rparr> in
      case q_connect (quic e) (q_sni e) (new_scid t) (q_local e) (q_peer e) of
        Inl err \<Rightarrow> Some (s, Inl (Quic err))
      | Inr c \<Rightarrow>
          (case inject_ech (q_set1_ech (quic e)) retry c of
             (c, Inl err) \<Rightarrow> Some (s\<lparr>conn := c\<rparr>, Inl err)
           | (c, Inr _) \<Rightarrow>
               flush_turn e
                 (s\<lparr>conn := c, h3c := None, req_stream := None, capsules := parser_new,
                    ech_used := ech_used s @ [Some retry]\<rparr>)))"

text \<open>The end of a turn: a closed connection is opened once more with the configuration its peer asks for, or ends the loop.\<close>

definition closed_turn :: "('c, 'h) quic_env \<Rightarrow> quic_turn \<Rightarrow> ('c, 'h) quic
    \<Rightarrow> (('c, 'h) quic, ('c, 'h) outcome) ctl" where
  "closed_turn e t s =
     (if \<not> q_closed (quic e) (conn s) then Go s
      else if \<not> established_ever s \<and> \<not> ech_retried s \<and> current_ech s \<noteq> None then
        (case extract_ech_retry_configs (q_get0_retry (quic e)) (conn s) of
           None \<Rightarrow> Stop (Some (s, Inr ()))
         | Some retry \<Rightarrow>
             (case reconnect e t retry s of
                None \<Rightarrow> Stop None
              | Some (s, Inl err) \<Rightarrow> Stop (Some (s, Inl err))
              | Some (s, Inr _) \<Rightarrow> Go s))
      else Stop (Some (s, Inr ())))"

definition VALIDATION_TIMEOUT :: aether_error where
  "VALIDATION_TIMEOUT = aether_error.Masque ''data-plane validation timeout (handshake ok, no traffic)''"

definition quic_step :: "('c, 'h) quic_env \<Rightarrow> quic_turn \<Rightarrow> ('c, 'h) quic \<Rightarrow> (('c, 'h) quic, ('c, 'h) outcome) ctl" where
  "quic_step e t s =
     (if probing e s \<and> (case validate_deadline s of None \<Rightarrow> False | Some dl \<Rightarrow> dl \<le> at_top t) then
        Stop (Some (s\<lparr>conn := q_close (quic e) ''validation-timeout'' (conn s)\<rparr>, Inl VALIDATION_TIMEOUT))
      else
        (case work e t (run_branch e t (select_biased (probing e s) t) s) of
           None \<Rightarrow> Stop None
         | Some (s, Inl err) \<Rightarrow> Stop (Some (s, Inl err))
         | Some (s, Inr _) \<Rightarrow> closed_turn e t s))"

subsection \<open>The start\<close>

text \<open>
  From the bound socket to the loop: \<open>config\<close> and \<open>h3_config\<close> are the errors of
  \<open>tls::build_config\<close> and of \<open>h3::Config::new\<close>.
\<close>

definition quic_init :: "('c, 'h) quic_env \<Rightarrow> bool \<Rightarrow> 'c \<Rightarrow> ('c, 'h) quic" where
  "quic_init e ready c =
     \<lparr>conn = c, h3c = None, req_stream = None, capsules = parser_new, sockets = [q_local e],
      current_ech = q_ech_config e, established_ever = False, ech_retried = False, ready_tx = ready,
      ready_fired = False, validate_deadline = None, validate_successes = 0, ready_signals = 0,
      delivered = [], offered = [], udp_sent = [],
      decoys_sent = drawn (pre_handshake (q_hex e) (q_gen e) (q_noize e)) (q_draws e),
      ech_used = [q_ech_config e]\<rparr>"

definition quic_start :: "('c, 'h) quic_env \<Rightarrow> unit result \<Rightarrow> str option \<Rightarrow> bytes \<Rightarrow> bool
    \<Rightarrow> ('c, 'h) quic result option" where
  "quic_start e config h3_config scid ready =
     (case config of
        Inl err \<Rightarrow> Some (Inl err)
      | Inr _ \<Rightarrow>
          (case q_connect (quic e) (q_sni e) scid (q_local e) (q_peer e) of
             Inl err \<Rightarrow> Some (Inl (Quic err))
           | Inr c \<Rightarrow>
               (case (case q_ech_config e of
                        Some ech \<Rightarrow> inject_ech (q_set1_ech (quic e)) ech c
                      | None \<Rightarrow> (c, Inr ())) of
                  (c, Inl err) \<Rightarrow> Some (Inl err)
                | (c, Inr _) \<Rightarrow>
                    (case h3_config of
                       Some err \<Rightarrow> Some (Inl (H3 err))
                     | None \<Rightarrow>
                         map_option (\<lambda>(s, r). case r of Inl err \<Rightarrow> Inl err | Inr _ \<Rightarrow> Inr s)
                           (flush_turn e (quic_init e ready c))))))"

subsection \<open>What holds of every outcome\<close>

definition every :: "(('c, 'h) quic \<Rightarrow> bool) \<Rightarrow> ('c, 'h) outcome \<Rightarrow> bool" where
  "every I m = (case m of None \<Rightarrow> True | Some (s, _) \<Rightarrow> I s)"

lemma every_simps [simp]: "every I None" "every I (Some (s, r)) = I s"
  by (simp_all add: every_def)

lemma every_and_then: "every I m \<Longrightarrow> (\<And>s. I s \<Longrightarrow> every I (f s)) \<Longrightarrow> every I (and_then m f)"
  by (auto simp: and_then_def split: option.split prod.split sum.split)

text \<open>How a turn can end once the work is done.\<close>

lemma closed_turn_cases:
  obtains (open_) "closed_turn e t u = Go u"
    | (finished) "closed_turn e t u = Stop (Some (u, Inr ()))"
    | (retry) ech where "\<not> established_ever u" "\<not> ech_retried u" "current_ech u \<noteq> None"
        "extract_ech_retry_configs (q_get0_retry (quic e)) (conn u) = Some ech"
        "closed_turn e t u = (case reconnect e t ech u of None \<Rightarrow> Stop None
           | Some (s, Inl err) \<Rightarrow> Stop (Some (s, Inl err)) | Some (s, Inr _) \<Rightarrow> Go s)"
proof (cases "q_closed (quic e) (conn u) \<and> \<not> established_ever u \<and> \<not> ech_retried u \<and> current_ech u \<noteq> None")
  case True
  then show ?thesis
    using finished retry by (cases "extract_ech_retry_configs (q_get0_retry (quic e)) (conn u)") (simp_all add: closed_turn_def)
next
  case False
  then show ?thesis using open_ finished by (cases "q_closed (quic e) (conn u)") (auto simp: closed_turn_def)
qed

text \<open>
  An invariant of the loop: what the branches and the steps of a turn keep. \<open>relevant\<close> are the
  parts of the state such an invariant may speak of without seeing the connection.
\<close>

locale quic_invariant =
  fixes e :: "('c, 'h) quic_env" and I :: "('c, 'h) quic \<Rightarrow> bool"
  assumes I_conn: "I s \<Longrightarrow> I (s\<lparr>conn := c\<rparr>)"
    and I_sockets: "I s \<Longrightarrow> I (s\<lparr>conn := c, sockets := k\<rparr>)"
    and I_established: "I s \<Longrightarrow> I (s\<lparr>established_ever := True, conn := c\<rparr>)"
    and I_request: "I s \<Longrightarrow> established_ever s \<Longrightarrow> I (s\<lparr>conn := c, req_stream := Some sid, h3c := Some h\<rparr>)"
    and I_deadline: "I s \<Longrightarrow> data_check_enabled (vars e) \<Longrightarrow> I (s\<lparr>validate_deadline := Some dl\<rparr>)"
    and I_ready: "I s \<Longrightarrow> \<not> data_check_enabled (vars e) \<Longrightarrow> established_ever s \<Longrightarrow> I (fire_ready s)"
    and I_poll: "I s \<Longrightarrow> I (s\<lparr>conn := c, h3c := Some h, capsules := p, offered := out\<rparr>)"
    and I_drain: "I s \<Longrightarrow> drain_datagrams (octs e) (quic e) (client_accepts e) (req_stream s) (conn s) (delivered s) = Some (c, inb, got) \<Longrightarrow>
      I (if got \<and> \<not> ready_fired s then confirm (s\<lparr>conn := c, delivered := inb\<rparr>) else s\<lparr>conn := c, delivered := inb\<rparr>)"
    and I_flush: "I s \<Longrightarrow> I (s\<lparr>conn := c, udp_sent := u\<rparr>)"
    and I_retry: "I s \<Longrightarrow> \<not> established_ever s \<Longrightarrow> \<not> ech_retried s \<Longrightarrow> current_ech s \<noteq> None \<Longrightarrow> retry \<noteq> [] \<Longrightarrow>
      I (s\<lparr>ech_retried := True, current_ech := Some retry\<rparr>) \<and>
      I (s\<lparr>ech_retried := True, current_ech := Some retry, conn := c, h3c := None, req_stream := None,
           capsules := parser_new, ech_used := ech_used s @ [Some retry]\<rparr>)"
begin

lemma I_branch: "I s \<Longrightarrow> I (run_branch e t b s)"
  by (auto simp: run_branch_def Let_def intro: I_conn I_sockets
      split: branch.split option.split control.split prod.split)

lemma I_open: "I s \<Longrightarrow> every I (open_request e t s)"
proof -
  assume "I s"
  then have est: "I (s\<lparr>established_ever := True, conn := c\<rparr>)" for c by (rule I_established)
  have req: "I (s\<lparr>established_ever := True, conn := c, req_stream := Some sid, h3c := Some h\<rparr>)" for c sid h
    using I_request [OF est [of c], where c = c and sid = sid and h = h] by simp
  show ?thesis
    using \<open>I s\<close> est req I_deadline [OF req] I_ready [OF req]
    by (auto simp: open_request_def Let_def every_def split: prod.split sum.split option.split)
qed

lemma I_poll_turn: "I s \<Longrightarrow> every I (poll_turn e s)"
  by (auto simp: poll_turn_def every_def map_option_case intro: I_poll split: option.split prod.split)

lemma I_drain_turn: "I s \<Longrightarrow> every I (drain_turn e s)"
  using I_drain by (auto simp: drain_turn_def every_def map_option_case Let_def split: option.splits prod.splits)

lemma I_flush_turn: "I s \<Longrightarrow> every I (flush_turn e s)"
  by (auto simp: flush_turn_def every_def map_option_case intro: I_flush split: option.split prod.split)

lemma I_work: "I s \<Longrightarrow> every I (work e t s)"
  unfolding work_def by (intro every_and_then I_open I_poll_turn I_drain_turn I_flush_turn)

lemma I_reconnect:
  assumes "I s" "\<not> established_ever s" "\<not> ech_retried s" "current_ech s \<noteq> None" "retry \<noteq> []"
  shows "every I (reconnect e t retry s)"
proof -
  note I1 = I_retry [OF assms, THEN conjunct1] and I2 = I_retry [OF assms, THEN conjunct2]
  have c: "I (s\<lparr>ech_retried := True, current_ech := Some retry, conn := c\<rparr>)" for c
    using I_conn [OF I1] by simp
  show ?thesis
  proof (cases "q_connect (quic e) (q_sni e) (new_scid t) (q_local e) (q_peer e)")
    case (Inl err)
    then show ?thesis using I1 by (simp add: reconnect_def Let_def)
  next
    case (Inr c0)
    obtain c r where "inject_ech (q_set1_ech (quic e)) retry c0 = (c, r)" by fastforce
    then show ?thesis using Inr I_flush_turn [OF I2] c
      by (cases r) (simp_all add: reconnect_def Let_def)
  qed
qed

lemma I_step_Go: "I s \<Longrightarrow> quic_step e t s = Go s' \<Longrightarrow> I s'"
  and I_step_Stop: "I s \<Longrightarrow> quic_step e t s = Stop r \<Longrightarrow> every I r"
proof -
  assume s: "I s"
  define w where "w = work e t (run_branch e t (select_biased (probing e s) t) s)"
  have w_I: "every I w" unfolding w_def by (rule I_work [OF I_branch [OF s]])
  have rc: "every I (reconnect e t retry u)"
    if "I u" "\<not> established_ever u" "\<not> ech_retried u" "current_ech u \<noteq> None"
      "extract_ech_retry_configs (q_get0_retry (quic e)) (conn u) = Some retry" for u retry
    by (rule I_reconnect [OF that(1-4) extract_nonempty [OF that(5)]])
  have cl: "ctl_all I (every I) (closed_turn e t u)" if u: "I u" for u
  proof (cases rule: closed_turn_cases [of e t u])
    case (retry ech)
    then show ?thesis using rc [OF u retry(1-4)]
      by (cases "reconnect e t ech u") (auto simp: retry(5) split: sum.split)
  qed (use u in simp_all)
  have "ctl_all I (every I) (quic_step e t s)"
  proof (cases w)
    case None
    then show ?thesis using I_conn [OF s] by (simp add: quic_step_def w_def [symmetric])
  next
    case (Some v)
    obtain u x where v: "v = (u, x)" by fastforce
    then have "I u" using w_I Some by simp
    then show ?thesis using I_conn [OF s] cl
      by (cases x) (simp_all add: quic_step_def w_def [symmetric] Some v)
  qed
  then show "quic_step e t s = Go s' \<Longrightarrow> I s'" and "quic_step e t s = Stop r \<Longrightarrow> every I r"
    by simp_all
qed

end

sublocale quic_invariant \<subseteq> event_loop "quic_step e" I "every I" "\<lambda>_. True"
  by unfold_locales (auto intro: I_step_Go I_step_Stop)

subsection \<open>When the tunnel reports that it is ready\<close>

text \<open>\<open>b\<close>: somebody waits for the signal when the loop starts.\<close>

definition ready_inv :: "('c, 'h) quic_env \<Rightarrow> bool \<Rightarrow> ('c, 'h) quic \<Rightarrow> bool" where
  "ready_inv e b s \<longleftrightarrow>
     ready_tx s = (b \<and> \<not> ready_fired s)
     \<and> ready_signals s = (if b \<and> ready_fired s then 1 else 0)
     \<and> (req_stream s \<noteq> None \<longrightarrow> established_ever s)
     \<and> (ready_fired s \<longrightarrow> established_ever s \<and> (data_check_enabled (vars e) \<longrightarrow> validate_successes s = 2))
     \<and> (\<not> ready_fired s \<longrightarrow> validate_successes s < 2)
     \<and> ((\<forall>i. client_accepts e i) \<longrightarrow> validate_successes s \<le> length (delivered s))"

lemma ready_inv_confirm:
  assumes "ready_inv e b s" "\<not> ready_fired s" "req_stream s \<noteq> None"
    and "(\<forall>i. client_accepts e i) \<longrightarrow> length (delivered s) < length inb"
  shows "ready_inv e b (confirm (s\<lparr>conn := c, delivered := inb\<rparr>))"
  using assms by (auto simp: ready_inv_def confirm_def fire_ready_def Let_def DATA_PROBE_REQUIRED_SUCCESSES_def)

interpretation ready: quic_invariant e "ready_inv e b" for e b
proof
  fix s :: "('a, 'b) quic" and c inb got
  assume s: "ready_inv e b s"
    and d: "drain_datagrams (octs e) (quic e) (client_accepts e) (req_stream s) (conn s) (delivered s) = Some (c, inb, got)"
  have "ready_inv e b (s\<lparr>conn := c, delivered := inb\<rparr>)"
    using s drain_datagrams_grows(1) [OF d] by (auto simp: ready_inv_def)
  then show "ready_inv e b (if got \<and> \<not> ready_fired s then confirm (s\<lparr>conn := c, delivered := inb\<rparr>)
      else s\<lparr>conn := c, delivered := inb\<rparr>)"
    using ready_inv_confirm [OF s, of inb c] drain_datagrams_grows(2, 3) [OF d] by auto
qed (auto simp: ready_inv_def fire_ready_def)

subsection \<open>Encrypted client hello is kept and retried once\<close>

definition ech_kept :: "bytes option \<Rightarrow> bytes option list \<Rightarrow> bool" where
  "ech_kept ech used \<longleftrightarrow>
     used = [ech] \<or> (\<exists>a r. ech = Some a \<and> r \<noteq> [] \<and> used = [ech, Some r])"

definition ech_inv :: "bytes option \<Rightarrow> ('c, 'h) quic \<Rightarrow> bool" where
  "ech_inv ech s \<longleftrightarrow>
     ech_kept ech (ech_used s) \<and> (\<not> ech_retried s \<longrightarrow> ech_used s = [ech] \<and> current_ech s = ech)"

interpretation ech: quic_invariant e "ech_inv ech" for e ech
  by unfold_locales (auto simp: ech_inv_def ech_kept_def fire_ready_def confirm_def Let_def)

subsection \<open>Every turn ends\<close>

text \<open>A turn of a tunnel whose deadline fits into an instant, over finite queues, comes to an end.\<close>

context quiche_queues
begin

lemma loops_end [simp]:
  "poll_h3 oc q req s \<noteq> None" "drain_datagrams oc q accepts sid c inbound \<noteq> None" "flush q net socks c sent \<noteq> None"
  using poll_h3_ends [of oc req s] drain_datagrams_ends [of oc accepts sid c inbound] flush_ends [of net socks c sent]
  by (simp_all del: not_None_eq) (metis option.distinct(1))+

lemma work_ends:
  assumes "quic e = q" and dl: "instant_add (at_work t) (validation_timeout (vars e)) \<noteq> None"
  shows "work e t s \<noteq> None"
proof -
  have bind: "m \<noteq> None \<Longrightarrow> (\<And>s. f s \<noteq> None) \<Longrightarrow> and_then m f \<noteq> None" for m :: "('c, 'h) outcome" and f
    by (auto simp: and_then_def simp del: not_None_eq split: option.split sum.split)
  have "open_request e t s \<noteq> None" for s
    using dl by (auto simp: open_request_def Let_def split: prod.split sum.split)
  moreover have "poll_turn e s \<noteq> None" for s
    by (auto simp: poll_turn_def assms(1) simp del: not_None_eq split: option.split)
  moreover have "drain_turn e s \<noteq> None" for s
    by (simp add: drain_turn_def assms(1) del: not_None_eq)
  moreover have "flush_turn e s \<noteq> None" for s
    by (simp add: flush_turn_def assms(1) del: not_None_eq)
  ultimately show ?thesis unfolding work_def by (intro bind)
qed

lemma step_ends:
  assumes "quic e = q" and dl: "instant_add (at_work t) (validation_timeout (vars e)) \<noteq> None"
  shows "quic_step e t s \<noteq> Stop None"
proof -
  have "reconnect e t retry u \<noteq> None" for retry u
    by (auto simp: reconnect_def Let_def flush_turn_def assms(1) simp del: not_None_eq split: sum.split prod.split)
  then have cl: "closed_turn e t u \<noteq> Stop None" for u
    by (auto simp: closed_turn_def simp del: not_None_eq split: option.split sum.split)
  obtain u x where "work e t (run_branch e t (select_biased (probing e s) t) s) = Some (u, x)"
    using work_ends [OF assms] by (metis not_None_eq surj_pair)
  then show ?thesis using cl by (auto simp: quic_step_def split: sum.split)
qed

end

subsection \<open>A closed control channel\<close>

text \<open>
  The branch of the control channel comes before the timer, and a closed channel is always
  ready. A turn in which it is closed goes the same way whatever the timer would do.
\<close>

definition timer_as :: "('c \<Rightarrow> 'c) \<Rightarrow> ('c, 'h) quic_env \<Rightarrow> ('c, 'h) quic_env" where
  "timer_as f e = e\<lparr>on_timeout := f\<rparr>"

lemma select_closed: "from_ctrl t = Some None \<Longrightarrow> select_biased p t \<noteq> TimedOut"
  by (simp add: select_biased_def split: option.split prod.split)

lemma timer_as_fields:
  "quic (timer_as f e) = quic e" "octs (timer_as f e) = octs e" "udp_net (timer_as f e) = udp_net e"
  "client_accepts (timer_as f e) = client_accepts e" "vars (timer_as f e) = vars e"
  "q_peer (timer_as f e) = q_peer e" "q_local (timer_as f e) = q_local e" "q_sni (timer_as f e) = q_sni e"
  "q_authority (timer_as f e) = q_authority e" "q_path (timer_as f e) = q_path e"
  "probe_packet (timer_as f e) = probe_packet e"
  by (simp_all add: timer_as_def)

lemma timer_as_same:
  "probing (timer_as f e) = probing e" "work (timer_as f e) = work e" "closed_turn (timer_as f e) = closed_turn e"
proof -
  have flush: "flush_turn (timer_as f e) = flush_turn e"
    unfolding flush_turn_def [abs_def] timer_as_fields ..
  show "probing (timer_as f e) = probing e"
    unfolding probing_def [abs_def] timer_as_fields ..
  show "work (timer_as f e) = work e"
    unfolding work_def [abs_def] open_request_def poll_turn_def drain_turn_def flush timer_as_fields ..
  show "closed_turn (timer_as f e) = closed_turn e"
    unfolding closed_turn_def [abs_def] reconnect_def flush timer_as_fields ..
qed

lemma branch_timer_as: "b \<noteq> TimedOut \<Longrightarrow> run_branch (timer_as f e) t b s = run_branch e t b s"
  unfolding run_branch_def timer_as_fields by (cases b) simp_all

lemma step_timer_as: "from_ctrl t = Some None \<Longrightarrow> quic_step (timer_as f e) t s = quic_step e t s"
  unfolding quic_step_def timer_as_same timer_as_fields by (simp add: branch_timer_as [OF select_closed])

lemma run_loop_cong: "(\<And>t s. t \<in> set ts \<Longrightarrow> step t s = step' t s) \<Longrightarrow> run_loop step ts s = run_loop step' ts s"
proof (induction ts arbitrary: s)
  case (Cons t ts)
  then have "step t s = step' t s" by simp
  then show ?case using Cons by (cases "step' t s") simp_all
qed simp

subsection \<open>Runs\<close>

text \<open>The state a run leaves: where it stands, or where it returned.\<close>

fun left :: "(('c, 'h) quic, ('c, 'h) outcome) ctl \<Rightarrow> ('c, 'h) quic option" where
  "left (Go s) = Some s"
| "left (Stop r) = map_option fst r"

context quic_invariant
begin

lemma I_left:
  assumes "I s" "left (run_loop (quic_step e) ts s) = Some s'"
  shows "I s'"
  using assms run_Go [of ts s s'] run_Stop [of ts s]
  by (cases "run_loop (quic_step e) ts s") auto

end

lemma flush_turn_state: "flush_turn e s = Some (s', r) \<Longrightarrow> \<exists>c u. s' = s\<lparr>conn := c, udp_sent := u\<rparr>"
  by (auto simp: flush_turn_def)

lemma quic_start_state:
  "quic_start e config h3_config scid b = Some (Inr s) \<Longrightarrow> \<exists>c' c u. s = (quic_init e b c')\<lparr>conn := c, udp_sent := u\<rparr>"
  by (simp add: quic_start_def split: sum.splits option.splits prod.splits)
    (metis (full_types) flush_turn_state old.sum.exhaust old.unit.exhaust)+

lemma quic_start_inv:
  "quic_start e config h3_config scid b = Some (Inr s) \<Longrightarrow> ready_inv e b s \<and> ech_inv (q_ech_config e) s"
  by (drule quic_start_state) (auto simp: quic_init_def ready_inv_def ech_inv_def ech_kept_def)

subsection \<open>A sample tunnel\<close>

definition sample_quic :: "(script, unit) quic_env" where
  "sample_quic =
     \<lparr>quic = script_ops (idle\<lparr>st_established := False\<rparr>,
        [idle, idle\<lparr>st_dgrams := [[0, 0, 0x45]]\<rparr>, idle\<lparr>st_dgrams := [[0, 0, 0x60]]\<rparr>]),
      on_timeout = id, octs = rfc_octets, udp_net = \<lparr>any_socket = hd, send_fails = (\<lambda>_. None)\<rparr>,
      client_accepts = (\<lambda>_. True), vars = (\<lambda>_. None), q_peer = SockAddr (IpV4 1) 443,
      q_local = SockAddr (IpV4 2) 1000, q_sni = default_sni, q_authority = default_authority,
      q_path = default_path, q_ech_config = None, q_noize = noize_off, q_hex = (\<lambda>_. None),
      q_gen = (\<lambda>_. 0), q_draws = 0, probe_packet = []\<rparr>"

definition packet_turn :: quic_turn where
  "packet_turn =
     \<lparr>at_top = 0, at_work = 0, keepalive_tick = False, probe_tick = False,
      from_net = Some (SockAddr (IpV4 2) 1000, SockAddr (IpV4 1) 443, [0x40]), from_ctrl = None,
      from_client = None, new_socket = Inl [], new_scid = []\<rparr>"

lemma sample_decode:
  "decode_ip_datagram rfc_octets [0, 0, 0x45] 0 = Inr (Some [0x45])"
  "decode_ip_datagram rfc_octets [0, 0, 0x60] 0 = Inr (Some [0x60])"
  using rfc.decode_encoded [of 0 "[0x45]" 0] rfc.decode_encoded [of 0 "[0x60]" 0]
  by (simp_all add: quarter_stream_id_def rfc_octets_def rfc_vput_def rfc_tag_def be_bytes_def)

definition sample_start :: "(script, unit) quic" where
  "sample_start =
     \<lparr>conn = (idle\<lparr>st_established := False\<rparr>,
        [idle, idle\<lparr>st_dgrams := [[0, 0, 0x45]]\<rparr>, idle\<lparr>st_dgrams := [[0, 0, 0x60]]\<rparr>]),
      h3c = None, req_stream = None, capsules = parser_new, sockets = [SockAddr (IpV4 2) 1000],
      current_ech = None, established_ever = False, ech_retried = False, ready_tx = True, ready_fired = False,
      validate_deadline = None, validate_successes = 0, ready_signals = 0, delivered = [], offered = [],
      udp_sent = [], decoys_sent = [], ech_used = [None]\<rparr>"

definition sample_end :: "(script, unit) quic" where
  "sample_end = sample_start\<lparr>conn := (idle, []), h3c := Some (), req_stream := Some 0, established_ever := True,
     ready_tx := False, ready_fired := True, validate_successes := 2, ready_signals := 1,
     delivered := [[0x45], [0x60]]\<rparr>"

lemma script_flush [simp]: "st_packets (fst c) = [] \<Longrightarrow> flush (script_ops i) net socks c u = Some ((c, u), Inr ())"
  by (subst flush.simps) (simp add: script_ops_def script_send_def)

lemma script_poll_none [simp]: "st_events (fst (hs_conn s)) = [] \<Longrightarrow> poll_h3 oc (script_ops i) sid s = Some (s, Inr ())"
  by (subst poll_h3.simps) (simp add: script_ops_def script_poll_def)

lemma script_drain [simp]:
  "st_dgrams (fst c) = [] \<Longrightarrow> drain_loop oc (script_ops i) acc sid c inb b = Some (c, inb, b)"
  "st_dgrams (fst c) = d # ds \<Longrightarrow> decode_ip_datagram oc d sid = Inr (Some p) \<Longrightarrow>
     drain_loop oc (script_ops i) (\<lambda>_. True) sid c inb b =
     drain_loop oc (script_ops i) (\<lambda>_. True) sid ((fst c)\<lparr>st_dgrams := ds\<rparr>, snd c) (inb @ [p]) True"
  by (subst drain_loop.simps, simp add: script_ops_def script_dgram_def)+

lemma script_calls [simp]:
  "q_established (script_ops i) c = st_established (fst c)" "q_closed (script_ops i) c = st_closed (fst c)"
  "q_recv (script_ops i) d a b c = script_recv c" "q_h3 (script_ops i) c = (c, Inr ())"
  "q_request (script_ops i) hs c h = ((c, h), Inr 0)" "q_close (script_ops i) m c = ((fst c)\<lparr>st_closed := True\<rparr>, snd c)"
  by (simp_all add: script_ops_def)

lemma script_connect: "q_connect (script_ops i) sni scid a b = Inr i"
  by (simp add: script_ops_def)

lemma sample_fields [simp]:
  "quic sample_quic = script_ops (idle\<lparr>st_established := False\<rparr>,
     [idle, idle\<lparr>st_dgrams := [[0, 0, 0x45]]\<rparr>, idle\<lparr>st_dgrams := [[0, 0, 0x60]]\<rparr>])"
  "octs sample_quic = rfc_octets" "client_accepts sample_quic = (\<lambda>_. True)" "vars sample_quic = (\<lambda>_. None)"
  "data_check_enabled (\<lambda>_. None)" "validation_timeout (\<lambda>_. None) = 10000"
  "q_ech_config sample_quic = None" "q_local sample_quic = SockAddr (IpV4 2) 1000"
  "pre_handshake (q_hex sample_quic) (q_gen sample_quic) (q_noize sample_quic) = State_Monad.return []"
  "at_top packet_turn = 0" "at_work packet_turn = 0"
  "select_biased p packet_turn = FromNet (SockAddr (IpV4 2) 1000) (SockAddr (IpV4 1) 443) [0x40]"
  by (simp_all add: sample_quic_def packet_turn_def select_biased_def data_check_enabled_def validation_timeout_def
      pre_handshake_def noize_off_def noize_enabled_def)

lemma sample_starts: "quic_start sample_quic (Inr ()) None [] True = Some (Inr sample_start)"
  by (simp add: quic_start_def flush_turn_def quic_init_def sample_start_def script_connect) (simp add: idle_def)

lemma packet_turn_step:
  "validate_deadline s \<noteq> Some 0 \<Longrightarrow>
     quic_step sample_quic packet_turn s =
       (case work sample_quic packet_turn (s\<lparr>conn := script_recv (conn s)\<rparr>) of
          None \<Rightarrow> Stop None | Some (s, Inl err) \<Rightarrow> Stop (Some (s, Inl err))
        | Some (s, Inr _) \<Rightarrow> closed_turn sample_quic packet_turn s)"
  by (cases "validate_deadline s") (simp_all add: quic_step_def run_branch_def Let_def)

lemmas turn_defs = work_def open_request_def poll_turn_def drain_turn_def flush_turn_def closed_turn_def and_then_def
  confirm_def fire_ready_def drain_datagrams_def instant_add_def DATA_PROBE_REQUIRED_SUCCESSES_def

lemma sample_runs: "run_loop (quic_step sample_quic) (replicate 3 packet_turn) sample_start = Go sample_end"
  by (simp add: numeral_3_eq_3 packet_turn_step turn_defs sample_start_def sample_end_def script_recv_def idle_def
      sample_decode)

text \<open>The same with encrypted client hello, against a peer that asks for another configuration.\<close>

definition sample_ech :: "(script, unit) quic_env" where
  "sample_ech = sample_quic\<lparr>quic := script_ops (idle\<lparr>st_established := False\<rparr>, [idle\<lparr>st_established := False, st_closed := True\<rparr>]),
     q_ech_config := Some [9]\<rparr>"

definition sample_ech_start :: "(script, unit) quic" where
  "sample_ech_start = quic_init sample_ech True (idle\<lparr>st_established := False\<rparr>, [idle\<lparr>st_established := False, st_closed := True\<rparr>])"

lemma sample_ech_fields:
  "quic sample_ech = script_ops (idle\<lparr>st_established := False\<rparr>, [idle\<lparr>st_established := False, st_closed := True\<rparr>])"
  "octs sample_ech = rfc_octets" "client_accepts sample_ech = (\<lambda>_. True)" "vars sample_ech = (\<lambda>_. None)"
  "q_ech_config sample_ech = Some [9]" "q_local sample_ech = SockAddr (IpV4 2) 1000"
  by (simp_all add: sample_ech_def)

lemma script_ech: "q_set1_ech (script_ops i) ech c = (c, 1)" "q_get0_retry (script_ops i) c = Some [1, 2]"
  by (simp_all add: script_ops_def)

lemma sample_ech_starts: "quic_start sample_ech (Inr ()) None [] True = Some (Inr sample_ech_start)"
  by (simp add: quic_start_def flush_turn_def sample_ech_start_def quic_init_def script_connect sample_ech_fields
      inject_ech_def script_ech) (simp add: idle_def)

lemma sample_ech_runs:
  "left (run_loop (quic_step sample_ech) [packet_turn] sample_ech_start) =
     Some (sample_ech_start\<lparr>ech_retried := True, current_ech := Some [1, 2], ech_used := [Some [9], Some [1, 2]]\<rparr>)"
  by (simp add: quic_step_def run_branch_def turn_defs reconnect_def sample_ech_start_def quic_init_def sample_ech_fields
      script_recv_def script_connect script_ech inject_ech_def extract_ech_retry_configs_def Let_def idle_def)

subsection \<open>Properties\<close>

text \<open>C1. In every run of the tunnel, whatever the network, the peer and the client do, \<open>ready_tx\<close>
  is signalled at most once, and only after the handshake was complete; unless the data check is
  switched off, it is signalled only after two turns in which IP packets came back through the
  tunnel, so that at least two packets were delivered to a client that is still there.\<close>

theorem tunnel_ready:
  assumes "quic_start e config h3_config scid b = Some (Inr s)"
    and "left (run_loop (quic_step e) turns s) = Some s'"
  shows "ready_signals s' \<le> 1 \<and>
    (ready_signals s' = 1 \<longrightarrow> b \<and> established_ever s' \<and>
      (data_check_enabled (vars e) \<longrightarrow> validate_successes s' = 2 \<and>
        ((\<forall>i. client_accepts e i) \<longrightarrow> 2 \<le> length (delivered s'))))"
proof -
  have "ready_inv e b s'"
    using quic_start_inv [OF assms(1)] ready.I_left [OF _ assms(2)] by blast
  then show ?thesis by (auto simp: ready_inv_def)
qed

theorem tunnel_ready_witness:
  "ready_signals sample_end = 1 \<and> validate_successes sample_end = 2 \<and> 2 \<le> length (delivered sample_end)"
proof -
  have "left (run_loop (quic_step sample_quic) (replicate 3 packet_turn) sample_start) = Some sample_end"
    by (simp only: sample_runs left.simps)
  from tunnel_ready [OF sample_starts this] show ?thesis
    by (simp add: sample_end_def)
qed





text \<open>C26. Once the control channel is closed, the timer of the connection is never served again:
  a run in which the channel is closed in every turn goes the same way whatever \<open>on_timeout\<close>
  does. A connection that was told to close waits for this timer to be closed.\<close>

theorem closed_control_starves_timer:
  assumes "\<forall>t \<in> set turns. from_ctrl t = Some None"
  shows "run_loop (quic_step (e\<lparr>on_timeout := f\<rparr>)) turns s = run_loop (quic_step e) turns s"
  using step_timer_as [unfolded timer_as_def] assms by (intro run_loop_cong) blast

theorem closed_control_starves_timer_witness:
  "run_loop (quic_step (sample_quic\<lparr>on_timeout := \<lambda>c. ((fst c)\<lparr>st_closed := True\<rparr>, snd c)\<rparr>))
      (replicate 5 (packet_turn\<lparr>from_net := None, from_ctrl := Some None\<rparr>)) sample_start =
   run_loop (quic_step sample_quic) (replicate 5 (packet_turn\<lparr>from_net := None, from_ctrl := Some None\<rparr>)) sample_start"
  by (rule closed_control_starves_timer) simp

end
