(* ===== verification/Quic_Verify.thy ===== *)
theory Quic_Verify
  imports Quic_Tunnel
begin

section \<open>The check of a MASQUE gateway (verify_masque in quic.rs)\<close>

text \<open>
  The loop of \<open>verify_masque\<close>: a handshake, a CONNECT-IP request answered with status 200, and,
  unless the data check is switched off, two IP packets back through the tunnel. \<open>Some\<close> and
  \<open>None\<close> are as in \<open>Quic_Tunnel\<close>. Two fields of the state are not variables of the code but
  record what it saw: the values of the \<open>:status\<close> headers of the request stream and the
  packets that came back.
\<close>

record ('c, 'h) verify_env =
  v_quic :: "('c, 'h) quiche"
  v_on_timeout :: "'c \<Rightarrow> 'c"
  v_octs :: octets
  v_send_fails :: "bytes list \<Rightarrow> str option"
  v_vars :: "str \<Rightarrow> str option"
  v_peer :: sock_addr
  v_local :: sock_addr
  v_sni :: str
  v_authority :: str
  v_path :: str
  v_ech_config :: "bytes option"
  v_noize :: noize_config
  v_hex :: "str \<Rightarrow> bytes option"
  v_gen :: rng
  v_draws :: nat
  v_probe :: bytes
  v_start :: nat
  v_timeout :: nat

record ('c, 'h) verify =
  v_conn :: 'c
  v_h3 :: "'h option"
  v_stream :: "u64 option"
  connect_ip_ok :: bool
  last_probe :: nat
  probe_successes :: nat
  v_sent :: "bytes list"
  v_decoys :: "action list"
  statuses :: "bytes list"
  replies :: "bytes list"

text \<open>
  A turn: the time at its top and after the \<open>select!\<close>, and what the socket returned, if it did
  before the wait was over.
\<close>

record verify_turn =
  v_top :: nat
  v_now :: nat
  v_arrival :: "(str + bytes) option"

type_synonym ('c, 'h) verdict = "('c, 'h) verify \<times> nat result"

definition v_data_check :: "('c, 'h) verify_env \<Rightarrow> bool" where
  "v_data_check e = data_check_enabled (v_vars e)"

definition v_elapsed :: "('c, 'h) verify_env \<Rightarrow> verify_turn \<Rightarrow> nat" where
  "v_elapsed e t = v_now t - v_start e"

definition v_send_probe :: "('c, 'h) verify_env \<Rightarrow> ('c, 'h) verify \<Rightarrow> ('c, 'h) verify" where
  "v_send_probe e s = s\<lparr>v_conn := send_framed (v_octs e) (v_quic e) (v_stream s) (v_probe e) (v_conn s)\<rparr>"

definition v_request :: "('c, 'h) verify_env \<Rightarrow> ('c, 'h) verify \<Rightarrow> ('c, 'h) verify \<times> unit result" where
  "v_request e s =
     (if q_established (v_quic e) (v_conn s) \<and> v_h3 s = None then
        (case q_h3 (v_quic e) (v_conn s) of
           (c, Inl err) \<Rightarrow> (s\<lparr>v_conn := c\<rparr>, Inl (H3 err))
         | (c, Inr h) \<Rightarrow>
             (case q_request (v_quic e) (connect_ip_request (v_authority e) (v_path e)) c h of
                ((c, h), Inl err) \<Rightarrow> (s\<lparr>v_conn := c\<rparr>, Inl (H3 err))
              | ((c, h), Inr sid) \<Rightarrow> (s\<lparr>v_conn := c, v_stream := Some sid, v_h3 := Some h\<rparr>, Inr ())))
      else (s, Inr ()))"

text \<open>The headers of the response, and the loop that polls for them.\<close>

fun check_headers :: "('c, 'h) verify_env \<Rightarrow> verify_turn \<Rightarrow> header list \<Rightarrow> ('c, 'h) verify
    \<Rightarrow> (('c, 'h) verify, ('c, 'h) verdict) ctl" where
  "check_headers e t [] s = Go s"
| "check_headers e t ((name, val) # hs) s =
     (if name = text_bytes '':status'' then
        (let s = s\<lparr>statuses := statuses s @ [val]\<rparr> in
         if val = text_bytes ''200'' then
           (if \<not> v_data_check e then Stop (s, Inr (v_elapsed e t))
            else check_headers e t hs ((v_send_probe e (s\<lparr>connect_ip_ok := True\<rparr>))\<lparr>last_probe := v_now t\<rparr>))
         else Stop (s, Inl (Other (''status '' @ bytes_text (from_utf8_lossy val)))))
      else check_headers e t hs s)"

partial_function (option) v_poll :: "('c, 'h) verify_env \<Rightarrow> verify_turn \<Rightarrow> u64 \<Rightarrow> 'h \<Rightarrow> ('c, 'h) verify
    \<Rightarrow> (('c, 'h) verify, ('c, 'h) verdict) ctl option" where
  "v_poll e t sid h s =
     (case q_poll (v_quic e) (v_conn s) h of
        ((c, h), PollDone) \<Rightarrow> Some (Go (s\<lparr>v_conn := c, v_h3 := Some h\<rparr>))
      | ((c, h), PollErr err) \<Rightarrow> Some (Stop (s\<lparr>v_conn := c, v_h3 := Some h\<rparr>, Inl (H3 err)))
      | ((c, h), PollEvent ev) \<Rightarrow>
          (case (if (case ev of Headers stream_id hs \<Rightarrow> stream_id = sid | _ \<Rightarrow> False)
                 then check_headers e t (case ev of Headers _ hs \<Rightarrow> hs | _ \<Rightarrow> []) (s\<lparr>v_conn := c, v_h3 := Some h\<rparr>)
                 else Go (s\<lparr>v_conn := c, v_h3 := Some h\<rparr>)) of
             Go s \<Rightarrow> v_poll e t sid h s
           | Stop r \<Rightarrow> Some (Stop r)))"

definition v_poll_turn :: "('c, 'h) verify_env \<Rightarrow> verify_turn \<Rightarrow> ('c, 'h) verify
    \<Rightarrow> (('c, 'h) verify, ('c, 'h) verdict) ctl option" where
  "v_poll_turn e t s =
     (case (v_h3 s, v_stream s) of
        (Some h, Some sid) \<Rightarrow> v_poll e t sid h s
      | _ \<Rightarrow> Some (Go s))"

text \<open>The data plane: a probe every 700 ms, and the packets that come back.\<close>

definition v_resend :: "('c, 'h) verify_env \<Rightarrow> verify_turn \<Rightarrow> ('c, 'h) verify \<Rightarrow> ('c, 'h) verify" where
  "v_resend e t s =
     (if 700 \<le> v_now t - last_probe s then (v_send_probe e s)\<lparr>last_probe := v_now t\<rparr> else s)"

partial_function (option) v_drain :: "('c, 'h) verify_env \<Rightarrow> verify_turn \<Rightarrow> u64 \<Rightarrow> ('c, 'h) verify
    \<Rightarrow> (('c, 'h) verify, ('c, 'h) verdict) ctl option" where
  "v_drain e t sid s =
     (case q_dgram_recv (v_quic e) (v_conn s) of
        (c, DgramOk d) \<Rightarrow>
          (case decode_ip_datagram (v_octs e) d sid of
             Inr (Some p) \<Rightarrow>
               (let s = s\<lparr>v_conn := c, probe_successes := probe_successes s + 1, replies := replies s @ [p]\<rparr> in
                if DATA_PROBE_REQUIRED_SUCCESSES \<le> probe_successes s then Some (Stop (s, Inr (v_elapsed e t)))
                else v_drain e t sid ((v_send_probe e s)\<lparr>last_probe := v_now t\<rparr>))
           | _ \<Rightarrow> v_drain e t sid (s\<lparr>v_conn := c\<rparr>))
      | (c, _) \<Rightarrow> Some (Go (s\<lparr>v_conn := c\<rparr>)))"

definition v_data_turn :: "('c, 'h) verify_env \<Rightarrow> verify_turn \<Rightarrow> ('c, 'h) verify
    \<Rightarrow> (('c, 'h) verify, ('c, 'h) verdict) ctl option" where
  "v_data_turn e t s =
     (if \<not> connect_ip_ok s then Some (Go s)
      else
        (let s = v_resend e t s in
         case v_stream s of None \<Rightarrow> Some (Go s) | Some sid \<Rightarrow> v_drain e t sid s))"

partial_function (option) flush_connected :: "('c, 'h) verify_env \<Rightarrow> 'c \<Rightarrow> bytes list
    \<Rightarrow> (('c \<times> bytes list) \<times> unit result) option" where
  "flush_connected e c sent =
     (case q_send (v_quic e) c of
        (c, Packet d _ _) \<Rightarrow>
          (case v_send_fails e sent of
             Some err \<Rightarrow> Some ((c, sent), Inl (Io err))
           | None \<Rightarrow> flush_connected e c (sent @ [d]))
      | (c, SendDone) \<Rightarrow> Some ((c, sent), Inr ())
      | (c, SendErr err) \<Rightarrow> Some ((c, sent), Inl (Quic err)))"

declare v_poll.simps [code] v_drain.simps [code] flush_connected.simps [code]

definition v_flush_turn :: "('c, 'h) verify_env \<Rightarrow> ('c, 'h) verify \<Rightarrow> (('c, 'h) verify, ('c, 'h) verdict) ctl option" where
  "v_flush_turn e s =
     map_option (\<lambda>((c, sent), r).
         (let s = s\<lparr>v_conn := c, v_sent := sent\<rparr> in
          case r of
            Inl err \<Rightarrow> Stop (s, Inl err)
          | Inr _ \<Rightarrow>
              if q_closed (v_quic e) c then Stop (s, Inl (Other ''closed before data-plane confirmation''))
              else Go s))
       (flush_connected e (v_conn s) (v_sent s))"

text \<open>One step after another, until one stops the function or does not end.\<close>

definition chain :: "('s, 'r) ctl option \<Rightarrow> ('s \<Rightarrow> ('s, 'r) ctl option) \<Rightarrow> ('s, 'r) ctl option" where
  "chain m f = (case m of None \<Rightarrow> None | Some (Go s) \<Rightarrow> f s | Some (Stop r) \<Rightarrow> Some (Stop r))"

definition v_work :: "('c, 'h) verify_env \<Rightarrow> verify_turn \<Rightarrow> ('c, 'h) verify
    \<Rightarrow> (('c, 'h) verify, ('c, 'h) verdict) ctl option" where
  "v_work e t s =
     (case v_request e s of
        (s, Inl err) \<Rightarrow> Some (Stop (s, Inl err))
      | (s, Inr _) \<Rightarrow> chain (v_poll_turn e t s) (\<lambda>s. chain (v_data_turn e t s) (v_flush_turn e)))"

definition verify_masque_step :: "('c, 'h) verify_env \<Rightarrow> verify_turn \<Rightarrow> ('c, 'h) verify
    \<Rightarrow> (('c, 'h) verify, ('c, 'h) verdict option) ctl" where
  "verify_masque_step e t s =
     (if v_start e + v_timeout e \<le> v_top t then Stop (Some (s, Inl (Other ''verify timeout'')))
      else
        (case v_arrival t of
           Some (Inl err) \<Rightarrow> Stop (Some (s, Inl (Io err)))
         | arrival \<Rightarrow>
             (let c = (case arrival of
                         Some (Inr d) \<Rightarrow> q_recv (v_quic e) d (v_peer e) (v_local e) (v_conn s)
                       | _ \<Rightarrow> v_on_timeout e (v_conn s))
              in case v_work e t (s\<lparr>v_conn := c\<rparr>) of
                   None \<Rightarrow> Stop None
                 | Some (Go s) \<Rightarrow> Go s
                 | Some (Stop r) \<Rightarrow> Stop (Some r))))"

definition verify_masque_init :: "('c, 'h) verify_env \<Rightarrow> 'c \<Rightarrow> ('c, 'h) verify" where
  "verify_masque_init e c =
     \<lparr>v_conn = c, v_h3 = None, v_stream = None, connect_ip_ok = False, last_probe = v_start e,
      probe_successes = 0, v_sent = [],
      v_decoys = drawn (pre_handshake (v_hex e) (v_gen e) (v_noize e)) (v_draws e), statuses = [], replies = []\<rparr>"

text \<open>
  From the connected socket on. \<open>config\<close> and \<open>h3_config\<close> are as for the tunnel. A
  configuration of encrypted client hello that is refused is ignored here.
\<close>

definition verify_masque :: "('c, 'h) verify_env \<Rightarrow> unit result \<Rightarrow> str option \<Rightarrow> bytes \<Rightarrow> verify_turn list
    \<Rightarrow> (('c, 'h) verify, (('c, 'h) verify option \<times> nat result) option) ctl" where
  "verify_masque e config h3_config scid turns =
     (case config of
        Inl err \<Rightarrow> Stop (Some (None, Inl err))
      | Inr _ \<Rightarrow>
          (case q_connect (v_quic e) (v_sni e) scid (v_local e) (v_peer e) of
             Inl err \<Rightarrow> Stop (Some (None, Inl (Quic err)))
           | Inr c \<Rightarrow>
               (let c = (case v_ech_config e of
                           Some ech \<Rightarrow> fst (inject_ech (q_set1_ech (v_quic e)) ech c)
                         | None \<Rightarrow> c)
                in case h3_config of
                     Some err \<Rightarrow> Stop (Some (None, Inl (H3 err)))
                   | None \<Rightarrow>
                       (case flush_connected e c [] of
                          None \<Rightarrow> Stop None
                        | Some ((c, sent), Inl err) \<Rightarrow> Stop (Some (None, Inl err))
                        | Some ((c, sent), Inr _) \<Rightarrow>
                            (case run_loop (verify_masque_step e) turns ((verify_masque_init e c)\<lparr>v_sent := sent\<rparr>) of
                               Go s \<Rightarrow> Go s
                             | Stop r \<Rightarrow> Stop (map_option (map_prod Some id) r))))))"

subsection \<open>What a successful check has seen\<close>

definition STATUS_200 :: bytes where "STATUS_200 = text_bytes ''200''"

definition v_inv :: "('c, 'h) verify_env \<Rightarrow> ('c, 'h) verify \<Rightarrow> bool" where
  "v_inv e s \<longleftrightarrow>
     set (statuses s) \<subseteq> {STATUS_200} \<and> connect_ip_ok s = (statuses s \<noteq> []) \<and> probe_successes s = length (replies s)
     \<and> length (replies s) < 2 \<and> (replies s \<noteq> [] \<longrightarrow> connect_ip_ok s)"

definition v_post :: "('c, 'h) verify_env \<Rightarrow> verify_turn \<Rightarrow> ('c, 'h) verdict \<Rightarrow> bool" where
  "v_post e t v \<longleftrightarrow> (\<forall>d. snd v = Inr d \<longrightarrow> d = v_elapsed e t \<and>
     statuses (fst v) \<noteq> [] \<and> set (statuses (fst v)) \<subseteq> {STATUS_200} \<and> (v_data_check e \<longrightarrow> length (replies (fst v)) = 2))"

definition turn_ok :: "('c, 'h) verify_env \<Rightarrow> verify_turn \<Rightarrow> (('c, 'h) verify, ('c, 'h) verdict) ctl option \<Rightarrow> bool" where
  "turn_ok e t m = (case m of None \<Rightarrow> True | Some c \<Rightarrow> ctl_all (v_inv e) (v_post e t) c)"

lemma turn_ok_simps [simp]:
  "turn_ok e t None" "turn_ok e t (Some (Go s)) = v_inv e s" "turn_ok e t (Some (Stop r)) = v_post e t r"
  by (simp_all add: turn_ok_def)

lemma v_post_Inl [simp]: "v_post e t (s, Inl err)"
  by (simp add: v_post_def)

lemma v_inv_updates [simp]:
  "v_inv e (s\<lparr>v_conn := c\<rparr>) = v_inv e s" "v_inv e (s\<lparr>v_h3 := h\<rparr>) = v_inv e s"
  "v_inv e (s\<lparr>last_probe := n\<rparr>) = v_inv e s" "v_inv e (v_send_probe e s) = v_inv e s"
  "v_inv e (s\<lparr>v_sent := u\<rparr>) = v_inv e s" "v_inv e (s\<lparr>v_stream := sid\<rparr>) = v_inv e s"
  by (simp_all add: v_inv_def v_send_probe_def)

lemma turn_ok_chain: "turn_ok e t m \<Longrightarrow> (\<And>s. v_inv e s \<Longrightarrow> turn_ok e t (f s)) \<Longrightarrow> turn_ok e t (chain m f)"
  by (auto simp: chain_def split: option.split ctl.split)

lemma check_headers_ok: "v_inv e s \<Longrightarrow> ctl_all (v_inv e) (v_post e t) (check_headers e t hs s)"
proof (induction hs arbitrary: s)
  case (Cons h hs)
  obtain name val where h: "h = (name, val)" by fastforce
  have hit: "v_inv e (s\<lparr>statuses := statuses s @ [STATUS_200], connect_ip_ok := True\<rparr>)"
    using Cons.prems by (auto simp: v_inv_def)
  have "ctl_all (v_inv e) (v_post e t) (check_headers e t hs
      ((v_send_probe e (s\<lparr>statuses := statuses s @ [STATUS_200], connect_ip_ok := True\<rparr>))\<lparr>last_probe := v_now t\<rparr>))"
    by (rule Cons.IH) (simp add: hit)
  moreover have "v_post e t (s\<lparr>statuses := statuses s @ [STATUS_200]\<rparr>, Inr (v_elapsed e t))" if "\<not> v_data_check e"
    using Cons.prems that by (auto simp: v_post_def v_inv_def)
  ultimately show ?case using Cons
    by (auto simp: h Let_def STATUS_200_def [symmetric])
qed simp

lemma v_poll_ok:
  assumes "v_poll e t sid h s = Some r" "v_inv e s"
  shows "ctl_all (v_inv e) (v_post e t) r"
proof -
  let ?P = "\<lambda>e t sid h s r. v_inv e s \<longrightarrow> ctl_all (v_inv e) (v_post e t) r"
  have "?P e t sid h s r"
  proof (rule v_poll.raw_induct [OF _ assms(1), where P = ?P])
    fix poll :: "('a, 'b) verify_env \<Rightarrow> verify_turn \<Rightarrow> u64 \<Rightarrow> 'b \<Rightarrow> ('a, 'b) verify \<Rightarrow> (('a, 'b) verify, ('a, 'b) verdict) ctl option"
      and e t sid h s r
    assume IH: "\<And>e t sid h s r. poll e t sid h s = Some r \<Longrightarrow> v_inv e s \<longrightarrow> ctl_all (v_inv e) (v_post e t) r"
      and body: "(case q_poll (v_quic e) (v_conn s) h of
        ((c, h), PollDone) \<Rightarrow> Some (Go (s\<lparr>v_conn := c, v_h3 := Some h\<rparr>))
      | ((c, h), PollErr err) \<Rightarrow> Some (Stop (s\<lparr>v_conn := c, v_h3 := Some h\<rparr>, Inl (H3 err)))
      | ((c, h), PollEvent ev) \<Rightarrow>
          (case (if (case ev of Headers stream_id hs \<Rightarrow> stream_id = sid | _ \<Rightarrow> False)
                 then check_headers e t (case ev of Headers _ hs \<Rightarrow> hs | _ \<Rightarrow> []) (s\<lparr>v_conn := c, v_h3 := Some h\<rparr>)
                 else Go (s\<lparr>v_conn := c, v_h3 := Some h\<rparr>)) of
             Go s \<Rightarrow> poll e t sid h s
           | Stop r \<Rightarrow> Some (Stop r))) = Some r"
    show "v_inv e s \<longrightarrow> ctl_all (v_inv e) (v_post e t) r"
    proof
      assume s: "v_inv e s"
      obtain c h' p where q: "q_poll (v_quic e) (v_conn s) h = ((c, h'), p)" by (metis prod.collapse)
      show "ctl_all (v_inv e) (v_post e t) r"
      proof (cases p)
        case (PollEvent ev)
        define m where "m = (if (case ev of Headers stream_id hs \<Rightarrow> stream_id = sid | _ \<Rightarrow> False)
            then check_headers e t (case ev of Headers _ hs \<Rightarrow> hs | _ \<Rightarrow> []) (s\<lparr>v_conn := c, v_h3 := Some h'\<rparr>)
            else Go (s\<lparr>v_conn := c, v_h3 := Some h'\<rparr>))"
        have "ctl_all (v_inv e) (v_post e t) m" unfolding m_def using s by (auto intro!: check_headers_ok)
        moreover have "(case m of Go s \<Rightarrow> poll e t sid h' s | Stop r \<Rightarrow> Some (Stop r)) = Some r"
          using body unfolding m_def by (simp add: q PollEvent)
        ultimately show ?thesis using IH by (cases m) auto
      qed (use body s in \<open>auto simp: q\<close>)
    qed
  qed
  then show ?thesis using assms(2) by blast
qed

lemma v_poll_turn_ok: "v_inv e s \<Longrightarrow> turn_ok e t (v_poll_turn e t s)"
  using v_poll_ok by (fastforce simp: v_poll_turn_def turn_ok_def split: option.split)

lemma v_drain_ok:
  assumes "v_drain e t sid s = Some r" "v_inv e s" "connect_ip_ok s"
  shows "ctl_all (v_inv e) (v_post e t) r"
proof -
  let ?P = "\<lambda>e t sid s r. v_inv e s \<longrightarrow> connect_ip_ok s \<longrightarrow> ctl_all (v_inv e) (v_post e t) r"
  have "?P e t sid s r"
  proof (rule v_drain.raw_induct [OF _ assms(1), where P = ?P])
    fix drain :: "('a, 'b) verify_env \<Rightarrow> verify_turn \<Rightarrow> u64 \<Rightarrow> ('a, 'b) verify \<Rightarrow> (('a, 'b) verify, ('a, 'b) verdict) ctl option"
      and e t sid s r
    assume IH: "\<And>e t sid s r. drain e t sid s = Some r \<Longrightarrow> v_inv e s \<longrightarrow> connect_ip_ok s \<longrightarrow> ctl_all (v_inv e) (v_post e t) r"
      and body: "(case q_dgram_recv (v_quic e) (v_conn s) of
        (c, DgramOk d) \<Rightarrow>
          (case decode_ip_datagram (v_octs e) d sid of
             Inr (Some p) \<Rightarrow>
               (let s = s\<lparr>v_conn := c, probe_successes := probe_successes s + 1, replies := replies s @ [p]\<rparr> in
                if DATA_PROBE_REQUIRED_SUCCESSES \<le> probe_successes s then Some (Stop (s, Inr (v_elapsed e t)))
                else drain e t sid ((v_send_probe e s)\<lparr>last_probe := v_now t\<rparr>))
           | _ \<Rightarrow> drain e t sid (s\<lparr>v_conn := c\<rparr>))
      | (c, _) \<Rightarrow> Some (Go (s\<lparr>v_conn := c\<rparr>))) = Some r"
    show "v_inv e s \<longrightarrow> connect_ip_ok s \<longrightarrow> ctl_all (v_inv e) (v_post e t) r"
    proof (intro impI)
      assume s: "v_inv e s" "connect_ip_ok s"
      obtain c d where q: "q_dgram_recv (v_quic e) (v_conn s) = (c, d)" by fastforce
      show "ctl_all (v_inv e) (v_post e t) r"
      proof (cases "\<exists>b p. d = DgramOk b \<and> decode_ip_datagram (v_octs e) b sid = Inr (Some p)")
        case True
        then obtain b p where d: "d = DgramOk b" "decode_ip_datagram (v_octs e) b sid = Inr (Some p)" by blast
        define s1 where "s1 = s\<lparr>v_conn := c, probe_successes := probe_successes s + 1, replies := replies s @ [p]\<rparr>"
        have run: "(if 2 \<le> probe_successes s1 then Some (Stop (s1, Inr (v_elapsed e t)))
            else drain e t sid ((v_send_probe e s1)\<lparr>last_probe := v_now t\<rparr>)) = Some r"
          using body by (simp add: q d s1_def Let_def DATA_PROBE_REQUIRED_SUCCESSES_def split: if_splits)
        have "probe_successes s1 < 2 \<Longrightarrow> v_inv e s1" "connect_ip_ok s1"
          and "2 \<le> probe_successes s1 \<Longrightarrow> v_post e t (s1, Inr (v_elapsed e t))"
          using s by (auto simp: v_inv_def v_post_def s1_def)
        then show ?thesis using run IH [of e t sid "(v_send_probe e s1)\<lparr>last_probe := v_now t\<rparr>" r]
          by (auto simp: v_send_probe_def split: if_splits)
      next
        case False
        then have "drain e t sid (s\<lparr>v_conn := c\<rparr>) = Some r \<or> r = Go (s\<lparr>v_conn := c\<rparr>)"
          using body by (auto simp: q split: dgram.splits sum.splits option.splits)
        then show ?thesis using IH [of e t sid "s\<lparr>v_conn := c\<rparr>" r] s by auto
      qed
    qed
  qed
  then show ?thesis using assms(2, 3) by blast
qed

lemma v_data_turn_ok: "v_inv e s \<Longrightarrow> turn_ok e t (v_data_turn e t s)"
proof -
  assume s: "v_inv e s"
  have s1: "v_inv e (v_resend e t s)" "connect_ip_ok (v_resend e t s) = connect_ip_ok s"
    using s by (auto simp: v_resend_def v_send_probe_def v_inv_def)
  then show ?thesis using s v_drain_ok [OF _ s1(1)]
    by (auto simp: v_data_turn_def Let_def turn_ok_def split: option.split)
qed

lemma v_flush_turn_ok: "v_inv e s \<Longrightarrow> turn_ok e t (v_flush_turn e s)"
  by (auto simp: v_flush_turn_def Let_def turn_ok_def split: option.split sum.split)

lemma v_work_ok: "v_inv e s \<Longrightarrow> turn_ok e t (v_work e t s)"
proof -
  assume s: "v_inv e s"
  obtain s1 r where req: "v_request e s = (s1, r)" by fastforce
  then have "v_inv e s1" using s by (auto simp: v_request_def split: if_splits prod.splits sum.splits)
  then show ?thesis
    by (cases r) (simp_all add: v_work_def req turn_ok_chain v_poll_turn_ok v_data_turn_ok v_flush_turn_ok)
qed

lemma verify_step_ok:
  assumes "v_inv e s"
  shows "ctl_all (v_inv e) (\<lambda>r. \<forall>v. r = Some v \<longrightarrow> v_post e t v) (verify_masque_step e t s)"
proof -
  have work: "turn_ok e t (v_work e t (s\<lparr>v_conn := c\<rparr>))" for c
    by (rule v_work_ok) (simp add: assms)
  have fin: "ctl_all (v_inv e) (\<lambda>r. \<forall>v. r = Some v \<longrightarrow> v_post e t v)
      (case m of None \<Rightarrow> Stop None | Some (Go s) \<Rightarrow> Go s | Some (Stop r) \<Rightarrow> Stop (Some r))" if "turn_ok e t m" for m
    using that by (auto simp: turn_ok_def split: option.split ctl.split)
  consider (none) "v_arrival t = None" | (err) x where "v_arrival t = Some (Inl x)" | (data) d where "v_arrival t = Some (Inr d)"
    by (metis old.sum.exhaust option.exhaust)
  then show ?thesis
    unfolding verify_masque_step_def Let_def
    by cases (simp_all add: fin [OF work] del: split_paired_All)
qed

interpretation vm: event_loop "verify_masque_step e" "v_inv e" "\<lambda>r. \<forall>v. r = Some v \<longrightarrow> (\<exists>t. v_post e t v)" "\<lambda>_. True" for e
proof
  fix t and s s' :: "('a, 'b) verify" and r
  assume "v_inv e s"
  note ok = verify_step_ok [OF this, of t]
  show "verify_masque_step e t s = Go s' \<Longrightarrow> v_inv e s'" using ok by simp
  show "verify_masque_step e t s = Stop r \<Longrightarrow> \<forall>v. r = Some v \<longrightarrow> (\<exists>t. v_post e t v)" using ok by auto
qed

subsection \<open>The check returns\<close>

context quiche_queues
begin

lemma send_framed_queues:
  "dgrams (send_framed oc q sid p c) \<le> dgrams c" "events (send_framed oc q sid p c) h \<le> events c h"
  by (auto simp: send_framed_def dgram_queued split: option.split sum.split)

lemma check_headers_events:
  "v_quic e = q \<Longrightarrow> check_headers e t hs s = Go s' \<Longrightarrow> events (v_conn s') h \<le> events (v_conn s) h"
proof (induction hs arbitrary: s)
  case (Cons hd hs)
  obtain name val where hd: "hd = (name, val)" by fastforce
  define s1 where "s1 = (v_send_probe e (s\<lparr>statuses := statuses s @ [val], connect_ip_ok := True\<rparr>))\<lparr>last_probe := v_now t\<rparr>"
  have "events (v_conn s1) h \<le> events (v_conn s) h"
    using send_framed_queues(2) by (simp add: s1_def v_send_probe_def Cons.prems(1))
  moreover have "check_headers e t hs s = Go s' \<or> check_headers e t hs s1 = Go s'"
    using Cons.prems(2) by (auto simp: hd s1_def Let_def split: if_splits)
  ultimately show ?case using Cons.IH [OF Cons.prems(1)] order_trans by blast
qed simp

lemma v_poll_ends: "v_quic e = q \<Longrightarrow> v_poll e t sid h s \<noteq> None"
proof (induction "events (v_conn s) h" arbitrary: s h rule: less_induct)
  case less
  obtain c h' p where qp: "q_poll q (v_conn s) h = ((c, h'), p)" by (metis prod.collapse)
  show ?case
  proof (cases p)
    case (PollEvent ev)
    define m where "m = (if (case ev of Headers stream_id hs \<Rightarrow> stream_id = sid | _ \<Rightarrow> False)
        then check_headers e t (case ev of Headers _ hs \<Rightarrow> hs | _ \<Rightarrow> []) (s\<lparr>v_conn := c, v_h3 := Some h'\<rparr>)
        else Go (s\<lparr>v_conn := c, v_h3 := Some h'\<rparr>))"
    have lt: "events c h' < events (v_conn s) h" using event_taken qp PollEvent by blast
    have IH: "v_poll e t sid h' s' \<noteq> None" if "m = Go s'" for s'
    proof (rule less.hyps [OF _ less.prems])
      have "events (v_conn s') h' \<le> events c h'"
        using that check_headers_events [OF less.prems, of t _ "s\<lparr>v_conn := c, v_h3 := Some h'\<rparr>" s' h']
        by (auto simp: m_def split: if_splits)
      then show "events (v_conn s') h' < events (v_conn s) h" using lt by simp
    qed
    have "v_poll e t sid h s = (case m of Go s \<Rightarrow> v_poll e t sid h' s | Stop r \<Rightarrow> Some (Stop r))"
      by (subst v_poll.simps) (simp add: less.prems qp PollEvent m_def)
    then show ?thesis using IH by (cases m) (simp_all del: not_None_eq)
  qed (subst v_poll.simps, simp add: less.prems qp)+
qed

lemma v_drain_ends: "v_quic e = q \<Longrightarrow> v_drain e t sid s \<noteq> None"
proof (induction "dgrams (v_conn s)" arbitrary: s rule: less_induct)
  case less
  obtain c r where qd: "q_dgram_recv q (v_conn s) = (c, r)" by fastforce
  show ?case
  proof (cases r)
    case (DgramOk d)
    then have lt: "dgrams c < dgrams (v_conn s)" using dgram_taken qd by blast
    then have IH: "v_drain e t sid u \<noteq> None" if "dgrams (v_conn u) \<le> dgrams c" for u
      using less.hyps [OF _ less.prems, of u] that by simp
    show ?thesis
    proof (cases "\<exists>p. decode_ip_datagram (v_octs e) d sid = Inr (Some p)")
      case True
      then obtain p where p: "decode_ip_datagram (v_octs e) d sid = Inr (Some p)" ..
      define u where "u = (v_send_probe e (s\<lparr>v_conn := c, probe_successes := probe_successes s + 1,
          replies := replies s @ [p]\<rparr>))\<lparr>last_probe := v_now t\<rparr>"
      have "dgrams (v_conn u) \<le> dgrams c"
        using send_framed_queues(1) by (simp add: u_def v_send_probe_def less.prems)
      then have "v_drain e t sid u \<noteq> None" by (rule IH)
      then show ?thesis
        by (subst v_drain.simps) (simp add: less.prems qd DgramOk p Let_def u_def del: not_None_eq)
    next
      case False
      have "v_drain e t sid (s\<lparr>v_conn := c\<rparr>) \<noteq> None" by (rule IH) simp
      then show ?thesis using False
        by (subst v_drain.simps) (simp add: less.prems qd DgramOk del: not_None_eq split: sum.split option.split)
    qed
  qed (subst v_drain.simps, simp add: less.prems qd)+
qed

lemma flush_connected_ends: "v_quic e = q \<Longrightarrow> flush_connected e c u \<noteq> None"
proof (induction "packets c" arbitrary: c u rule: less_induct)
  case less
  obtain c' r where qs: "q_send q c = (c', r)" by fastforce
  show ?case
  proof (cases r)
    case (Packet d src dst)
    then have "packets c' < packets c" using packet_taken qs by blast
    then have "flush_connected e c' i \<noteq> None" for i using less by blast
    then show ?thesis
      by (subst flush_connected.simps) (simp add: less.prems qs Packet del: not_None_eq split: option.split)
  qed (subst flush_connected.simps, simp add: less.prems qs)+
qed

lemma verify_step_ends: "v_quic e = q \<Longrightarrow> verify_masque_step e t s \<noteq> Stop None"
proof -
  assume e: "v_quic e = q"
  have chain: "m \<noteq> None \<Longrightarrow> (\<And>s. f s \<noteq> None) \<Longrightarrow> chain m f \<noteq> None"
    for m :: "(('c, 'h) verify, ('c, 'h) verdict) ctl option" and f
    by (auto simp: chain_def simp del: not_None_eq split: option.split ctl.split)
  have "v_poll_turn e t s \<noteq> None" for s
    using v_poll_ends [OF e] by (auto simp: v_poll_turn_def simp del: not_None_eq split: option.split)
  moreover have "v_data_turn e t s \<noteq> None" for s
    using v_drain_ends [OF e] by (auto simp: v_data_turn_def Let_def simp del: not_None_eq split: option.split)
  moreover have "v_flush_turn e s \<noteq> None" for s
    using flush_connected_ends [OF e] by (simp add: v_flush_turn_def del: not_None_eq)
  ultimately have "chain (v_poll_turn e t s) (\<lambda>s. chain (v_data_turn e t s) (v_flush_turn e)) \<noteq> None" for s
    by (intro chain)
  then have w: "v_work e t s \<noteq> None" for s
    by (simp add: v_work_def del: not_None_eq split: prod.split sum.split)
  have "(case v_work e t s of None \<Rightarrow> Stop None | Some (Go s) \<Rightarrow> Go s | Some (Stop r) \<Rightarrow> Stop (Some r)) \<noteq> Stop None" for s
    using w [of s] by (auto split: ctl.splits)
  then show ?thesis
    by (simp add: verify_masque_step_def Let_def split: option.split sum.split)
qed

end

subsection \<open>A sample gateway\<close>

definition sample_gateway :: "(script, unit) verify_env" where
  "sample_gateway =
     \<lparr>v_quic = script_ops (idle\<lparr>st_established := False\<rparr>,
        [idle\<lparr>st_events := [(Headers 0 [(text_bytes '':status'', text_bytes ''200'')], [])]\<rparr>,
         idle\<lparr>st_dgrams := [[0, 0, 0x45], [0, 0, 0x60]]\<rparr>]),
      v_on_timeout = id, v_octs = rfc_octets, v_send_fails = (\<lambda>_. None), v_vars = (\<lambda>_. None),
      v_peer = SockAddr (IpV4 1) 443, v_local = SockAddr (IpV4 2) 1000, v_sni = default_sni,
      v_authority = default_authority, v_path = default_path, v_ech_config = None,
      v_noize = noize_off, v_hex = (\<lambda>_. None), v_gen = (\<lambda>_. 0), v_draws = 0, v_probe = [0x45],
      v_start = 100, v_timeout = 5000\<rparr>"

definition gateway_turns :: "verify_turn list" where
  "gateway_turns =
     [\<lparr>v_top = 100, v_now = 150, v_arrival = Some (Inr [1])\<rparr>,
      \<lparr>v_top = 160, v_now = 230, v_arrival = Some (Inr [2])\<rparr>]"

lemma sample_gateway_fields:
  "v_quic sample_gateway = script_ops (idle\<lparr>st_established := False\<rparr>,
     [idle\<lparr>st_events := [(Headers 0 [(text_bytes '':status'', text_bytes ''200'')], [])]\<rparr>,
      idle\<lparr>st_dgrams := [[0, 0, 0x45], [0, 0, 0x60]]\<rparr>])"
  "v_octs sample_gateway = rfc_octets" "v_send_fails sample_gateway = (\<lambda>_. None)" "v_data_check sample_gateway"
  "v_start sample_gateway = 100" "v_timeout sample_gateway = 5000" "v_ech_config sample_gateway = None"
  "v_probe sample_gateway = [0x45]"
  "pre_handshake (v_hex sample_gateway) (v_gen sample_gateway) (v_noize sample_gateway) = State_Monad.return []"
  by (simp_all add: sample_gateway_def v_data_check_def data_check_enabled_def pre_handshake_def noize_off_def
      noize_enabled_def)

lemma script_dgram_sent: "q_dgram_send (script_ops i) d c = c"
  by (simp add: script_ops_def)

lemma script_probe: "v_quic e = script_ops i \<Longrightarrow> v_send_probe e s = s"
  by (simp add: v_send_probe_def send_framed_def script_dgram_sent split: option.split sum.split)

lemma script_flush_connected:
  "v_quic e = script_ops i \<Longrightarrow> st_packets (fst c) = [] \<Longrightarrow> flush_connected e c u = Some ((c, u), Inr ())"
  by (subst flush_connected.simps) (simp add: script_ops_def script_send_def)

lemma script_v_poll:
  assumes "v_quic e = script_ops i"
  shows "st_events (fst (v_conn s)) = [] \<Longrightarrow> v_poll e t sid h s = Some (Go (s\<lparr>v_h3 := Some h\<rparr>))"
    and "st_events (fst (v_conn s)) = [(Headers sid hs, [])] \<Longrightarrow>
      v_poll e t sid () s =
        (case check_headers e t hs (s\<lparr>v_conn := ((fst (v_conn s))\<lparr>st_events := [], st_body := []\<rparr>, snd (v_conn s)), v_h3 := Some h\<rparr>) of
           Go s \<Rightarrow> v_poll e t sid () s | Stop r \<Rightarrow> Some (Stop r))"
  by (subst v_poll.simps, simp add: assms script_ops_def script_poll_def)+

lemma script_v_drain:
  assumes "v_quic e = script_ops i"
  shows "st_dgrams (fst (v_conn s)) = [] \<Longrightarrow> v_drain e t sid s = Some (Go s)"
    and "st_dgrams (fst (v_conn s)) = d # ds \<Longrightarrow> decode_ip_datagram (v_octs e) d sid = Inr (Some p) \<Longrightarrow>
      v_drain e t sid s =
        (let s = s\<lparr>v_conn := ((fst (v_conn s))\<lparr>st_dgrams := ds\<rparr>, snd (v_conn s)),
                   probe_successes := probe_successes s + 1, replies := replies s @ [p]\<rparr> in
         if 2 \<le> probe_successes s then Some (Stop (s, Inr (v_elapsed e t)))
         else v_drain e t sid (s\<lparr>last_probe := v_now t\<rparr>))"
  by (subst v_drain.simps, simp add: assms script_ops_def script_dgram_def script_probe [OF assms]
      DATA_PROBE_REQUIRED_SUCCESSES_def Let_def)+

definition gateway_state :: "script \<Rightarrow> (script, unit) verify" where
  "gateway_state c = \<lparr>v_conn = c, v_h3 = Some (), v_stream = Some 0, connect_ip_ok = True, last_probe = 150,
     probe_successes = 0, v_sent = [], v_decoys = [], statuses = [text_bytes ''200''], replies = []\<rparr>"

lemma gateway_first:
  "v_conn s = (idle\<lparr>st_events := [(Headers 0 [(text_bytes '':status'', text_bytes ''200'')], [])]\<rparr>, cs) \<Longrightarrow>
   v_poll sample_gateway t 0 () s =
   Some (Go (s\<lparr>v_conn := (idle, cs), v_h3 := Some (), connect_ip_ok := True, last_probe := v_now t,
                statuses := statuses s @ [text_bytes ''200'']\<rparr>))"
  using script_v_poll(2) [OF sample_gateway_fields(1), of s 0 "[(text_bytes '':status'', text_bytes ''200'')]" t]
  by (simp add: script_v_poll(1) [OF sample_gateway_fields(1)] sample_gateway_fields
      script_probe [OF sample_gateway_fields(1)] idle_def)

lemma idle_fields:
  "st_established idle" "\<not> st_closed idle" "st_dgrams idle = []" "st_packets idle = []" "st_events idle = []"
  by (simp_all add: idle_def)

lemma idle_drained: "idle\<lparr>st_dgrams := []\<rparr> = idle"
  by (simp add: idle_def)

lemma sample_gateway_verified:
  "verify_masque sample_gateway (Inr ()) None [] gateway_turns =
     Stop (Some (Some \<lparr>v_conn = (idle, []), v_h3 = Some (), v_stream = Some 0, connect_ip_ok = True,
       last_probe = 230, probe_successes = 2, v_sent = [], v_decoys = [], statuses = [text_bytes ''200''],
       replies = [[0x45], [0x60]]\<rparr>, Inr 130))"
proof -
  note fields = sample_gateway_fields script_connect script_flush_connected [OF sample_gateway_fields(1)]
    gateway_first script_v_poll(1) [OF sample_gateway_fields(1)] script_v_drain [OF sample_gateway_fields(1)]
    script_probe [OF sample_gateway_fields(1)]
  show ?thesis
    by (simp add: verify_masque_def fields verify_masque_init_def gateway_turns_def verify_masque_step_def
        v_work_def v_request_def v_poll_turn_def v_data_turn_def v_flush_turn_def chain_def v_resend_def
        v_elapsed_def script_recv_def sample_decode idle_fields idle_drained Let_def)
qed

subsection \<open>Properties\<close>

text \<open>C2. A gateway passes the check only if it answered the CONNECT-IP request with status 200,
  and never with another, and, unless the data check is switched off, exactly two IP packets came
  back through the tunnel; it passes in a turn that started before the deadline, with the time
  since the start as its round-trip time.\<close>

theorem verify_masque_sound:
  assumes "verify_masque e config h3_config scid turns = Stop (Some (Some s, Inr d))"
  shows "statuses s \<noteq> [] \<and> set (statuses s) = {text_bytes ''200''}
    \<and> (v_data_check e \<longrightarrow> length (replies s) = 2)
    \<and> (\<exists>t \<in> set turns. v_top t < v_start e + v_timeout e \<and> d = v_now t - v_start e)"
proof -
  obtain c sent where run: "run_loop (verify_masque_step e) turns ((verify_masque_init e c)\<lparr>v_sent := sent\<rparr>) = Stop (Some (s, Inr d))"
    using assms by (auto simp: verify_masque_def Let_def split: sum.splits option.splits prod.splits ctl.splits)
  have "v_inv e ((verify_masque_init e c)\<lparr>v_sent := sent\<rparr>)"
    by (simp add: v_inv_def verify_masque_init_def)
  then obtain t s' where t: "t \<in> set turns" "v_inv e s'" "verify_masque_step e t s' = Stop (Some (s, Inr d))"
    using vm.run_Stop_at [OF _ _ run] by blast
  then have "v_post e t (s, Inr d)" using verify_step_ok [OF t(2), of t] by simp
  moreover have "v_top t < v_start e + v_timeout e"
    using t(3) by (auto simp: verify_masque_step_def split: if_splits)
  ultimately show ?thesis using t(1)
    by (auto simp: v_post_def v_elapsed_def STATUS_200_def dest: subset_singletonD)
qed

theorem verify_masque_sound_witness:
  "\<exists>t \<in> set gateway_turns. v_top t < 5100 \<and> 130 = v_now t - 100"
  using verify_masque_sound [OF sample_gateway_verified] by (simp add: sample_gateway_fields)



end
