(* ===== verification/H2_Tunnel.thy ===== *)
theory H2_Tunnel
  imports Quic_Tunnel
begin

section \<open>The HTTP/2 tunnel (masque_h2.rs)\<close>

text \<open>
  CONNECT-IP over one HTTP/2 stream: IP packets travel as DATAGRAM capsules in the bodies of the
  request and of the response. The h2, tokio-boring and http crates are parameters: setting up
  the stream is the list of outcomes of its calls, and the send half of the stream is a record
  of calls on a state of any type. As in \<open>Quic_Tunnel\<close>, \<open>None\<close> is a turn that never ends or
  panics.
\<close>

subsection \<open>Settings\<close>

definition H2_ALPN :: bytes where "H2_ALPN = 2 # text_bytes ''h2''"

definition env_secs :: "(str \<Rightarrow> str option) \<Rightarrow> str \<Rightarrow> nat \<Rightarrow> nat" where
  "env_secs env var dflt =
     1000 * (case env var of
        None \<Rightarrow> dflt
      | Some v \<Rightarrow> (case parse_uint 64 v of None \<Rightarrow> dflt | Some n \<Rightarrow> if 0 < n then n else dflt))"

definition h2_data_check_enabled :: "(str \<Rightarrow> str option) \<Rightarrow> bool" where
  "h2_data_check_enabled env \<longleftrightarrow> env ''AETHER_MASQUE_NO_DATA_CHECK'' = None"

definition h2_validation_timeout :: "(str \<Rightarrow> str option) \<Rightarrow> nat" where
  "h2_validation_timeout env = env_secs env ''AETHER_MASQUE_VALIDATE_SECS'' 10"

definition H2_DATA_PROBE_REQUIRED_SUCCESSES :: nat where "H2_DATA_PROBE_REQUIRED_SUCCESSES = 2"

definition h2_keepalive_interval :: "(str \<Rightarrow> str option) \<Rightarrow> nat" where
  "h2_keepalive_interval env = env_secs env ''AETHER_MASQUE_H2_KEEPALIVE_SECS'' 15"

definition h2_keepalive_timeout :: "(str \<Rightarrow> str option) \<Rightarrow> nat" where
  "h2_keepalive_timeout env = env_secs env ''AETHER_MASQUE_H2_KEEPALIVE_TIMEOUT_SECS'' 20"

definition h2_enabled :: "(str \<Rightarrow> str option) \<Rightarrow> bool" where
  "h2_enabled env =
     (case env ''AETHER_MASQUE_HTTP2'' of
        None \<Rightarrow> False
      | Some v \<Rightarrow> to_lowercase (trim v) \<in> {''1'', ''true'', ''h2'', ''yes'', ''on''})"

definition h2_peer :: "(str \<Rightarrow> str option) \<Rightarrow> sock_addr \<Rightarrow> sock_addr" where
  "h2_peer env quic_peer =
     (case env ''AETHER_MASQUE_H2_PEER'' of
        None \<Rightarrow> quic_peer
      | Some v \<Rightarrow> (case parse_sock_addr (trim v) of None \<Rightarrow> quic_peer | Some addr \<Rightarrow> addr))"

text \<open>The request: its method, target and headers.\<close>

record h2_request =
  rq_method :: str
  rq_uri :: str
  rq_headers :: "(str \<times> str) list"

definition build_connect_request :: "str \<Rightarrow> h2_request" where
  "build_connect_request authority =
     \<lparr>rq_method = ''CONNECT'', rq_uri = ''https://'' @ authority @ '':443'',
      rq_headers = [(''cf-connect-proto'', CF_CONNECT_PROTOCOL), (''pq-enabled'', ''false''), (''user-agent'', '''')]\<rparr>"

definition h2_bytes_to_ip :: "u8 \<Rightarrow> bytes \<Rightarrow> ip_addr option" where
  "h2_bytes_to_ip version bs =
     (if version = 4 \<and> length bs = 4 then Some (IpV4 (of_be bs))
      else if version = 6 \<and> length bs = 16 then Some (IpV6 (of_be bs))
      else None)"

lemma h2_bytes_to_ip_eq: "h2_bytes_to_ip = bytes_to_ip"
  by (simp add: fun_eq_iff h2_bytes_to_ip_def bytes_to_ip_def)

lemma h2_settings_eq: "h2_data_check_enabled = data_check_enabled" "h2_validation_timeout = validation_timeout"
  by (simp_all add: fun_eq_iff h2_data_check_enabled_def data_check_enabled_def h2_validation_timeout_def
      validation_timeout_def env_secs_def)

text \<open>The TLS configuration of the stream: TLS 1.2 is allowed, neither the certificate nor the host name is checked.\<close>

record ('x, 'k) h2_tls =
  ht_min_version :: str
  ht_max_version :: str
  ht_groups :: str
  ht_alpn :: bytes
  ht_certificate :: 'x
  ht_private_key :: 'k
  ht_verify_peer :: bool
  ht_verify_hostname :: bool
  ht_send_sni :: bool

definition h2_build_tls :: "('x, 'k) boring \<Rightarrow> (str \<Rightarrow> str option) \<Rightarrow> bytes \<Rightarrow> bytes \<Rightarrow> ('x, 'k) h2_tls result" where
  "h2_build_tls b env cert_pem key_pem =
     or_err Tls (new_context b)
       (or_err Tls (set_min_proto_version b ''TLS1.2'')
       (or_err Tls (set_max_proto_version b ''TLS1.3'')
       (or_err Tls (set_curves_list b (tls_groups env))
       (or_err Tls (set_alpn_protos b H2_ALPN)
       (or_fail Tls (x509_from_pem b cert_pem) (\<lambda>cert.
        or_fail Tls (private_key_from_pem b key_pem) (\<lambda>key.
        or_err Tls (set_certificate b cert)
       (or_err Tls (set_private_key b cert key)
       (or_err Tls (with_context b)
       (Inr \<lparr>ht_min_version = ''TLS1.2'', ht_max_version = ''TLS1.3'', ht_groups = tls_groups env, ht_alpn = H2_ALPN,
          ht_certificate = cert, ht_private_key = key, ht_verify_peer = False, ht_verify_hostname = False,
          ht_send_sni = True\<rparr>))))))))))"

subsection \<open>Sending a capsule\<close>

datatype capacity = CapacityOk nat | CapacityErr str | CapacityClosed

record 's h2_stream =
  h2_reserve :: "nat \<Rightarrow> 's \<Rightarrow> 's"
  h2_capacity :: "'s \<Rightarrow> 's \<times> capacity"
  h2_send_data :: "bytes \<Rightarrow> bool \<Rightarrow> 's \<Rightarrow> 's \<times> str option"
  h2_send_ping :: "'s \<Rightarrow> 's \<times> str option"

partial_function (option) await_capacity :: "'s h2_stream \<Rightarrow> nat \<Rightarrow> 's \<Rightarrow> ('s \<times> unit result) option" where
  "await_capacity h len s =
     (case h2_capacity h s of
        (s, CapacityOk n) \<Rightarrow> if len \<le> n then Some (s, Inr ()) else await_capacity h len s
      | (s, CapacityErr e) \<Rightarrow> Some (s, Inl (aether_error.Masque (''h2 capacity: '' @ e)))
      | (s, CapacityClosed) \<Rightarrow> Some (s, Inl (aether_error.Masque ''h2 stream closed'')))"

definition send_capsule :: "'s h2_stream \<Rightarrow> bytes \<Rightarrow> 's \<Rightarrow> ('s \<times> unit result) option" where
  "send_capsule h data s =
     (let len = length data in
      if len = 0 then Some (s, Inr ())
      else
        (case await_capacity h len (h2_reserve h len s) of
           None \<Rightarrow> None
         | Some (s, Inl e) \<Rightarrow> Some (s, Inl e)
         | Some (s, Inr _) \<Rightarrow>
             (case h2_send_data h data False s of
                (s, Some e) \<Rightarrow> Some (s, Inl (aether_error.Masque (''h2 send_data: '' @ e)))
              | (s, None) \<Rightarrow> Some (s, Inr ()))))"

subsection \<open>Capsules of the response\<close>

text \<open>
  What the drained capsules deliver and offer, with whether a datagram was among them. The
  receiver of the packets may go away: then the capsules left stay in the parser.
\<close>

function h2_drain_fuel :: "nat \<Rightarrow> octets \<Rightarrow> (bytes list \<Rightarrow> bool) \<Rightarrow> capsule_parser \<Rightarrow> bytes list \<Rightarrow> (ip_addr \<times> u8) list
    \<Rightarrow> bool \<Rightarrow> capsule_parser \<times> bytes list \<times> (ip_addr \<times> u8) list \<times> bool" where
  "h2_drain_fuel 0 oc accepts p inb out got = (p, inb, out, got)"
| "h2_drain_fuel (Suc n) oc accepts p inb out got =
     (case parser_next oc p of
        (Inr (Some (Datagram pkt)), p) \<Rightarrow>
          if accepts inb then h2_drain_fuel n oc accepts p (inb @ [pkt]) out True else (p, inb, out, True)
      | (Inr (Some (AddressAssign as)), p) \<Rightarrow>
          h2_drain_fuel n oc accepts p inb
            (out @ concat (map (\<lambda>a. case h2_bytes_to_ip (ip_version a) (address a) of
                                      Some ip \<Rightarrow> [(ip, prefix_len a)] | None \<Rightarrow> []) as)) got
      | (Inr (Some _), p) \<Rightarrow> h2_drain_fuel n oc accepts p inb out got
      | (Inr None, p) \<Rightarrow> (p, inb, out, got)
      | (Inl _, p) \<Rightarrow> (p, inb, out, got))"
  by pat_completeness auto
termination by lexicographic_order

definition h2_drain_capsules :: "octets \<Rightarrow> (bytes list \<Rightarrow> bool) \<Rightarrow> capsule_parser \<Rightarrow> bytes list \<Rightarrow> (ip_addr \<times> u8) list
    \<Rightarrow> capsule_parser \<times> bytes list \<times> (ip_addr \<times> u8) list \<times> bool" where
  "h2_drain_capsules oc accepts p inb out = h2_drain_fuel (Suc (length (buf p))) oc accepts p inb out False"

subsection \<open>Setting up the stream\<close>

text \<open>The outcomes of the calls that set the stream up, in their order: errors, and the status of the response.\<close>

record h2_setup =
  su_tls :: "unit result"
  su_tcp :: "str option"
  su_tls_handshake :: "str option"
  su_h2_handshake :: "str option"
  su_ping :: bool
  su_ready :: "str option"
  su_request :: "str option"
  su_send_request :: "str option"
  su_response :: "str + nat"

text \<open>\<open>ping\<close>: the caller asks for the ping handle of the connection.\<close>

definition h2_connect :: "bool \<Rightarrow> h2_setup \<Rightarrow> unit result" where
  "h2_connect ping su =
     (case su_tls su of
        Inl e \<Rightarrow> Inl e
      | Inr _ \<Rightarrow>
          or_err Io (su_tcp su)
         (or_err (\<lambda>e. Tls (''h2 tls handshake: '' @ e)) (su_tls_handshake su)
         (or_err (\<lambda>e. aether_error.Masque (''h2 handshake: '' @ e)) (su_h2_handshake su)
         (if ping \<and> \<not> su_ping su then Inl (aether_error.Masque ''h2 connection does not support ping'')
          else
            or_err (\<lambda>e. aether_error.Masque (''h2 ready: '' @ e)) (su_ready su)
           (or_err (\<lambda>e. aether_error.Masque (''build request: '' @ e)) (su_request su)
           (or_err (\<lambda>e. aether_error.Masque (''send_request: '' @ e)) (su_send_request su)
           (or_fail (\<lambda>e. aether_error.Masque (''await response: '' @ e)) (su_response su) (\<lambda>status.
              if is_success status then Inr ()
              else Inl (aether_error.Masque (''h2 connect-ip status '' @ show_nat status))))))))))"

subsection \<open>The tunnel\<close>

record 's h2_env =
  hx_stream :: "'s h2_stream"
  hx_octs :: octets
  hx_accepts :: "bytes list \<Rightarrow> bool"
  hx_vars :: "str \<Rightarrow> str option"
  hx_probe :: bytes

text \<open>
  The local variables of \<open>run\<close> and its outputs: signals, packets for the client, addresses
  offered, and what was put on the stream, as packets and as data frames.
\<close>

record 's h2 =
  h2_st :: 's
  h2_parser :: capsule_parser
  h2_ready_tx :: bool
  h2_ready_fired :: bool
  h2_deadline :: "nat option"
  h2_successes :: nat
  awaiting_pong :: bool
  pong_deadline :: "nat option"
  h2_signals :: nat
  h2_delivered :: "bytes list"
  h2_offered :: "(ip_addr \<times> u8) list"
  h2_packets :: "bytes list"
  h2_data :: "bytes list"

text \<open>A turn: which branches are ready; when no other is, the body ends the wait.\<close>

record h2_turn =
  ht_top :: nat
  ht_now :: nat
  ht_keepalive :: bool
  ht_pong :: "str option option"
  ht_probe :: bool
  ht_ctrl :: "control option option"
  ht_client :: "bytes option option"
  ht_body :: "(str + bytes) option"

datatype h2_branch = H2Keepalive | H2Pong "str option" | H2Probe | H2Ctrl "control option" | H2Client "bytes option"
  | H2Body "(str + bytes) option"

type_synonym 's h2_outcome = "('s h2 \<times> unit result) option"

definition h2_probing :: "'s h2_env \<Rightarrow> 's h2 \<Rightarrow> bool" where
  "h2_probing e s \<longleftrightarrow> h2_data_check_enabled (hx_vars e) \<and> \<not> h2_ready_fired s"

definition h2_select :: "'s h2_env \<Rightarrow> 's h2 \<Rightarrow> h2_turn \<Rightarrow> h2_branch" where
  "h2_select e s t =
     (if h2_ready_fired s \<and> \<not> awaiting_pong s \<and> ht_keepalive t then H2Keepalive
      else if awaiting_pong s \<and> ht_pong t \<noteq> None then H2Pong (the (ht_pong t))
      else if h2_probing e s \<and> ht_probe t then H2Probe
      else case ht_ctrl t of
        Some ctrl \<Rightarrow> H2Ctrl ctrl
      | None \<Rightarrow> (case ht_client t of Some pkt \<Rightarrow> H2Client pkt | None \<Rightarrow> H2Body (ht_body t)))"

definition h2_send_packet :: "'s h2_env \<Rightarrow> bytes \<Rightarrow> 's h2 \<Rightarrow> 's h2_outcome" where
  "h2_send_packet e pkt s =
     (let framed = encode_datagram_capsule (hx_octs e) pkt in
      case send_capsule (hx_stream e) framed (h2_st s) of
        None \<Rightarrow> None
      | Some (st, Inl err) \<Rightarrow> Some (s\<lparr>h2_st := st\<rparr>, Inl err)
      | Some (st, Inr _) \<Rightarrow>
          Some (s\<lparr>h2_st := st, h2_packets := h2_packets s @ [pkt], h2_data := h2_data s @ [framed]\<rparr>, Inr ()))"

text \<open>A probe, whose error is only logged.\<close>

definition h2_send_probe :: "'s h2_env \<Rightarrow> 's h2 \<Rightarrow> ('s h2, 's h2_outcome) ctl" where
  "h2_send_probe e s = (case h2_send_packet e (hx_probe e) s of None \<Rightarrow> Stop None | Some (s, _) \<Rightarrow> Go s)"

definition end_stream :: "'s h2_env \<Rightarrow> 's h2 \<Rightarrow> 's h2" where
  "end_stream e s = s\<lparr>h2_st := fst (h2_send_data (hx_stream e) [] True (h2_st s))\<rparr>"

definition h2_fire_ready :: "'s h2 \<Rightarrow> 's h2" where
  "h2_fire_ready s =
     s\<lparr>h2_ready_fired := True, h2_ready_tx := False, h2_signals := h2_signals s + (if h2_ready_tx s then 1 else 0)\<rparr>"

definition h2_confirm :: "'s h2_env \<Rightarrow> 's h2 \<Rightarrow> ('s h2, 's h2_outcome) ctl" where
  "h2_confirm e s =
     (let s = s\<lparr>h2_successes := h2_successes s + 1\<rparr> in
      if H2_DATA_PROBE_REQUIRED_SUCCESSES \<le> h2_successes s then Go ((h2_fire_ready s)\<lparr>h2_deadline := None\<rparr>)
      else h2_send_probe e s)"

definition h2_chunk :: "'s h2_env \<Rightarrow> bytes \<Rightarrow> 's h2 \<Rightarrow> ('s h2, 's h2_outcome) ctl" where
  "h2_chunk e chunk s =
     (case h2_drain_capsules (hx_octs e) (hx_accepts e) (parser_push chunk (h2_parser s)) (h2_delivered s) (h2_offered s) of
        (p, inb, out, got_data) \<Rightarrow>
          (let s = s\<lparr>h2_parser := p, h2_delivered := inb, h2_offered := out\<rparr> in
           if got_data \<and> \<not> h2_ready_fired s then h2_confirm e s else Go s))"

definition h2_keepalive :: "'s h2_env \<Rightarrow> h2_turn \<Rightarrow> 's h2 \<Rightarrow> ('s h2, 's h2_outcome) ctl" where
  "h2_keepalive e t s =
     (case h2_send_ping (hx_stream e) (h2_st s) of
        (st, Some _) \<Rightarrow> Go (s\<lparr>h2_st := st\<rparr>)
      | (st, None) \<Rightarrow>
          (case instant_add (ht_now t) (h2_keepalive_timeout (hx_vars e)) of
             None \<Rightarrow> Stop None
           | Some dl \<Rightarrow> Go (s\<lparr>h2_st := st, awaiting_pong := True, pong_deadline := Some dl\<rparr>)))"

definition passed :: "nat option \<Rightarrow> nat \<Rightarrow> bool" where
  "passed dl now = (case dl of None \<Rightarrow> False | Some dl \<Rightarrow> dl \<le> now)"

definition h2_branch_step :: "'s h2_env \<Rightarrow> h2_turn \<Rightarrow> h2_branch \<Rightarrow> 's h2 \<Rightarrow> ('s h2, 's h2_outcome) ctl" where
  "h2_branch_step e t b s =
     (case b of
        H2Keepalive \<Rightarrow> h2_keepalive e t s
      | H2Pong None \<Rightarrow> Go (s\<lparr>awaiting_pong := False, pong_deadline := None\<rparr>)
      | H2Pong (Some err) \<Rightarrow> Stop (Some (end_stream e s, Inl (aether_error.Masque (''h2 keepalive: '' @ err))))
      | H2Probe \<Rightarrow> h2_send_probe e s
      | H2Ctrl (Some Migrate) \<Rightarrow> Go s
      | H2Ctrl _ \<Rightarrow> Stop (Some (end_stream e s, Inr ()))
      | H2Client (Some ip_packet) \<Rightarrow>
          (case h2_send_packet e ip_packet s of
             None \<Rightarrow> Stop None
           | Some (s, Inl err) \<Rightarrow> Stop (Some (s, Inl err))
           | Some (s, Inr _) \<Rightarrow> Go s)
      | H2Client None \<Rightarrow> Stop (Some (end_stream e s, Inr ()))
      | H2Body (Some (Inr chunk)) \<Rightarrow> h2_chunk e chunk s
      | H2Body (Some (Inl err)) \<Rightarrow> Stop (Some (s, Inl (aether_error.Masque (''h2 body: '' @ err))))
      | H2Body None \<Rightarrow> Stop (Some (s, Inr ())))"

definition h2_step :: "'s h2_env \<Rightarrow> h2_turn \<Rightarrow> 's h2 \<Rightarrow> ('s h2, 's h2_outcome) ctl" where
  "h2_step e t s =
     (if h2_probing e s \<and> passed (h2_deadline s) (ht_top t) then
        Stop (Some (end_stream e s,
          Inl (aether_error.Masque ''h2 data-plane validation timeout (handshake ok, no traffic)'')))
      else if passed (pong_deadline s) (ht_top t) then
        Stop (Some (end_stream e s, Inl (aether_error.Masque ''h2 keepalive timeout'')))
      else h2_branch_step e t (h2_select e s t) s)"

definition h2_init :: "'s \<Rightarrow> bool \<Rightarrow> 's h2" where
  "h2_init st ready =
     \<lparr>h2_st = st, h2_parser = parser_new, h2_ready_tx = ready, h2_ready_fired = False, h2_deadline = None,
      h2_successes = 0, awaiting_pong = False, pong_deadline = None, h2_signals = 0, h2_delivered = [],
      h2_offered = [], h2_packets = [], h2_data = []\<rparr>"

definition h2_begin :: "'s h2_env \<Rightarrow> nat \<Rightarrow> 's h2 \<Rightarrow> ('s h2, 's h2_outcome) ctl" where
  "h2_begin e now s =
     (if h2_data_check_enabled (hx_vars e) then
        (case h2_send_probe e s of
           Stop r \<Rightarrow> Stop r
         | Go s \<Rightarrow>
             (case instant_add now (h2_validation_timeout (hx_vars e)) of
                None \<Rightarrow> Stop None
              | Some dl \<Rightarrow> Go (s\<lparr>h2_deadline := Some dl\<rparr>)))
      else Go (h2_fire_ready s))"

definition h2_run :: "'s h2_env \<Rightarrow> h2_setup \<Rightarrow> 's \<Rightarrow> bool \<Rightarrow> nat \<Rightarrow> h2_turn list \<Rightarrow> ('s h2, 's h2_outcome) ctl" where
  "h2_run e su st ready now turns =
     (case h2_connect True su of
        Inl err \<Rightarrow> Stop (Some (h2_init st ready, Inl err))
      | Inr _ \<Rightarrow>
          (case h2_begin e now (h2_init st ready) of
             Stop r \<Rightarrow> Stop r
           | Go s \<Rightarrow> run_loop (h2_step e) turns s))"

subsection \<open>The check of a gateway over HTTP/2\<close>

record 's verify_h2 =
  vh_st :: 's
  vh_parser :: capsule_parser
  vh_successes :: nat

text \<open>What the attempt waits for: the body, or the timeout that cuts it off wherever it is.\<close>

datatype vh_event = VhBody "(str + bytes) option" | VhTimeout

definition VH_TIMEOUT :: "unit result" where "VH_TIMEOUT = Inl (Other ''h2 verify timeout'')"

text \<open>A send that never ends is cut off by the timeout.\<close>

definition vh_send :: "'s h2_env \<Rightarrow> 's verify_h2 \<Rightarrow> ('s verify_h2, unit result) ctl" where
  "vh_send e s =
     (case send_capsule (hx_stream e) (encode_datagram_capsule (hx_octs e) (hx_probe e)) (vh_st s) of
        None \<Rightarrow> Stop VH_TIMEOUT
      | Some (st, Inl err) \<Rightarrow> Stop (Inl err)
      | Some (st, Inr _) \<Rightarrow> Go (s\<lparr>vh_st := st\<rparr>))"

fun vh_drain_fuel :: "nat \<Rightarrow> 's h2_env \<Rightarrow> 's verify_h2 \<Rightarrow> ('s verify_h2, unit result) ctl" where
  "vh_drain_fuel 0 e s = Go s"
| "vh_drain_fuel (Suc n) e s =
     (case parser_next (hx_octs e) (vh_parser s) of
        (Inr (Some c), p) \<Rightarrow>
          (if \<exists>d. c = Datagram d then
             (let s = s\<lparr>vh_parser := p, vh_successes := vh_successes s + 1\<rparr> in
              if H2_DATA_PROBE_REQUIRED_SUCCESSES \<le> vh_successes s then Stop (Inr ())
              else (case vh_send e s of Stop r \<Rightarrow> Stop r | Go s \<Rightarrow> vh_drain_fuel n e s))
           else vh_drain_fuel n e (s\<lparr>vh_parser := p\<rparr>))
      | (_, p) \<Rightarrow> Go (s\<lparr>vh_parser := p\<rparr>))"

definition vh_drain :: "'s h2_env \<Rightarrow> 's verify_h2 \<Rightarrow> ('s verify_h2, unit result) ctl" where
  "vh_drain e s = vh_drain_fuel (Suc (length (buf (vh_parser s)))) e s"

definition vh_step :: "'s h2_env \<Rightarrow> vh_event \<Rightarrow> 's verify_h2 \<Rightarrow> ('s verify_h2, unit result) ctl" where
  "vh_step e ev s =
     (case ev of
        VhTimeout \<Rightarrow> Stop VH_TIMEOUT
      | VhBody (Some (Inr chunk)) \<Rightarrow> vh_drain e (s\<lparr>vh_parser := parser_push chunk (vh_parser s)\<rparr>)
      | VhBody (Some (Inl err)) \<Rightarrow> Stop (Inl (aether_error.Masque (''h2 body: '' @ err)))
      | VhBody None \<Rightarrow> Stop (Inl (aether_error.Masque ''h2 stream closed before data'')))"

text \<open>\<open>late\<close>: the timeout strikes while the stream is being set up.\<close>

definition verify_h2 :: "'s h2_env \<Rightarrow> bool \<Rightarrow> h2_setup \<Rightarrow> 's \<Rightarrow> vh_event list \<Rightarrow> ('s verify_h2, unit result) ctl" where
  "verify_h2 e late su st events =
     (if late then Stop VH_TIMEOUT
      else case h2_connect False su of
        Inl err \<Rightarrow> Stop (Inl err)
      | Inr _ \<Rightarrow>
          (if \<not> h2_data_check_enabled (hx_vars e) then Stop (Inr ())
           else
             (case vh_send e \<lparr>vh_st = st, vh_parser = parser_new, vh_successes = 0\<rparr> of
                Stop r \<Rightarrow> Stop r
              | Go s \<Rightarrow> run_loop (vh_step e) events s)))"

subsection \<open>Draining delivers what the capsules carry\<close>

definition payloads :: "capsule list \<Rightarrow> bytes list" where
  "payloads cs = concat (map (\<lambda>c. case c of Datagram d \<Rightarrow> [d] | _ \<Rightarrow> []) cs)"

lemma payloads_simps [simp]:
  "payloads [] = []" "payloads (c # cs) = (case c of Datagram d \<Rightarrow> [d] | _ \<Rightarrow> []) @ payloads cs"
  "payloads (as @ bs) = payloads as @ payloads bs"
  by (simp_all add: payloads_def)

lemma h2_drain_fuel_eq:
  "h2_drain_fuel n oc (\<lambda>_. True) p inb out got =
     (case drain_fuel n oc p of (cs, p') \<Rightarrow> (p', inb @ payloads cs, out @ offered_by cs, got \<or> payloads cs \<noteq> []))"
proof (induction n arbitrary: p inb out got)
  case (Suc n)
  obtain r p' where nx: "parser_next oc p = (r, p')" by fastforce
  show ?case
  proof (cases "\<exists>c. r = Inr (Some c)")
    case True
    then obtain c where r: "r = Inr (Some c)" ..
    obtain cs q where d: "drain_fuel n oc p' = (cs, q)" by fastforce
    show ?thesis using Suc.IH [of p'] unfolding h2_drain_fuel.simps nx r
      by (cases c) (simp_all add: nx r d h2_bytes_to_ip_eq capsule_addrs_def offered_by_def)
  next
    case False
    then show ?thesis unfolding h2_drain_fuel.simps nx
      by (cases r) (auto simp: nx split: option.split)
  qed
qed simp

lemma h2_drain_capsules_eq:
  "h2_drain_capsules oc (\<lambda>_. True) p inb out =
     (case drain oc p of (cs, p') \<Rightarrow> (p', inb @ payloads cs, out @ offered_by cs, payloads cs \<noteq> []))"
  by (simp add: h2_drain_capsules_def drain_def h2_drain_fuel_eq)

lemma h2_drain_fuel_grows:
  "h2_drain_fuel n oc accepts p inb out got = (p', inb', out', got') \<Longrightarrow>
     length inb \<le> length inb' \<and> ((\<forall>i. accepts i) \<and> got' \<and> \<not> got \<longrightarrow> length inb < length inb')"
proof (induction n arbitrary: p inb out got)
  case (Suc n)
  obtain r q where nx: "parser_next oc p = (r, q)" by fastforce
  show ?case
  proof (cases "\<exists>d. r = Inr (Some (Datagram d))")
    case True
    then obtain d where r: "r = Inr (Some (Datagram d))" ..
    show ?thesis
    proof (cases "accepts inb")
      case True
      then have "h2_drain_fuel n oc accepts q (inb @ [d]) out True = (p', inb', out', got')"
        using Suc.prems by (simp add: nx r)
      then show ?thesis using Suc.IH by fastforce
    qed (use Suc.prems in \<open>auto simp: nx r\<close>)
  next
    case False
    then have "(\<exists>o1. h2_drain_fuel n oc accepts q inb o1 got = (p', inb', out', got')) \<or> inb' = inb \<and> got' = got"
      using Suc.prems by (auto simp: nx split: sum.splits option.splits capsule.splits)
    then show ?thesis using Suc.IH [of q inb _ got] by auto
  qed
qed simp

text \<open>The chunks of a body, drained one after the other.\<close>

definition h2_take_chunk :: "octets \<Rightarrow> bytes \<Rightarrow> capsule_parser \<times> bytes list \<times> (ip_addr \<times> u8) list
    \<Rightarrow> capsule_parser \<times> bytes list \<times> (ip_addr \<times> u8) list" where
  "h2_take_chunk oc d st =
     (case st of (p, inb, out) \<Rightarrow>
        (case h2_drain_capsules oc (\<lambda>_. True) (parser_push d p) inb out of (p, inb, out, _) \<Rightarrow> (p, inb, out)))"

lemma fold_chunks:
  "fold (h2_take_chunk oc) ds (p, inb, out) =
     (case feed oc ds p of (cs, p') \<Rightarrow> (p', inb @ payloads cs, out @ offered_by cs))"
proof (induction ds arbitrary: p inb out)
  case (Cons d ds)
  obtain cs p' where d: "drain oc (parser_push d p) = (cs, p')" by fastforce
  have "h2_take_chunk oc d (p, inb, out) = (p', inb @ payloads cs, out @ offered_by cs)"
    by (simp add: h2_take_chunk_def h2_drain_capsules_eq d)
  then show ?case by (simp add: d Cons.IH split: prod.split)
qed simp

subsection \<open>What passes the check\<close>

lemma vh_send_keeps: "vh_send e s = Go s' \<Longrightarrow> vh_parser s' = vh_parser s \<and> vh_successes s' = vh_successes s"
  by (auto simp: vh_send_def split: option.splits prod.splits sum.splits)

lemma vh_send_fails: "vh_send e s = Stop r \<Longrightarrow> r \<noteq> Inr ()"
  by (auto simp: vh_send_def VH_TIMEOUT_def split: option.splits prod.splits sum.splits)

text \<open>One turn of the inner loop.\<close>

lemma vh_drain_fuel_Suc:
  assumes "parser_next (hx_octs e) (vh_parser s) = (r, p')"
  shows "vh_drain_fuel (Suc n) e s =
    (case r of
       Inr (Some (Datagram d)) \<Rightarrow>
         (if 1 \<le> vh_successes s then Stop (Inr ())
          else case vh_send e (s\<lparr>vh_parser := p', vh_successes := vh_successes s + 1\<rparr>) of
            Stop r \<Rightarrow> Stop r | Go s \<Rightarrow> vh_drain_fuel n e s)
     | Inr (Some c) \<Rightarrow> vh_drain_fuel n e (s\<lparr>vh_parser := p'\<rparr>)
     | _ \<Rightarrow> Go (s\<lparr>vh_parser := p'\<rparr>))"
  using assms
  by (auto simp: Let_def H2_DATA_PROBE_REQUIRED_SUCCESSES_def split: sum.split option.split capsule.split)

declare vh_drain_fuel.simps(2) [simp del]

lemma vh_drain_fuel_Go:
  "vh_drain_fuel n e s = Go s' \<Longrightarrow>
     vh_parser s' = snd (drain_fuel n (hx_octs e) (vh_parser s))
     \<and> vh_successes s' = vh_successes s + length (payloads (fst (drain_fuel n (hx_octs e) (vh_parser s))))"
proof (induction n arbitrary: s)
  case (Suc n)
  obtain r p' where nx: "parser_next (hx_octs e) (vh_parser s) = (r, p')" by fastforce
  obtain cs q where d: "drain_fuel n (hx_octs e) p' = (cs, q)" by fastforce
  have go: "vh_parser s' = q \<and> vh_successes s' = vh_successes s1 + length (payloads cs)"
    if "vh_drain_fuel n e s1 = Go s'" "vh_parser s1 = p'" for s1
    using Suc.IH [OF that(1)] that(2) d by simp
  show ?case
    using Suc.prems unfolding vh_drain_fuel_Suc [OF nx]
    by (auto simp: nx d split: sum.splits option.splits capsule.splits if_splits ctl.splits dest!: go vh_send_keeps)
qed simp

lemma vh_drain_fuel_Stop:
  "vh_drain_fuel n e s = Stop (Inr ()) \<Longrightarrow>
     2 \<le> vh_successes s + length (payloads (fst (drain_fuel n (hx_octs e) (vh_parser s))))"
proof (induction n arbitrary: s)
  case (Suc n)
  obtain r p' where nx: "parser_next (hx_octs e) (vh_parser s) = (r, p')" by fastforce
  obtain cs q where d: "drain_fuel n (hx_octs e) p' = (cs, q)" by fastforce
  have stop: "2 \<le> vh_successes s1 + length (payloads cs)"
    if "vh_drain_fuel n e s1 = Stop (Inr ())" "vh_parser s1 = p'" for s1
    using Suc.IH [OF that(1)] that(2) d by simp
  show ?case
    using Suc.prems vh_send_fails [of e] unfolding vh_drain_fuel_Suc [OF nx]
    by (auto simp: nx d split: sum.splits option.splits capsule.splits if_splits ctl.splits dest!: stop vh_send_keeps)
qed simp

text \<open>The chunks a run has seen.\<close>

fun chunks_of :: "vh_event list \<Rightarrow> bytes list" where
  "chunks_of (VhBody (Some (Inr chunk)) # evs) = chunk # chunks_of evs"
| "chunks_of _ = []"

lemma vh_run_confirms:
  "run_loop (vh_step e) evs s = Stop (Inr ()) \<Longrightarrow>
     2 \<le> vh_successes s + length (payloads (fst (feed (hx_octs e) (chunks_of evs) (vh_parser s))))"
proof (induction evs arbitrary: s)
  case (Cons ev evs)
  obtain chunk where ev: "ev = VhBody (Some (Inr chunk))"
    using Cons.prems by (auto simp: vh_step_def VH_TIMEOUT_def split: vh_event.splits option.splits sum.splits)
  define s1 where "s1 = s\<lparr>vh_parser := parser_push chunk (vh_parser s)\<rparr>"
  obtain cs p where d: "drain (hx_octs e) (parser_push chunk (vh_parser s)) = (cs, p)" by fastforce
  have step: "vh_step e ev s = vh_drain e s1" by (simp add: vh_step_def ev s1_def)
  show ?case
  proof (cases "vh_drain e s1")
    case (Go s2)
    then have "vh_parser s2 = p \<and> vh_successes s2 = vh_successes s + length (payloads cs)"
      using vh_drain_fuel_Go [of _ e s1 s2] d by (simp add: vh_drain_def drain_def s1_def)
    then show ?thesis using Cons.IH [of s2] Cons.prems Go step
      by (auto simp: ev d split: prod.split)
  next
    case (Stop r)
    then have "2 \<le> vh_successes s + length (payloads cs)"
      using Cons.prems step vh_drain_fuel_Stop [of "Suc (length (buf (vh_parser s1)))" e s1] d
      by (simp add: vh_drain_def drain_def s1_def del: drain_fuel.simps)
    then show ?thesis by (simp add: ev d split: prod.split)
  qed
qed simp
subsection \<open>The invariant of the tunnel\<close>

text \<open>
  \<open>b\<close>: somebody waits for the signal. What was put on the stream is the packets, each in a
  DATAGRAM capsule of its own.
\<close>

definition h2_inv :: "'s h2_env \<Rightarrow> bool \<Rightarrow> 's h2 \<Rightarrow> bool" where
  "h2_inv e b s \<longleftrightarrow>
     h2_data s = map (encode_datagram_capsule (hx_octs e)) (h2_packets s)
     \<and> h2_ready_tx s = (b \<and> \<not> h2_ready_fired s) \<and> h2_signals s = (if b \<and> h2_ready_fired s then 1 else 0)
     \<and> (h2_ready_fired s \<longrightarrow> h2_data_check_enabled (hx_vars e) \<longrightarrow> h2_successes s = 2)
     \<and> (\<not> h2_ready_fired s \<longrightarrow> h2_successes s < 2)
     \<and> ((\<forall>i. hx_accepts e i) \<longrightarrow> h2_successes s \<le> length (h2_delivered s))
     \<and> (pong_deadline s = None) = (\<not> awaiting_pong s)"

definition h2_every :: "'s h2_env \<Rightarrow> bool \<Rightarrow> 's h2_outcome \<Rightarrow> bool" where
  "h2_every e b m = (case m of None \<Rightarrow> True | Some (s, _) \<Rightarrow> h2_inv e b s)"

lemma h2_every_simps [simp]: "h2_every e b None" "h2_every e b (Some (s, r)) = h2_inv e b s"
  by (simp_all add: h2_every_def)

definition h2_ok :: "'s h2_env \<Rightarrow> bool \<Rightarrow> ('s h2, 's h2_outcome) ctl \<Rightarrow> bool" where
  "h2_ok e b c = ctl_all (h2_inv e b) (h2_every e b) c"

lemma h2_ok_simps [simp]: "h2_ok e b (Go s) = h2_inv e b s" "h2_ok e b (Stop r) = h2_every e b r"
  by (simp_all add: h2_ok_def)

lemma h2_inv_st [simp]: "h2_inv e b (s\<lparr>h2_st := st\<rparr>) = h2_inv e b s" "h2_inv e b (end_stream e s) = h2_inv e b s"
  "h2_inv e b (s\<lparr>h2_deadline := dl\<rparr>) = h2_inv e b s"
  by (simp_all add: h2_inv_def end_stream_def)

lemma h2_send_packet_inv: "h2_inv e b s \<Longrightarrow> h2_every e b (h2_send_packet e p s)"
  by (auto simp: h2_send_packet_def Let_def h2_every_def split: option.split prod.split sum.split)
    (simp add: h2_inv_def)

lemma h2_send_probe_ok: "h2_inv e b s \<Longrightarrow> h2_ok e b (h2_send_probe e s)"
  using h2_send_packet_inv [of e b s "hx_probe e"]
  by (auto simp: h2_send_probe_def h2_every_def split: option.splits)

lemma h2_confirm_ok:
  assumes "h2_inv e b s" "\<not> h2_ready_fired s"
    and "(\<forall>i. hx_accepts e i) \<longrightarrow> h2_successes s < length (h2_delivered s)"
  shows "h2_ok e b (h2_confirm e s)"
proof (cases "h2_successes s = 1")
  case True
  then show ?thesis using assms
    by (auto simp: h2_confirm_def h2_fire_ready_def h2_inv_def H2_DATA_PROBE_REQUIRED_SUCCESSES_def Let_def)
next
  case False
  then have "h2_successes s = 0" using assms by (auto simp: h2_inv_def)
  then have "h2_inv e b (s\<lparr>h2_successes := 1\<rparr>)" using assms by (auto simp: h2_inv_def Suc_le_eq)
  then show ?thesis using \<open>h2_successes s = 0\<close> h2_send_probe_ok
    by (simp add: h2_confirm_def H2_DATA_PROBE_REQUIRED_SUCCESSES_def Let_def)
qed

lemma h2_chunk_ok:
  assumes s: "h2_inv e b s"
  shows "h2_ok e b (h2_chunk e chunk s)"
proof -
  obtain p inb out got where d: "h2_drain_capsules (hx_octs e) (hx_accepts e) (parser_push chunk (h2_parser s))
      (h2_delivered s) (h2_offered s) = (p, inb, out, got)" by (metis prod.collapse)
  have grows: "length (h2_delivered s) \<le> length inb"
    "(\<forall>i. hx_accepts e i) \<Longrightarrow> got \<Longrightarrow> length (h2_delivered s) < length inb"
    using h2_drain_fuel_grows [OF d [unfolded h2_drain_capsules_def]] by auto
  define s1 where "s1 = s\<lparr>h2_parser := p, h2_delivered := inb, h2_offered := out\<rparr>"
  have s1: "h2_inv e b s1" using s grows(1) by (auto simp: h2_inv_def s1_def)
  moreover have "h2_ok e b (h2_confirm e s1)" if "got" "\<not> h2_ready_fired s1"
    by (rule h2_confirm_ok [OF s1 that(2)]) (use s grows(2) that(1) in \<open>auto simp: s1_def h2_inv_def\<close>)
  ultimately show ?thesis by (simp add: h2_chunk_def d s1_def Let_def)
qed

lemma h2_step_ok:
  assumes s: "h2_inv e b s"
  shows "h2_ok e b (h2_step e t s)"
proof -
  have "h2_ok e b (h2_keepalive e t s)"
    using s by (auto simp: h2_keepalive_def h2_inv_def split: prod.split option.split)
  moreover have "h2_inv e b (s\<lparr>awaiting_pong := False, pong_deadline := None\<rparr>)"
    using s by (simp add: h2_inv_def)
  moreover have "h2_ok e b (case h2_send_packet e p s of None \<Rightarrow> Stop None
      | Some (s, Inl err) \<Rightarrow> Stop (Some (s, Inl err)) | Some (s, Inr _) \<Rightarrow> Go s)" for p
    using h2_send_packet_inv [OF s, of p] by (auto split: option.split sum.split)
  ultimately have "h2_ok e b (h2_branch_step e t br s)" for br
    using s h2_send_probe_ok [OF s] h2_chunk_ok [OF s]
    by (auto simp: h2_branch_step_def split: h2_branch.split option.split control.split sum.split)
  then show ?thesis using s by (simp add: h2_step_def)
qed

interpretation h2: event_loop "h2_step e" "h2_inv e b" "h2_every e b" "\<lambda>_. True" for e b
proof
  fix t and s s' :: "'a h2" and r
  assume "h2_inv e b s"
  note ok = h2_step_ok [OF this, of t]
  show "h2_step e t s = Go s' \<Longrightarrow> h2_inv e b s'" using ok by simp
  show "h2_step e t s = Stop r \<Longrightarrow> h2_every e b r" using ok by simp
qed

fun h2_left :: "('s h2, 's h2_outcome) ctl \<Rightarrow> 's h2 option" where
  "h2_left (Go s) = Some s"
| "h2_left (Stop r) = map_option fst r"

lemma h2_begin_ok: "h2_inv e b s \<Longrightarrow> \<not> h2_ready_fired s \<Longrightarrow> h2_ok e b (h2_begin e now s)"
  using h2_send_probe_ok [of e b s]
  by (auto simp: h2_begin_def h2_inv_def h2_fire_ready_def split: ctl.split option.split)

lemma h2_run_inv: "h2_left (h2_run e su st b now turns) = Some s \<Longrightarrow> h2_inv e b s"
proof -
  assume left: "h2_left (h2_run e su st b now turns) = Some s"
  have init: "h2_inv e b (h2_init st b)" "\<not> h2_ready_fired (h2_init st b)" by (simp_all add: h2_inv_def h2_init_def)
  have run: "h2_ok e b (run_loop (h2_step e) turns s0)" if "h2_inv e b s0" for s0
    using h2.run_Go [of turns e b s0] h2.run_Stop [of turns e b s0] that
    by (cases "run_loop (h2_step e) turns s0") auto
  have "h2_ok e b (h2_run e su st b now turns)"
    using init h2_begin_ok [OF init, of now] run
    by (cases "h2_begin e now (h2_init st b)") (auto simp: h2_run_def split: sum.split)
  then show ?thesis using left by (cases "h2_run e su st b now turns") auto
qed
text \<open>
  While a pong is awaited no timer of the loop is served: neither tick has an effect, so only
  the pong, the channels or the body end the wait.
\<close>

lemma h2_no_timer_while_waiting:
  "h2_ready_fired s \<Longrightarrow> awaiting_pong s \<Longrightarrow> h2_step e (t\<lparr>ht_keepalive := k, ht_probe := p\<rparr>) s = h2_step e t s"
proof -
  assume "h2_ready_fired s" "awaiting_pong s"
  then have "h2_select e s (t\<lparr>ht_keepalive := k, ht_probe := p\<rparr>) = h2_select e s t"
    by (auto simp: h2_select_def h2_probing_def split: option.split)
  moreover have now: "ht_now (t\<lparr>ht_keepalive := k, ht_probe := p\<rparr>) = ht_now t" by simp
  have "h2_branch_step e (t\<lparr>ht_keepalive := k, ht_probe := p\<rparr>) b s = h2_branch_step e t b s" for b
    unfolding h2_branch_step_def h2_keepalive_def now ..
  ultimately show ?thesis by (simp add: h2_step_def)
qed

subsection \<open>Properties\<close>

text \<open>A stream that takes everything.\<close>

definition open_stream :: "unit h2_stream" where
  "open_stream = \<lparr>h2_reserve = (\<lambda>_ s. s), h2_capacity = (\<lambda>s. (s, CapacityOk 65535)),
     h2_send_data = (\<lambda>_ _ s. (s, None)), h2_send_ping = (\<lambda>s. (s, None))\<rparr>"

definition sample_h2 :: "unit h2_env" where
  "sample_h2 = \<lparr>hx_stream = open_stream, hx_octs = rfc_octets, hx_accepts = (\<lambda>_. True), hx_vars = (\<lambda>_. None),
     hx_probe = [0x45]\<rparr>"

definition sample_setup :: h2_setup where
  "sample_setup = \<lparr>su_tls = Inr (), su_tcp = None, su_tls_handshake = None, su_h2_handshake = None, su_ping = True,
     su_ready = None, su_request = None, su_send_request = None, su_response = Inr 200\<rparr>"

definition body_turn :: "bytes \<Rightarrow> h2_turn" where
  "body_turn d = \<lparr>ht_top = 0, ht_now = 0, ht_keepalive = False, ht_pong = None, ht_probe = False, ht_ctrl = None,
     ht_client = None, ht_body = Some (Inr d)\<rparr>"

lemma sample_connects: "h2_connect p sample_setup = Inr ()"
  by (simp add: h2_connect_def sample_setup_def or_err_def or_fail_def is_success_def)

lemma capsule_45: "encode_datagram_capsule rfc_octets [0x45] = [0, 1, 0x45]"
  by (simp add: encode_datagram_capsule_def capsule_kinds rfc.encode_capsule_eq varint_max_def)
    (simp add: rfc_octets_def rfc_vput_def rfc_tag_def be_bytes_def)

lemma open_stream_sends [simp]:
  "length d \<le> 65535 \<Longrightarrow> send_capsule open_stream d () = Some ((), Inr ())"
  by (simp add: send_capsule_def open_stream_def Let_def) (subst await_capacity.simps, simp)

lemma sample_drain: "drain rfc_octets \<lparr>buf = [0, 1, 0x45]\<rparr> = ([Datagram [0x45]], parser_new)"
proof -
  have cap: "capsule_of rfc_octets 0 [0x45] = Inr (Datagram [0x45])" by (simp add: capsule_of_def capsule_kinds)
  have ok: "\<forall>f \<in> set [(0, [0x45])]. frame_ok rfc_octets f" by (simp add: frame_ok_def cap varint_max_def)
  have cut: "concat [[0, 1, 0x45]] = wire rfc_octets [(0, [0x45])]"
    using capsule_45 by (simp add: wire_def encode_datagram_capsule_def capsule_kinds)
  have "feed rfc_octets [[0, 1, 0x45]] parser_new = ([Datagram [0x45]], parser_new)"
    using rfc.feed_new [OF ok cut] by (simp add: frame_capsule_def cap del: feed.simps)
  then show ?thesis by (simp add: parser_new_def parser_push_def split: prod.splits)
qed

lemma sample_h2_fields [simp]:
  "hx_stream sample_h2 = open_stream" "hx_octs sample_h2 = rfc_octets" "hx_accepts sample_h2 = (\<lambda>_. True)"
  "hx_vars sample_h2 = (\<lambda>_. None)" "hx_probe sample_h2 = [0x45]" "h2_data_check_enabled (\<lambda>_. None)"
  by (simp_all add: sample_h2_def h2_data_check_enabled_def)

lemma sample_probe: "h2_send_probe sample_h2 s =
    Go (s\<lparr>h2_packets := h2_packets s @ [[0x45]], h2_data := h2_data s @ [[0, 1, 0x45]]\<rparr>)"
  by (simp add: h2_send_probe_def h2_send_packet_def capsule_45 Let_def)

definition sample_h2_end :: "unit h2" where
  "sample_h2_end = (h2_init () True)\<lparr>h2_ready_tx := False, h2_ready_fired := True, h2_successes := 2, h2_signals := 1,
     h2_delivered := [[0x45], [0x45]], h2_packets := [[0x45], [0x45]], h2_data := [[0, 1, 0x45], [0, 1, 0x45]]\<rparr>"

lemma sample_h2_runs:
  "h2_left (h2_run sample_h2 sample_setup () True 0 [body_turn [0, 1, 0x45], body_turn [0, 1, 0x45]]) = Some sample_h2_end"
proof -
  have chunk: "h2_chunk sample_h2 [0, 1, 0x45] s =
      (let s = s\<lparr>h2_delivered := h2_delivered s @ [[0x45]]\<rparr> in
       if h2_ready_fired s then Go s else h2_confirm sample_h2 s)" if "h2_parser s = parser_new" for s
    using that sample_drain
    by (simp add: h2_chunk_def h2_drain_capsules_eq parser_push_def parser_new_def offered_by_def capsule_addrs_def Let_def)
      (cases s, simp)
  have select: "h2_select e s (body_turn d) = H2Body (Some (Inr d))" for e :: "unit h2_env" and s d
    by (simp add: h2_select_def body_turn_def)
  have top: "ht_top (body_turn d) = 0" for d by (simp add: body_turn_def)
  show ?thesis
    by (simp add: h2_run_def sample_connects h2_begin_def sample_probe h2_init_def instant_add_def
        h2_validation_timeout_def env_secs_def h2_step_def select h2_branch_step_def chunk h2_confirm_def passed_def
        H2_DATA_PROBE_REQUIRED_SUCCESSES_def h2_fire_ready_def sample_h2_end_def top Let_def)
qed

text \<open>C8. The HTTP/2 tunnel, like the QUIC tunnel, signals at most once that it is ready, only after
  the edge accepted the request, and, unless the data check is switched off, only after two
  chunks that carried IP packets; and a keepalive deadline is set exactly while a pong is
  awaited.\<close>

theorem h2_tunnel_ready:
  assumes "h2_left (h2_run e su st b now turns) = Some s"
  shows "h2_signals s \<le> 1 \<and> (pong_deadline s \<noteq> None) = awaiting_pong s \<and>
    (h2_signals s = 1 \<longrightarrow> b \<and> h2_connect True su = Inr () \<and>
      (h2_data_check_enabled (hx_vars e) \<longrightarrow> h2_successes s = 2 \<and>
        ((\<forall>i. hx_accepts e i) \<longrightarrow> 2 \<le> length (h2_delivered s))))"
proof -
  have "h2_inv e b s" using h2_run_inv [OF assms] .
  moreover have "h2_connect True su = Inr ()" if "h2_signals s = 1"
    using that assms by (cases "h2_connect True su") (auto simp: h2_run_def h2_init_def)
  ultimately show ?thesis by (auto simp: h2_inv_def)
qed

theorem h2_tunnel_ready_witness:
  "h2_signals sample_h2_end = 1 \<and> h2_successes sample_h2_end = 2 \<and> 2 \<le> length (h2_delivered sample_h2_end)"
  using h2_tunnel_ready [OF sample_h2_runs] by (simp add: sample_h2_end_def)



text \<open>C28. A gateway passes the HTTP/2 check only if it accepted the request with a successful status
  and, unless the data check is switched off, the body it sent before the timeout holds at least
  two DATAGRAM capsules.\<close>

theorem verify_h2_sound:
  assumes "verify_h2 e late su st events = Stop (Inr ())"
  shows "h2_connect False su = Inr () \<and> (\<exists>status. su_response su = Inr status \<and> is_success status)
    \<and> (h2_data_check_enabled (hx_vars e) \<longrightarrow>
        2 \<le> length (payloads (fst (feed (hx_octs e) (chunks_of events) parser_new))))"
proof -
  have con: "h2_connect False su = Inr ()"
    using assms by (cases "h2_connect False su") (auto simp: verify_h2_def VH_TIMEOUT_def split: if_splits)
  have "2 \<le> length (payloads (fst (feed (hx_octs e) (chunks_of events) parser_new)))"
    if dc: "h2_data_check_enabled (hx_vars e)"
  proof -
    obtain s where "vh_send e \<lparr>vh_st = st, vh_parser = parser_new, vh_successes = 0\<rparr> = Go s"
      "run_loop (vh_step e) events s = Stop (Inr ())"
      using assms dc con vh_send_fails [of e]
      by (auto simp: verify_h2_def VH_TIMEOUT_def split: if_splits ctl.splits)
    then show ?thesis using vh_run_confirms [of e events s] vh_send_keeps by fastforce
  qed
  moreover have "\<exists>status. su_response su = Inr status \<and> is_success status"
    using con by (auto simp: h2_connect_def or_err_def or_fail_def split: sum.splits option.splits if_splits)
  ultimately show ?thesis using con by blast
qed

lemma sample_verified: "verify_h2 sample_h2 False sample_setup () (replicate 2 (VhBody (Some (Inr [0, 1, 0x45])))) = Stop (Inr ())"
proof -
  have send: "vh_send sample_h2 s = Go s" for s
    by (simp add: vh_send_def capsule_45)
  have "frame_ok rfc_octets (0, [0x45])" by (simp add: frame_ok_def capsule_of_def capsule_kinds varint_max_def)
  then have nx: "parser_next rfc_octets \<lparr>buf = [0, 1, 0x45]\<rparr> = (Inr (Some (Datagram [0x45])), parser_new)"
    using rfc.next_frame [of "(0, [0x45])" "[]"] capsule_45
    by (simp add: encode_datagram_capsule_def frame_capsule_def capsule_of_def capsule_kinds parser_new_def)
  show ?thesis
    by (simp add: verify_h2_def sample_connects send numeral_2_eq_2 vh_step_def vh_drain_def vh_drain_fuel.simps(2) nx
        rfc.next_empty parser_new_def parser_push_def H2_DATA_PROBE_REQUIRED_SUCCESSES_def)
qed

theorem verify_h2_sound_witness:
  "2 \<le> length (payloads (fst (feed rfc_octets (replicate 2 [0, 1, 0x45]) parser_new)))"
proof -
  have "chunks_of (replicate 2 (VhBody (Some (Inr [0, 1, 0x45])))) = replicate 2 [0, 1, 0x45]"
    by (simp add: numeral_2_eq_2)
  then show ?thesis using verify_h2_sound [OF sample_verified] by (simp del: feed.simps)
qed

text \<open>However the body of the response is cut into chunks, draining the parser after each chunk
  delivers exactly the packets of the DATAGRAM capsules and offers exactly the addresses of the
  ADDRESS_ASSIGN capsules in the body, in order.\<close>

theorem h2_response_body:
  assumes "octets_crate oc"
    and "\<forall>f \<in> set fs. frame_ok oc f"
    and "concat ds = wire oc fs"
  shows "fold (h2_take_chunk oc) ds (parser_new, inb, out) =
    (parser_new, inb @ payloads (map (frame_capsule oc) fs), out @ offered_by (map (frame_capsule oc) fs))"
  using octets_crate.feed_new [OF assms] by (simp add: fold_chunks)

theorem h2_response_body_witness:
  "fold (h2_take_chunk rfc_octets) [[0, 1], [0x45, 0, 1, 0x60]] (parser_new, [], []) = (parser_new, [[0x45], [0x60]], [])"
proof -
  let ?fs = "[(0, [0x45]), (0, [0x60])] :: (u64 \<times> bytes) list"
  have ok: "\<forall>f \<in> set ?fs. frame_ok rfc_octets f"
    by (simp add: frame_ok_def capsule_of_def capsule_kinds varint_max_def)
  have cut: "concat [[0, 1], [0x45, 0, 1, 0x60]] = wire rfc_octets ?fs"
    by (simp add: wire_def rfc.encode_capsule_eq varint_max_def)
      (simp add: rfc_octets_def rfc_vput_def rfc_tag_def be_bytes_def)
  show ?thesis
    using h2_response_body [OF rfc.octets_crate_axioms ok cut, of "[]" "[]"]
    by (simp add: frame_capsule_def capsule_of_def capsule_kinds offered_by_def capsule_addrs_def del: fold_simps)
qed

end
