(* ===== verification/Netstack.thy ===== *)
theory Netstack
  imports Net_Addr Errors "HOL-Library.Multiset"
begin

section \<open>The user-space network stack (netstack.rs)\<close>

text \<open>
  The task that turns IP packets of the tunnel into TCP and UDP connections. The smoltcp crate
  is the parameter \<open>sm\<close>: calls on an interface, on TCP sockets and on UDP sockets of any type.
  Its socket set is a map from handles; \<open>None\<close> as a result is a panic of the task (a handle
  that is not in the set, or is of the other kind). The channels to the applications are logs:
  answers to requests, and what was delivered to each connection.
\<close>

definition MAX_INGEST_PER_TICK :: nat where "MAX_INGEST_PER_TICK = 512"
definition MAX_RECV_CHUNKS :: nat where "MAX_RECV_CHUNKS = 128"

subsection \<open>The device\<close>

record stack_device =
  dev_rx :: "bytes list"
  dev_tx :: "bytes list"
  dev_mtu :: nat

definition device_new :: "nat \<Rightarrow> stack_device" where
  "device_new mtu = \<lparr>dev_rx = [], dev_tx = [], dev_mtu = mtu\<rparr>"

definition device_receive :: "stack_device \<Rightarrow> (bytes \<times> stack_device) option" where
  "device_receive d = (case dev_rx d of [] \<Rightarrow> None | p # ps \<Rightarrow> Some (p, d\<lparr>dev_rx := ps\<rparr>))"

definition tx_consume :: "bytes \<Rightarrow> stack_device \<Rightarrow> stack_device" where
  "tx_consume frame d = d\<lparr>dev_tx := dev_tx d @ [frame]\<rparr>"

subsection \<open>Commands and data\<close>

text \<open>A request carries the number of the channel its answer goes to.\<close>

datatype cmd = OpenTcp sock_addr nat | OpenUdp nat | SetAddrs "(u32 \<times> u8) option" "(u128 \<times> u8) option"

datatype data_in = DataTcp nat bytes | DataTcpClose nat | DataUdp nat sock_addr bytes | DataUdpClose nat

datatype tcp_state = TcpListen | TcpSynSent | TcpSynReceived | TcpEstablished | TcpFinWait1 | TcpFinWait2
  | TcpCloseWait | TcpClosing | TcpLastAck | TcpTimeWait | TcpClosed

record tcp_conn =
  tc_handle :: nat
  from_stack_rx :: bool
  connect_resp :: "nat option"
  pending :: bytes
  established :: bool
  half_closed :: bool

subsection \<open>The interface of smoltcp\<close>

text \<open>
  \<open>sm_poll\<close> works on the interface, the device and every socket, and says whether it panicked;
  \<open>sm_slot\<close> is the handle of a new socket given those in use.
\<close>

record ('i, 't, 'u) smoltcp =
  sm_poll :: "'i \<Rightarrow> stack_device \<Rightarrow> (nat \<Rightarrow> ('t + 'u) option) \<Rightarrow>
    ('i \<times> stack_device) \<times> (nat \<Rightarrow> 't \<Rightarrow> 't) \<times> (nat \<Rightarrow> 'u \<Rightarrow> 'u) \<times> bool"
  sm_slot :: "nat set \<Rightarrow> nat"
  sm_connect :: "'i \<Rightarrow> sock_addr \<Rightarrow> u16 \<Rightarrow> str + 't"
  sm_bind :: "u16 \<Rightarrow> str + 'u"
  sm_state :: "'t \<Rightarrow> tcp_state"
  sm_can_send :: "'t \<Rightarrow> bool"
  sm_send :: "bytes \<Rightarrow> 't \<Rightarrow> 't \<times> nat option"
  sm_close :: "'t \<Rightarrow> 't"
  sm_can_recv :: "'t \<Rightarrow> bool"
  sm_recv :: "'t \<Rightarrow> 't \<times> bytes option"
  sm_udp_send :: "bytes \<Rightarrow> sock_addr \<Rightarrow> 'u \<Rightarrow> 'u"
  sm_udp_can_recv :: "'u \<Rightarrow> bool"
  sm_udp_recv :: "'u \<Rightarrow> 'u \<times> (sock_addr \<times> bytes) option"
  sm_update_addrs :: "(ip_addr \<times> u8) list \<Rightarrow> 'i \<Rightarrow> 'i"
  sm_default_route :: "ip_addr \<Rightarrow> 'i \<Rightarrow> 'i"

locale socket_set =
  fixes sm :: "('i, 't, 'u) smoltcp"
  assumes slot_fresh: "finite H \<Longrightarrow> sm_slot sm H \<notin> H"
    and send_takes: "sm_send sm d t = (t', Some n) \<Longrightarrow> n \<le> length d"

subsection \<open>Addresses\<close>

definition strip_cidr :: "str \<Rightarrow> str" where
  "strip_cidr s = (case split_once (CHR ''/'') s of Some (ip, _) \<Rightarrow> ip | None \<Rightarrow> s)"

definition cidr_prefix :: "str \<Rightarrow> u8 option" where
  "cidr_prefix s =
     (case split_once (CHR ''/'') s of
        Some (_, p) \<Rightarrow> map_option word_of_nat (parse_uint 8 p)
      | None \<Rightarrow> None)"

definition parse_v4 :: "str \<Rightarrow> (u32 \<times> u8) option result" where
  "parse_v4 s =
     (if s = [] then Inr None
      else case parse_ipv4 (strip_cidr s) of
        None \<Rightarrow> Inl (Other (''bad ipv4 '' @ s))
      | Some ip \<Rightarrow> Inr (Some (ip, case cidr_prefix s of Some p \<Rightarrow> p | None \<Rightarrow> 32)))"

definition parse_v6 :: "str \<Rightarrow> (u128 \<times> u8) option result" where
  "parse_v6 s =
     (if s = [] then Inr None
      else case parse_ipv6 (strip_cidr s) of
        None \<Rightarrow> Inl (Other (''bad ipv6 '' @ s))
      | Some ip \<Rightarrow> Inr (Some (ip, case cidr_prefix s of Some p \<Rightarrow> p | None \<Rightarrow> 128)))"

definition routable_prefix_v4 :: "u8 \<Rightarrow> u8" where
  "routable_prefix_v4 p = (if 31 \<le> p then 24 else p)"

definition routable_prefix_v6 :: "u8 \<Rightarrow> u8" where
  "routable_prefix_v6 p = (if 127 \<le> p then 64 else p)"

definition gateway_v4 :: "u32 \<Rightarrow> u32" where
  "gateway_v4 ip =
     (let os = ipv4_octets ip; host = (if os ! 3 = 1 then 2 else 1)
      in ipv4_new (os ! 0) (os ! 1) (os ! 2) host)"

definition gateway_v6 :: "u128 \<Rightarrow> u128" where
  "gateway_v6 ip =
     (let os = ipv6_octets ip in of_be (os[15 := (if os ! 15 = 1 then 2 else 1)]))"

definition apply_addrs :: "('i, 't, 'u) smoltcp \<Rightarrow> (u32 \<times> u8) option \<Rightarrow> (u128 \<times> u8) option \<Rightarrow> 'i \<Rightarrow> 'i" where
  "apply_addrs sm v4 v6 i =
     (let i = sm_update_addrs sm
                ((case v4 of Some (ip, p) \<Rightarrow> [(IpV4 ip, routable_prefix_v4 p)] | None \<Rightarrow> [])
                 @ (case v6 of Some (ip, p) \<Rightarrow> [(IpV6 ip, routable_prefix_v6 p)] | None \<Rightarrow> [])) i;
          i = (case v4 of Some (ip, _) \<Rightarrow> sm_default_route sm (IpV4 (gateway_v4 ip)) i | None \<Rightarrow> i)
      in (case v6 of Some (ip, _) \<Rightarrow> sm_default_route sm (IpV6 (gateway_v6 ip)) i | None \<Rightarrow> i))"

subsection \<open>State\<close>

record ('i, 't, 'u) netstack =
  iface :: 'i
  device :: stack_device
  socks :: "nat \<Rightarrow> ('t + 'u) option"
  tcp_conns :: "nat \<Rightarrow> tcp_conn option"
  udp_conns :: "nat \<Rightarrow> nat option"
  next_id :: nat
  next_port :: u16
  answers :: "(nat \<times> (str + nat)) list"
  app_tcp :: "(nat \<times> bytes) list"
  app_udp :: "(nat \<times> sock_addr \<times> bytes) list"
  outbound :: "bytes list"

definition netstack_new :: "('i, 't, 'u) smoltcp \<Rightarrow> str \<Rightarrow> str \<Rightarrow> nat \<Rightarrow> 'i \<Rightarrow> ('i, 't, 'u) netstack result" where
  "netstack_new sm ipv4 ipv6 mtu i =
     (case parse_v4 ipv4 of
        Inl e \<Rightarrow> Inl e
      | Inr v4 \<Rightarrow>
          (case parse_v6 ipv6 of
             Inl e \<Rightarrow> Inl e
           | Inr v6 \<Rightarrow>
               Inr \<lparr>iface = apply_addrs sm v4 v6 i, device = device_new mtu, socks = Map.empty,
                 tcp_conns = Map.empty, udp_conns = Map.empty, next_id = 1, next_port = 49152, answers = [],
                 app_tcp = [], app_udp = [], outbound = []\<rparr>))"

definition alloc_port :: "u16 \<Rightarrow> u16 \<times> u16" where
  "alloc_port p = (p, if 65000 \<le> p then 49152 else p + 1)"

subsection \<open>Commands and data\<close>

fun handle_cmd :: "('i, 't, 'u) smoltcp \<Rightarrow> cmd \<Rightarrow> ('i, 't, 'u) netstack \<Rightarrow> ('i, 't, 'u) netstack" where
  "handle_cmd sm (OpenTcp dst resp) s =
     (let (local_port, next) = alloc_port (next_port s); s = s\<lparr>next_port := next\<rparr> in
      case sm_connect sm (iface s) dst local_port of
        Inl e \<Rightarrow> s\<lparr>answers := answers s @ [(resp, Inl (''connect: '' @ e))]\<rparr>
      | Inr socket \<Rightarrow>
          (let handle = sm_slot sm (dom (socks s)); k = next_id s
           in s\<lparr>socks := (socks s)(handle \<mapsto> Inl socket), next_id := next_id s + 1,
                tcp_conns := (tcp_conns s)(k \<mapsto>
                  \<lparr>tc_handle = handle, from_stack_rx = True, connect_resp = Some resp, pending = [],
                   established = False, half_closed = False\<rparr>)\<rparr>))"
| "handle_cmd sm (OpenUdp resp) s =
     (let (local_port, next) = alloc_port (next_port s); s = s\<lparr>next_port := next\<rparr> in
      case sm_bind sm local_port of
        Inl e \<Rightarrow> s\<lparr>answers := answers s @ [(resp, Inl (''bind: '' @ e))]\<rparr>
      | Inr socket \<Rightarrow>
          (let handle = sm_slot sm (dom (socks s)); k = next_id s
           in s\<lparr>socks := (socks s)(handle \<mapsto> Inr socket), next_id := next_id s + 1,
                udp_conns := (udp_conns s)(k \<mapsto> handle), answers := answers s @ [(resp, Inr k)]\<rparr>))"
| "handle_cmd sm (SetAddrs v4 v6) s = s\<lparr>iface := apply_addrs sm v4 v6 (iface s)\<rparr>"

fun handle_data :: "('i, 't, 'u) smoltcp \<Rightarrow> data_in \<Rightarrow> ('i, 't, 'u) netstack \<Rightarrow> ('i, 't, 'u) netstack option" where
  "handle_data sm (DataTcp k data) s =
     (case tcp_conns s k of
        Some st \<Rightarrow> Some (s\<lparr>tcp_conns := (tcp_conns s)(k \<mapsto> st\<lparr>pending := pending st @ data\<rparr>)\<rparr>)
      | None \<Rightarrow> Some s)"
| "handle_data sm (DataTcpClose k) s =
     (case tcp_conns s k of
        Some st \<Rightarrow> Some (s\<lparr>tcp_conns := (tcp_conns s)(k \<mapsto> st\<lparr>half_closed := True\<rparr>)\<rparr>)
      | None \<Rightarrow> Some s)"
| "handle_data sm (DataUdp k dst data) s =
     (case udp_conns s k of
        Some handle \<Rightarrow>
          (case socks s handle of
             Some (Inr sock) \<Rightarrow> Some (s\<lparr>socks := (socks s)(handle \<mapsto> Inr (sm_udp_send sm data dst sock))\<rparr>)
           | _ \<Rightarrow> None)
      | None \<Rightarrow> Some s)"
| "handle_data sm (DataUdpClose k) s =
     (case udp_conns s k of
        Some handle \<Rightarrow>
          (if socks s handle = None then None
           else Some (s\<lparr>udp_conns := (udp_conns s)(k := None), socks := (socks s)(handle := None)\<rparr>))
      | None \<Rightarrow> Some s)"

subsection \<open>Servicing the connections\<close>

text \<open>
  Sending to an application ends in one of three ways: it took the value, it has dropped its
  receiver, or its queue is full and stays full, and then the call does not return.
\<close>

datatype app_send = Taken | Gone | Stuck

fun deliver :: "(nat \<Rightarrow> app_send) \<Rightarrow> nat \<Rightarrow> 'a list \<Rightarrow> ('a list \<times> bool) option" where
  "deliver f i [] = Some ([], False)"
| "deliver f i (v # vs) =
     (case f i of
        Taken \<Rightarrow> map_option (\<lambda>(taken, gone). (v # taken, gone)) (deliver f (Suc i) vs)
      | Gone \<Rightarrow> Some ([], True)
      | Stuck \<Rightarrow> None)"

definition get_tcp :: "nat \<Rightarrow> ('i, 't, 'u) netstack \<Rightarrow> 't option" where
  "get_tcp h s = (case socks s h of Some (Inl t) \<Rightarrow> Some t | _ \<Rightarrow> None)"

definition get_udp :: "nat \<Rightarrow> ('i, 't, 'u) netstack \<Rightarrow> 'u option" where
  "get_udp h s = (case socks s h of Some (Inr u) \<Rightarrow> Some u | _ \<Rightarrow> None)"

fun recv_chunks :: "('i, 't, 'u) smoltcp \<Rightarrow> nat \<Rightarrow> 't \<Rightarrow> 't \<times> bytes list" where
  "recv_chunks sm 0 t = (t, [])"
| "recv_chunks sm (Suc n) t =
     (if sm_can_recv sm t then
        (case sm_recv sm t of
           (t, Some v) \<Rightarrow> (if v = [] then (t, []) else map_prod (\<lambda>x. x) (Cons v) (recv_chunks sm n t))
         | (t, None) \<Rightarrow> (t, []))
      else (t, []))"

fun udp_packets :: "('i, 't, 'u) smoltcp \<Rightarrow> nat \<Rightarrow> 'u \<Rightarrow> 'u \<times> (sock_addr \<times> bytes) list" where
  "udp_packets sm 0 u = (u, [])"
| "udp_packets sm (Suc n) u =
     (if sm_udp_can_recv sm u then
        (case sm_udp_recv sm u of
           (u, Some p) \<Rightarrow> map_prod (\<lambda>x. x) (Cons p) (udp_packets sm n u)
         | (u, None) \<Rightarrow> (u, []))
      else (u, []))"

text \<open>Announcing a connection takes the answer channel and the receiver out of its entry.\<close>

definition announce :: "nat \<Rightarrow> tcp_conn \<Rightarrow> (nat \<times> (str + nat)) list \<Rightarrow> tcp_conn \<times> (nat \<times> (str + nat)) list" where
  "announce k st as =
     (st\<lparr>established := True, connect_resp := None, from_stack_rx := False\<rparr>,
      (case connect_resp st of
         Some resp \<Rightarrow> (if from_stack_rx st then as @ [(resp, Inr k)] else as)
       | None \<Rightarrow> as))"

definition remove_tcp :: "nat \<Rightarrow> nat \<Rightarrow> ('i, 't, 'u) netstack \<Rightarrow> ('i, 't, 'u) netstack" where
  "remove_tcp k h s = s\<lparr>socks := (socks s)(h := None), tcp_conns := (tcp_conns s)(k := None)\<rparr>"

definition refuse :: "nat \<Rightarrow> tcp_conn \<Rightarrow> ('i, 't, 'u) netstack \<Rightarrow> ('i, 't, 'u) netstack" where
  "refuse k st s =
     remove_tcp k (tc_handle st)
       (s\<lparr>answers := (case connect_resp st of
                         Some resp \<Rightarrow> answers s @ [(resp, Inl ''connection refused'')]
                       | None \<Rightarrow> answers s)\<rparr>)"

definition send_pending :: "('i, 't, 'u) smoltcp \<Rightarrow> 't \<Rightarrow> tcp_conn \<Rightarrow> ('t \<times> tcp_conn) option" where
  "send_pending sm t st =
     (if sm_can_send sm t \<and> pending st \<noteq> [] then
        (case sm_send sm (pending st) t of
           (t, r) \<Rightarrow>
             (let sent = (case r of Some n \<Rightarrow> n | None \<Rightarrow> 0) in
              if length (pending st) < sent then None
              else Some (t, st\<lparr>pending := drop sent (pending st)\<rparr>)))
      else Some (t, st))"

definition close_if :: "('i, 't, 'u) smoltcp \<Rightarrow> bool \<Rightarrow> 't \<Rightarrow> 't" where
  "close_if sm b t = (if b then sm_close sm t else t)"

definition serve_socket :: "('i, 't, 'u) smoltcp \<Rightarrow> (nat \<Rightarrow> app_send) \<Rightarrow> tcp_conn \<Rightarrow> 't
    \<Rightarrow> ('t \<times> tcp_conn \<times> bytes list \<times> bool) option" where
  "serve_socket sm app st t = do {
     (t, st) \<leftarrow> send_pending sm t st;
     let (t, chunks) = recv_chunks sm MAX_RECV_CHUNKS (close_if sm (half_closed st \<and> pending st = []) t);
     (taken, gone) \<leftarrow> deliver app 0 chunks;
     let t = close_if sm gone t;
     Some (close_if sm (sm_state sm t = TcpCloseWait) t, st, taken, sm_state sm t = TcpClosed)
   }"

definition serve_open :: "('i, 't, 'u) smoltcp \<Rightarrow> (nat \<Rightarrow> app_send) \<Rightarrow> nat \<Rightarrow> tcp_conn \<Rightarrow> 't
    \<Rightarrow> ('i, 't, 'u) netstack \<Rightarrow> ('i, 't, 'u) netstack option" where
  "serve_open sm app k st t s = do {
     (t, st, taken, closed) \<leftarrow> serve_socket sm app st t;
     let s = s\<lparr>socks := (socks s)(tc_handle st \<mapsto> Inl t), tcp_conns := (tcp_conns s)(k \<mapsto> st),
               app_tcp := app_tcp s @ map (Pair k) taken\<rparr>;
     Some (if closed \<and> established st then remove_tcp k (tc_handle st) s else s)
   }"

definition serve_conn :: "('i, 't, 'u) smoltcp \<Rightarrow> (nat \<Rightarrow> app_send) \<Rightarrow> nat \<Rightarrow> ('i, 't, 'u) netstack
    \<Rightarrow> ('i, 't, 'u) netstack option" where
  "serve_conn sm app k s =
     (case tcp_conns s k of
        None \<Rightarrow> Some s
      | Some st \<Rightarrow> do {
          t \<leftarrow> get_tcp (tc_handle st) s;
          let state = sm_state sm t;
          let (st, as) = (if \<not> established st \<and> state = TcpEstablished then announce k st (answers s)
                          else (st, answers s));
          let s = s\<lparr>answers := as\<rparr>;
          if \<not> established st \<and> (state = TcpClosed \<or> state = TcpTimeWait) then Some (refuse k st s)
          else serve_open sm app k st t s
        })"

fun service_tcp :: "('i, 't, 'u) smoltcp \<Rightarrow> (nat \<Rightarrow> nat \<Rightarrow> app_send) \<Rightarrow> nat list \<Rightarrow> ('i, 't, 'u) netstack
    \<Rightarrow> ('i, 't, 'u) netstack option" where
  "service_tcp sm app [] s = Some s"
| "service_tcp sm app (k # ids) s = Option.bind (serve_conn sm (app k) k s) (service_tcp sm app ids)"

definition serve_udp :: "('i, 't, 'u) smoltcp \<Rightarrow> (nat \<Rightarrow> app_send) \<Rightarrow> nat \<Rightarrow> ('i, 't, 'u) netstack
    \<Rightarrow> ('i, 't, 'u) netstack option" where
  "serve_udp sm app k s =
     (case udp_conns s k of
        None \<Rightarrow> Some s
      | Some h \<Rightarrow> do {
          u \<leftarrow> get_udp h s;
          let (u, packets) = udp_packets sm MAX_RECV_CHUNKS u;
          (taken, _) \<leftarrow> deliver app 0 packets;
          Some (s\<lparr>socks := (socks s)(h \<mapsto> Inr u), app_udp := app_udp s @ map (Pair k) taken\<rparr>)
        })"

fun service_udp :: "('i, 't, 'u) smoltcp \<Rightarrow> (nat \<Rightarrow> nat \<Rightarrow> app_send) \<Rightarrow> nat list \<Rightarrow> ('i, 't, 'u) netstack
    \<Rightarrow> ('i, 't, 'u) netstack option" where
  "service_udp sm app [] s = Some s"
| "service_udp sm app (k # ids) s = Option.bind (serve_udp sm (app k) k s) (service_udp sm app ids)"

text \<open>A packet the tunnel no longer takes is lost; those behind it stay queued.\<close>

fun flush_queue :: "(nat \<Rightarrow> app_send) \<Rightarrow> nat \<Rightarrow> bytes list \<Rightarrow> (bytes list \<times> bytes list) option" where
  "flush_queue f i [] = Some ([], [])"
| "flush_queue f i (p # ps) =
     (case f i of
        Taken \<Rightarrow> map_option (\<lambda>(sent, left). (p # sent, left)) (flush_queue f (Suc i) ps)
      | Gone \<Rightarrow> Some ([], ps)
      | Stuck \<Rightarrow> None)"

definition flush_tx :: "(nat \<Rightarrow> app_send) \<Rightarrow> ('i, 't, 'u) netstack \<Rightarrow> ('i, 't, 'u) netstack option" where
  "flush_tx f s =
     map_option (\<lambda>(sent, left). s\<lparr>device := (device s)\<lparr>dev_tx := left\<rparr>, outbound := outbound s @ sent\<rparr>)
       (flush_queue f 0 (dev_tx (device s)))"

subsection \<open>The loop\<close>

text \<open>
  One turn: what the applications and the tunnel do with what is sent to them, the order in
  which the hash maps list their keys, and the branch the select! runs.
\<close>

datatype ns_event = NsInbound bytes "bytes list" | NsInboundClosed | NsCmd cmd | NsCmdClosed
  | NsData data_in "data_in list" | NsDelay

record ns_turn =
  nt_tcp_app :: "nat \<Rightarrow> nat \<Rightarrow> app_send"
  nt_udp_app :: "nat \<Rightarrow> nat \<Rightarrow> app_send"
  nt_out :: "nat \<Rightarrow> app_send"
  nt_keys :: "nat set \<Rightarrow> nat list"
  nt_event :: ns_event

definition ns_poll :: "('i, 't, 'u) smoltcp \<Rightarrow> ('i, 't, 'u) netstack \<Rightarrow> ('i, 't, 'u) netstack" where
  "ns_poll sm s =
     (case sm_poll sm (iface s) (device s) (socks s) of
        ((i, d), tcp, udp, panicked) \<Rightarrow>
          s\<lparr>iface := i, device := (if panicked then d\<lparr>dev_rx := [], dev_tx := []\<rparr> else d),
            socks := (\<lambda>h. map_option (map_sum (tcp h) (udp h)) (socks s h))\<rparr>)"

definition ns_service :: "('i, 't, 'u) smoltcp \<Rightarrow> ns_turn \<Rightarrow> ('i, 't, 'u) netstack \<Rightarrow> ('i, 't, 'u) netstack option" where
  "ns_service sm t s = do {
     let s = ns_poll sm s;
     s \<leftarrow> service_tcp sm (nt_tcp_app t) (nt_keys t (dom (tcp_conns s))) s;
     s \<leftarrow> service_udp sm (nt_udp_app t) (nt_keys t (dom (udp_conns s))) s;
     flush_tx (nt_out t) s
   }"

fun handle_all :: "('i, 't, 'u) smoltcp \<Rightarrow> data_in list \<Rightarrow> ('i, 't, 'u) netstack \<Rightarrow> ('i, 't, 'u) netstack option" where
  "handle_all sm [] s = Some s"
| "handle_all sm (d # ds) s = Option.bind (handle_data sm d s) (handle_all sm ds)"

definition ingest :: "bytes \<Rightarrow> bytes list \<Rightarrow> ('i, 't, 'u) netstack \<Rightarrow> ('i, 't, 'u) netstack" where
  "ingest p ps s =
     s\<lparr>device := (device s)\<lparr>dev_rx := dev_rx (device s) @ p # take MAX_INGEST_PER_TICK ps\<rparr>\<rparr>"

text \<open>\<open>Stop None\<close> is a turn that panics or never ends, \<open>Stop (Some s)\<close> the end of the task.\<close>

definition ns_step :: "('i, 't, 'u) smoltcp \<Rightarrow> ns_turn \<Rightarrow> ('i, 't, 'u) netstack
    \<Rightarrow> (('i, 't, 'u) netstack, ('i, 't, 'u) netstack option) ctl" where
  "ns_step sm t s =
     (case ns_service sm t s of
        None \<Rightarrow> Stop None
      | Some s \<Rightarrow>
          (case nt_event t of
             NsInbound p ps \<Rightarrow> Go (ingest p ps s)
           | NsInboundClosed \<Rightarrow> Stop (Some s)
           | NsCmd c \<Rightarrow> Go (handle_cmd sm c s)
           | NsCmdClosed \<Rightarrow> Stop (Some s)
           | NsData d ds \<Rightarrow> (case handle_all sm (d # ds) s of Some s \<Rightarrow> Go s | None \<Rightarrow> Stop None)
           | NsDelay \<Rightarrow> Go s))"

subsection \<open>The invariant\<close>

text \<open>
  Every connection has a live socket of its kind that no other connection has, every socket
  belongs to a connection, numbers and ports are in range, and a TCP connection holds its
  answer channel exactly as long as it is not established.
\<close>

definition conn_ok :: "('t + 'u) option \<Rightarrow> tcp_conn \<Rightarrow> bool" where
  "conn_ok so st \<longleftrightarrow> (\<exists>t. so = Some (Inl t)) \<and> from_stack_rx st = (connect_resp st \<noteq> None)
     \<and> established st = (connect_resp st = None)"

definition owned :: "(nat \<Rightarrow> tcp_conn option) \<Rightarrow> (nat \<Rightarrow> nat option) \<Rightarrow> nat \<Rightarrow> 't + 'u \<Rightarrow> bool" where
  "owned tcp udp h x \<longleftrightarrow>
     (case x of Inl _ \<Rightarrow> \<exists>k st. tcp k = Some st \<and> tc_handle st = h | Inr _ \<Rightarrow> \<exists>k. udp k = Some h)"

definition conns_ok :: "(nat \<Rightarrow> ('t + 'u) option) \<Rightarrow> (nat \<Rightarrow> tcp_conn option) \<Rightarrow> (nat \<Rightarrow> nat option) \<Rightarrow> nat \<Rightarrow> bool" where
  "conns_ok so tcp udp n \<longleftrightarrow>
     finite (dom so) \<and>
     (\<forall>k st. tcp k = Some st \<longrightarrow> conn_ok (so (tc_handle st)) st \<and> 0 < k \<and> k < n \<and> udp k = None) \<and>
     (\<forall>k h. udp k = Some h \<longrightarrow> (\<exists>u. so h = Some (Inr u)) \<and> 0 < k \<and> k < n) \<and>
     (\<forall>k k' st st'. tcp k = Some st \<longrightarrow> tcp k' = Some st' \<longrightarrow> tc_handle st = tc_handle st' \<longrightarrow> k = k') \<and>
     (\<forall>k k' h. udp k = Some h \<longrightarrow> udp k' = Some h \<longrightarrow> k = k') \<and>
     (\<forall>h x. so h = Some x \<longrightarrow> owned tcp udp h x)"

definition ns_ok :: "('i, 't, 'u) netstack \<Rightarrow> bool" where
  "ns_ok s \<longleftrightarrow> conns_ok (socks s) (tcp_conns s) (udp_conns s) (next_id s) \<and> 0 < next_id s
     \<and> 49152 \<le> next_port s \<and> next_port s \<le> 65000"

lemma alloc_port_range:
  "49152 \<le> p \<Longrightarrow> p \<le> 65000 \<Longrightarrow> 49152 \<le> snd (alloc_port p) \<and> snd (alloc_port p) \<le> 65000"
  unfolding alloc_port_def by (simp add: word_le_nat_alt unat_word_ariths)

lemma conns_tcp:
  assumes "conns_ok so tcp udp n" "tcp k = Some st"
  shows "\<exists>t. so (tc_handle st) = Some (Inl t)" "from_stack_rx st = (connect_resp st \<noteq> None)"
    "established st = (connect_resp st = None)" "k < n" "udp k = None"
  using assms by (auto simp: conns_ok_def conn_ok_def)

lemma conns_udp:
  assumes "conns_ok so tcp udp n" "udp k = Some h"
  shows "\<exists>u. so h = Some (Inr u)" "k < n" "tcp k = None"
proof -
  show "\<exists>u. so h = Some (Inr u)" "k < n" using assms by (auto simp: conns_ok_def)
  show "tcp k = None" using conns_tcp(5) [OF assms(1), of k] assms(2) by (cases "tcp k") auto
qed

lemma owned_mono:
  assumes "owned tcp udp g x"
    and "\<And>k st. tcp k = Some st \<Longrightarrow> tc_handle st = g \<Longrightarrow> \<exists>st'. tcp' k = Some st' \<and> tc_handle st' = g"
    and "\<And>k. udp k = Some g \<Longrightarrow> udp' k = Some g"
  shows "owned tcp' udp' g x"
proof (cases x)
  case Inl
  then obtain k st where "tcp k = Some st" "tc_handle st = g" using assms(1) by (auto simp: owned_def)
  from assms(2) [OF this] show ?thesis using Inl by (auto simp: owned_def)
next
  case Inr
  then show ?thesis using assms(1, 3) by (auto simp: owned_def)
qed

lemma conns_update_tcp:
  fixes so :: "nat \<Rightarrow> ('t + 'u) option"
  assumes ok: "conns_ok so tcp udp n" and k: "tcp k = Some st0" and h: "tc_handle st = tc_handle st0"
    and flags: "from_stack_rx st = (connect_resp st \<noteq> None)" "established st = (connect_resp st = None)"
  shows "conns_ok (so(tc_handle st0 \<mapsto> Inl t)) (tcp(k \<mapsto> st)) udp n"
proof -
  have so: "\<exists>t. so (tc_handle st0) = Some (Inl t)" using conns_tcp(1) [OF ok k] .
  have udp: "udp j \<noteq> Some (tc_handle st0)" for j
    using conns_udp(1) [OF ok, of j "tc_handle st0"] so by auto
  have own: "owned (tcp(k \<mapsto> st)) udp g x" if "owned tcp udp g x" for g and x :: "'t + 'u"
    by (rule owned_mono [OF that]) (use k h in auto)
  have own0: "owned (tcp(k \<mapsto> st)) udp (tc_handle st0) (Inl t :: 't + 'u)" using h by (auto simp: owned_def)
  have fin: "finite (dom (so(tc_handle st0 \<mapsto> Inl t)))" using ok by (simp add: conns_ok_def)
  show ?thesis
    unfolding conns_ok_def
  proof (intro conjI allI impI)
    fix j j' st1 st2
    assume "(tcp(k \<mapsto> st)) j = Some st1" "(tcp(k \<mapsto> st)) j' = Some st2" "tc_handle st1 = tc_handle st2"
    then obtain u1 u2 where "tcp j = Some u1" "tcp j' = Some u2" "tc_handle u1 = tc_handle u2"
      using k h by (auto split: if_splits)
    then show "j = j'" using ok unfolding conns_ok_def by blast
  next
    fix j st1 assume j: "(tcp(k \<mapsto> st)) j = Some st1"
    then show "conn_ok ((so(tc_handle st0 \<mapsto> Inl t)) (tc_handle st1)) st1" "0 < j" "j < n" "udp j = None"
      using ok k h flags by (auto simp: conns_ok_def conn_ok_def split: if_splits)
  next
    fix j g assume "udp j = Some g"
    then show "\<exists>u. (so(tc_handle st0 \<mapsto> Inl t)) g = Some (Inr u)" "0 < j" "j < n"
      using ok udp [of j] by (auto simp: conns_ok_def)
  next
    fix g x assume "(so(tc_handle st0 \<mapsto> Inl t)) g = Some x"
    then show "owned (tcp(k \<mapsto> st)) udp g x"
      using ok own own0 by (auto simp: conns_ok_def split: if_splits)
  next
    fix j j' g assume "udp j = Some g" "udp j' = Some g"
    then show "j = j'" using ok unfolding conns_ok_def by blast
  qed (use fin in simp)
qed

lemma conns_remove_tcp:
  fixes so :: "nat \<Rightarrow> ('t + 'u) option"
  assumes ok: "conns_ok so tcp udp n" and k: "tcp k = Some st"
  shows "conns_ok (so(tc_handle st := None)) (tcp(k := None)) udp n"
proof -
  have so: "\<exists>t. so (tc_handle st) = Some (Inl t)" using conns_tcp(1) [OF ok k] .
  have tcp: "tc_handle st1 \<noteq> tc_handle st" if "tcp j = Some st1" "j \<noteq> k" for j st1
    using ok k that unfolding conns_ok_def by blast
  have udp: "udp j \<noteq> Some (tc_handle st)" for j
    using conns_udp(1) [OF ok, of j "tc_handle st"] so by auto
  have own: "owned (tcp(k := None)) udp g x" if "owned tcp udp g x" "g \<noteq> tc_handle st" for g and x :: "'t + 'u"
    by (rule owned_mono [OF that(1)]) (use that(2) k in auto)
  have fin: "finite (dom (so(tc_handle st := None)))" using ok by (simp add: conns_ok_def)
  show ?thesis
    unfolding conns_ok_def
  proof (intro conjI allI impI)
    fix j j' st1 st2
    assume "(tcp(k := None)) j = Some st1" "(tcp(k := None)) j' = Some st2" "tc_handle st1 = tc_handle st2"
    then have "tcp j = Some st1" "tcp j' = Some st2" "tc_handle st1 = tc_handle st2" by (auto split: if_splits)
    then show "j = j'" using ok unfolding conns_ok_def by blast
  next
    fix j st1 assume "(tcp(k := None)) j = Some st1"
    then show "conn_ok ((so(tc_handle st := None)) (tc_handle st1)) st1" "0 < j" "j < n" "udp j = None"
      using ok tcp [of j st1] by (auto simp: conns_ok_def split: if_splits)
  next
    fix j g assume "udp j = Some g"
    then show "\<exists>u. (so(tc_handle st := None)) g = Some (Inr u)" "0 < j" "j < n"
      using ok udp [of j] by (auto simp: conns_ok_def)
  next
    fix g x assume "(so(tc_handle st := None)) g = Some x"
    then show "owned (tcp(k := None)) udp g x"
      using ok own by (auto simp: conns_ok_def split: if_splits)
  next
    fix j j' g assume "udp j = Some g" "udp j' = Some g"
    then show "j = j'" using ok unfolding conns_ok_def by blast
  qed (use fin in simp)
qed

lemma conns_add_tcp:
  fixes so :: "nat \<Rightarrow> ('t + 'u) option"
  assumes ok: "conns_ok so tcp udp n" and h: "tc_handle st \<notin> dom so" and n: "0 < n"
    and flags: "from_stack_rx st = (connect_resp st \<noteq> None)" "established st = (connect_resp st = None)"
  shows "conns_ok (so(tc_handle st \<mapsto> Inl t)) (tcp(n \<mapsto> st)) udp (Suc n)"
proof -
  have new: "tcp n = None" "udp n = None"
    using conns_tcp(4) [OF ok, of n] conns_udp(2) [OF ok, of n] by (cases "tcp n"; cases "udp n"; auto)+
  have tcp: "tc_handle st1 \<noteq> tc_handle st" if "tcp j = Some st1" for j st1
    using conns_tcp(1) [OF ok that] h by auto
  have udp: "udp j \<noteq> Some (tc_handle st)" for j
    using conns_udp(1) [OF ok, of j "tc_handle st"] h by auto
  have own: "owned (tcp(n \<mapsto> st)) udp g x" if "owned tcp udp g x" for g and x :: "'t + 'u"
    by (rule owned_mono [OF that]) (use new in auto)
  have own0: "owned (tcp(n \<mapsto> st)) udp (tc_handle st) (Inl t :: 't + 'u)" by (auto simp: owned_def)
  have fin: "finite (dom (so(tc_handle st \<mapsto> Inl t)))" using ok by (simp add: conns_ok_def)
  show ?thesis
    unfolding conns_ok_def
  proof (intro conjI allI impI)
    fix j j' st1 st2
    assume a: "(tcp(n \<mapsto> st)) j = Some st1" "(tcp(n \<mapsto> st)) j' = Some st2" "tc_handle st1 = tc_handle st2"
    show "j = j'"
    proof (cases "j = n \<or> j' = n")
      case True
      then show ?thesis using a tcp by (metis fun_upd_def option.sel)
    next
      case False
      then have "tcp j = Some st1" "tcp j' = Some st2" using a by auto
      then show ?thesis using a(3) ok unfolding conns_ok_def by blast
    qed
  next
    fix j st1 assume "(tcp(n \<mapsto> st)) j = Some st1"
    then show "conn_ok ((so(tc_handle st \<mapsto> Inl t)) (tc_handle st1)) st1" "0 < j" "j < Suc n" "udp j = None"
      using ok tcp [of j st1] new n flags by (auto simp: conns_ok_def conn_ok_def less_Suc_eq split: if_splits)
  next
    fix j g assume "udp j = Some g"
    then show "\<exists>u. (so(tc_handle st \<mapsto> Inl t)) g = Some (Inr u)" "0 < j" "j < Suc n"
      using ok udp [of j] by (auto simp: conns_ok_def less_Suc_eq)
  next
    fix g x assume "(so(tc_handle st \<mapsto> Inl t)) g = Some x"
    then show "owned (tcp(n \<mapsto> st)) udp g x"
      using ok own own0 by (auto simp: conns_ok_def split: if_splits)
  next
    fix j j' g assume "udp j = Some g" "udp j' = Some g"
    then show "j = j'" using ok unfolding conns_ok_def by blast
  qed (use fin in simp)
qed

lemma socket_kind:
  fixes a :: "('t + 'u) option"
  shows "(\<exists>t. a = Some (Inl t)) = (map_option isl a = Some True)"
    and "(\<exists>u. a = Some (Inr u)) = (map_option isl a = Some False)"
  by (cases a; auto simp: isl_def; metis sum.exhaust)+

lemma conns_same_kinds:
  assumes ok: "conns_ok so tcp udp n"
    and kinds: "\<And>h. map_option isl (so' h) = map_option isl (so h)"
  shows "conns_ok so' tcp udp n"
proof -
  have tcp: "(\<exists>t. so' h = Some (Inl t)) = (\<exists>t. so h = Some (Inl t))" for h
    using kinds [of h] by (simp add: socket_kind)
  have udp: "(\<exists>u. so' h = Some (Inr u)) = (\<exists>u. so h = Some (Inr u))" for h
    using kinds [of h] by (simp add: socket_kind)
  have dom: "dom so' = dom so"
  proof -
    have "(so' h = None) = (so h = None)" for h using kinds [of h] by (cases "so h"; cases "so' h") auto
    then show ?thesis by (simp add: dom_def)
  qed
  have own: "owned tcp udp h x'" if "so' h = Some x'" "so h = Some x" "owned tcp udp h x" for h x x'
    using kinds [of h] that by (cases x; cases x') (auto simp: owned_def)
  show ?thesis
    unfolding conns_ok_def
  proof (intro conjI allI impI)
    fix h x' assume x': "so' h = Some x'"
    then obtain x where "so h = Some x" using dom by (metis domD domI)
    then show "owned tcp udp h x'" using ok own x' by (auto simp: conns_ok_def)
  next
    fix j j' st1 st2 assume "tcp j = Some st1" "tcp j' = Some st2" "tc_handle st1 = tc_handle st2"
    then show "j = j'" using ok unfolding conns_ok_def by blast
  next
    fix j j' g assume "udp j = Some g" "udp j' = Some g"
    then show "j = j'" using ok unfolding conns_ok_def by blast
  qed (use ok in \<open>auto simp: conns_ok_def conn_ok_def tcp udp dom\<close>)
qed

lemma conns_add_udp:
  fixes so :: "nat \<Rightarrow> ('t + 'u) option"
  assumes ok: "conns_ok so tcp udp n" and h: "h \<notin> dom so" and n: "0 < n"
  shows "conns_ok (so(h \<mapsto> Inr u)) tcp (udp(n \<mapsto> h)) (Suc n)"
proof -
  have new: "tcp n = None" "udp n = None"
    using conns_tcp(4) [OF ok, of n] conns_udp(2) [OF ok, of n] by (cases "tcp n"; cases "udp n"; auto)+
  have tcp: "tc_handle st1 \<noteq> h" if "tcp j = Some st1" for j st1
    using conns_tcp(1) [OF ok that] h by auto
  have udp: "udp j \<noteq> Some h" for j
    using conns_udp(1) [OF ok, of j h] h by auto
  have own: "owned tcp (udp(n \<mapsto> h)) g x" if "owned tcp udp g x" for g and x :: "'t + 'u"
    by (rule owned_mono [OF that]) (use new in auto)
  have own0: "owned tcp (udp(n \<mapsto> h)) h (Inr u :: 't + 'u)" by (auto simp: owned_def)
  show ?thesis
    unfolding conns_ok_def
  proof (intro conjI allI impI)
    fix j j' g assume a: "(udp(n \<mapsto> h)) j = Some g" "(udp(n \<mapsto> h)) j' = Some g"
    show "j = j'"
    proof (cases "j = n \<or> j' = n")
      case True
      then show ?thesis using a udp by (metis fun_upd_def)
    next
      case False
      then have "udp j = Some g" "udp j' = Some g" using a by auto
      then show ?thesis using ok unfolding conns_ok_def by blast
    qed
  next
    fix j j' st1 st2 assume "tcp j = Some st1" "tcp j' = Some st2" "tc_handle st1 = tc_handle st2"
    then show "j = j'" using ok unfolding conns_ok_def by blast
  next
    fix j st1 assume j: "tcp j = Some st1"
    then show "conn_ok ((so(h \<mapsto> Inr u)) (tc_handle st1)) st1" "0 < j" "j < Suc n" "(udp(n \<mapsto> h)) j = None"
      using ok tcp [of j st1] new by (auto simp: conns_ok_def less_Suc_eq)
  next
    fix j g assume "(udp(n \<mapsto> h)) j = Some g"
    then show "\<exists>u'. (so(h \<mapsto> Inr u)) g = Some (Inr u')" "0 < j" "j < Suc n"
      using ok udp [of j] n by (auto simp: conns_ok_def less_Suc_eq split: if_splits)
  next
    fix g x assume "(so(h \<mapsto> Inr u)) g = Some x"
    then show "owned tcp (udp(n \<mapsto> h)) g x"
      using ok own own0 by (auto simp: conns_ok_def split: if_splits)
  qed (use ok in \<open>simp add: conns_ok_def\<close>)
qed

lemma conns_remove_udp:
  fixes so :: "nat \<Rightarrow> ('t + 'u) option"
  assumes ok: "conns_ok so tcp udp n" and k: "udp k = Some h"
  shows "conns_ok (so(h := None)) tcp (udp(k := None)) n"
proof -
  have so: "\<exists>u. so h = Some (Inr u)" using conns_udp(1) [OF ok k] .
  have tcp: "tc_handle st1 \<noteq> h" if "tcp j = Some st1" for j st1
    using conns_tcp(1) [OF ok that] so by auto
  have udp: "udp j \<noteq> Some h" if "j \<noteq> k" for j
    using ok k that unfolding conns_ok_def by blast
  have own: "owned tcp (udp(k := None)) g x" if "owned tcp udp g x" "g \<noteq> h" for g and x :: "'t + 'u"
    by (rule owned_mono [OF that(1)]) (use that(2) k in auto)
  show ?thesis
    unfolding conns_ok_def
  proof (intro conjI allI impI)
    fix j j' g assume "(udp(k := None)) j = Some g" "(udp(k := None)) j' = Some g"
    then have "udp j = Some g" "udp j' = Some g" by (auto split: if_splits)
    then show "j = j'" using ok unfolding conns_ok_def by blast
  next
    fix j j' st1 st2 assume "tcp j = Some st1" "tcp j' = Some st2" "tc_handle st1 = tc_handle st2"
    then show "j = j'" using ok unfolding conns_ok_def by blast
  next
    fix j st1 assume j: "tcp j = Some st1"
    then show "conn_ok ((so(h := None)) (tc_handle st1)) st1" "0 < j" "j < n" "(udp(k := None)) j = None"
      using ok tcp [of j st1] by (auto simp: conns_ok_def)
  next
    fix j g assume "(udp(k := None)) j = Some g"
    then show "\<exists>u'. (so(h := None)) g = Some (Inr u')" "0 < j" "j < n"
      using ok udp [of j] by (auto simp: conns_ok_def split: if_splits)
  next
    fix g x assume "(so(h := None)) g = Some x"
    then show "owned tcp (udp(k := None)) g x"
      using ok own by (auto simp: conns_ok_def split: if_splits)
  qed (use ok in \<open>simp add: conns_ok_def\<close>)
qed

subsection \<open>Every operation keeps it\<close>

lemma deliver_total: "(\<And>i. f i \<noteq> Stuck) \<Longrightarrow> \<exists>taken gone. deliver f i vs = Some (taken, gone)"
proof (induction vs arbitrary: i)
  case (Cons v vs)
  obtain taken gone where "deliver f (Suc i) vs = Some (taken, gone)" using Cons by blast
  then show ?case using Cons.prems [of i] by (cases "f i") auto
qed (auto intro: exI [of _ False])

lemma deliver_all: "deliver f i vs = Some (taken, gone) \<Longrightarrow> (\<And>i. f i \<noteq> Gone) \<Longrightarrow> taken = vs \<and> \<not> gone"
  by (induction vs arbitrary: i taken gone) (auto split: app_send.splits)

lemma flush_queue_total: "(\<And>i. f i \<noteq> Stuck) \<Longrightarrow> \<exists>sent left. flush_queue f i ps = Some (sent, left)"
proof (induction ps arbitrary: i)
  case (Cons p ps)
  obtain sent left where "flush_queue f (Suc i) ps = Some (sent, left)" using Cons by blast
  then show ?case using Cons.prems [of i] by (cases "f i") auto
qed simp

lemma send_pending_entry:
  "send_pending sm t st = Some (t', st') \<Longrightarrow> \<exists>n. st' = st\<lparr>pending := drop n (pending st)\<rparr>"
  by (fastforce simp: send_pending_def Let_def split: if_splits prod.splits intro: exI [of _ 0])

lemma serve_socket_entry:
  "serve_socket sm app st t = Some (t', st', taken, closed) \<Longrightarrow> \<exists>n. st' = st\<lparr>pending := drop n (pending st)\<rparr>"
  by (auto simp: serve_socket_def Let_def split: prod.splits bind_splits dest: send_pending_entry)

lemma ns_tcp:
  assumes "ns_ok s" "tcp_conns s k = Some st"
  shows "\<exists>t. socks s (tc_handle st) = Some (Inl t)" "from_stack_rx st = (connect_resp st \<noteq> None)"
    "established st = (connect_resp st = None)" "k < next_id s"
  using conns_tcp [of "socks s" "tcp_conns s" "udp_conns s" "next_id s" k st] assms by (simp_all add: ns_ok_def)

lemma ns_udp:
  assumes "ns_ok s" "udp_conns s k = Some h"
  shows "\<exists>u. socks s h = Some (Inr u)" "k < next_id s"
  using conns_udp [of "socks s" "tcp_conns s" "udp_conns s" "next_id s" k h] assms by (simp_all add: ns_ok_def)

lemma entry_ok:
  assumes "ns_ok s" "tcp_conns s k = Some st0" "tc_handle st = tc_handle st0"
    "from_stack_rx st = (connect_resp st \<noteq> None)" "established st = (connect_resp st = None)"
  shows "ns_ok (s\<lparr>tcp_conns := (tcp_conns s)(k \<mapsto> st)\<rparr>)"
proof -
  obtain t where "socks s (tc_handle st0) = Some (Inl t)" using ns_tcp(1) [OF assms(1, 2)] ..
  then have "(socks s)(tc_handle st0 \<mapsto> Inl t) = socks s" by (auto simp: fun_upd_idem)
  then show ?thesis
    using assms conns_update_tcp [of "socks s" "tcp_conns s" "udp_conns s" "next_id s" k st0 st t]
    by (simp add: ns_ok_def)
qed

definition served :: "nat \<Rightarrow> tcp_conn \<Rightarrow> 't \<Rightarrow> bytes list \<Rightarrow> ('i, 't, 'u) netstack \<Rightarrow> ('i, 't, 'u) netstack" where
  "served k st t taken s =
     s\<lparr>socks := (socks s)(tc_handle st \<mapsto> Inl t), tcp_conns := (tcp_conns s)(k \<mapsto> st),
       app_tcp := app_tcp s @ map (Pair k) taken\<rparr>"

lemma serve_openE:
  assumes "serve_open sm app k st t s = Some s'"
  obtains t' st' taken closed where "serve_socket sm app st t = Some (t', st', taken, closed)"
    "s' = (if closed \<and> established st' then remove_tcp k (tc_handle st') (served k st' t' taken s)
           else served k st' t' taken s)"
  using assms by (auto simp: serve_open_def served_def Let_def split: bind_splits)

lemma served_ok:
  assumes "ns_ok s" "tcp_conns s k = Some st0" "tc_handle st = tc_handle st0"
    "from_stack_rx st = (connect_resp st \<noteq> None)" "established st = (connect_resp st = None)"
  shows "ns_ok (served k st t taken s)"
  using assms conns_update_tcp [of "socks s" "tcp_conns s" "udp_conns s" "next_id s" k st0 st t]
  by (simp add: ns_ok_def served_def)

lemma remove_tcp_ok:
  assumes "ns_ok s" "tcp_conns s k = Some st" "h = tc_handle st"
  shows "ns_ok (remove_tcp k h s)"
  using assms conns_remove_tcp [of "socks s" "tcp_conns s" "udp_conns s" "next_id s" k st]
  by (simp add: ns_ok_def remove_tcp_def)

lemma serve_open_ok:
  assumes ok: "ns_ok s" "tcp_conns s k = Some st0" "tc_handle st = tc_handle st0"
      "from_stack_rx st = (connect_resp st \<noteq> None)" "established st = (connect_resp st = None)"
    and r: "serve_open sm app k st t s = Some s'"
  shows "ns_ok s'"
proof -
  obtain t' st' taken closed where so: "serve_socket sm app st t = Some (t', st', taken, closed)"
    and s': "s' = (if closed \<and> established st' then remove_tcp k (tc_handle st') (served k st' t' taken s)
                   else served k st' t' taken s)"
    by (rule serve_openE [OF r])
  obtain n where st': "st' = st\<lparr>pending := drop n (pending st)\<rparr>" using serve_socket_entry [OF so] ..
  have "ns_ok (served k st' t' taken s)" using served_ok [OF ok(1, 2), of st'] ok st' by simp
  moreover have "tcp_conns (served k st' t' taken s) k = Some st'" by (simp add: served_def)
  ultimately show ?thesis using s' remove_tcp_ok by auto
qed

context socket_set begin

lemma send_pending_total: "\<exists>t' st'. send_pending sm t st = Some (t', st')"
  using send_takes [of "pending st" t] by (fastforce simp: send_pending_def Let_def split: prod.splits option.splits)

lemma serve_socket_total:
  assumes "\<And>i. app i \<noteq> Stuck"
  shows "\<exists>t' st' taken closed. serve_socket sm app st t = Some (t', st', taken, closed)"
proof -
  obtain t1 st1 where 1: "send_pending sm t st = Some (t1, st1)" using send_pending_total by blast
  obtain t2 cs where 2: "recv_chunks sm MAX_RECV_CHUNKS (close_if sm (half_closed st1 \<and> pending st1 = []) t1) = (t2, cs)"
    by fastforce
  obtain taken gone where 3: "deliver app 0 cs = Some (taken, gone)" using deliver_total assms by blast
  show ?thesis using 1 2 3 by (simp add: serve_socket_def Let_def)
qed

lemma serve_open_total:
  assumes "\<And>i. app i \<noteq> Stuck"
  shows "\<exists>s'. serve_open sm app k st t s = Some s'"
  using serve_socket_total [of app st t] assms by (auto simp: serve_open_def Let_def)

end

lemma announce_entry: "announce k st as = (st', as') \<Longrightarrow> tc_handle st' = tc_handle st \<and> established st' \<and> connect_resp st' = None \<and> \<not> from_stack_rx st' \<and> pending st' = pending st"
  by (auto simp: announce_def)

lemma refuse_ok: "ns_ok s \<Longrightarrow> tcp_conns s k = Some st \<Longrightarrow> ns_ok (refuse k st s)"
  unfolding refuse_def by (rule remove_tcp_ok [where st = st]) (simp_all add: ns_ok_def)

text \<open>The two ways through the body for a connection: refused, or served.\<close>

definition announced :: "('i, 't, 'u) smoltcp \<Rightarrow> nat \<Rightarrow> tcp_conn \<Rightarrow> 't \<Rightarrow> (nat \<times> (str + nat)) list \<Rightarrow> tcp_conn \<times> (nat \<times> (str + nat)) list" where
  "announced sm k st t as = (if \<not> established st \<and> sm_state sm t = TcpEstablished then announce k st as else (st, as))"

lemma serve_conn_cases:
  assumes ok: "ns_ok s" and r: "serve_conn sm app k s = Some s'"
  obtains (missing) "tcp_conns s k = None" "s' = s"
    | (refused) st where "tcp_conns s k = Some st" "\<not> established st" "s' = refuse k st s"
    | (served) st t st1 as where "tcp_conns s k = Some st" "socks s (tc_handle st) = Some (Inl t)"
        "announced sm k st t (answers s) = (st1, as)" "serve_open sm app k st1 t (s\<lparr>answers := as\<rparr>) = Some s'"
proof (cases "tcp_conns s k")
  case (Some st)
  obtain t where t: "socks s (tc_handle st) = Some (Inl t)"
    using ns_tcp(1) [OF ok Some] ..
  obtain st1 as where a: "announced sm k st t (answers s) = (st1, as)" by (cases "announced sm k st t (answers s)")
  have r: "(if \<not> established st1 \<and> (sm_state sm t = TcpClosed \<or> sm_state sm t = TcpTimeWait)
      then Some (refuse k st1 (s\<lparr>answers := as\<rparr>)) else serve_open sm app k st1 t (s\<lparr>answers := as\<rparr>)) = Some s'"
  proof -
    have "get_tcp (tc_handle st) s = Some t" using t by (simp add: get_tcp_def)
    then show ?thesis using r a unfolding serve_conn_def Some announced_def Let_def by simp
  qed
  show ?thesis
  proof (cases "\<not> established st1 \<and> (sm_state sm t = TcpClosed \<or> sm_state sm t = TcpTimeWait)")
    case True
    have same: "st1 = st" "as = answers s"
    proof -
      have "\<not> (\<not> established st \<and> sm_state sm t = TcpEstablished)"
        using a True announce_entry [of k st "answers s" st1 as] by (auto simp: announced_def)
      then have "announced sm k st t (answers s) = (st, answers s)" unfolding announced_def by (rule if_not_P)
      then show "st1 = st" "as = answers s" using a by simp_all
    qed
    from r have "Some (refuse k st1 (s\<lparr>answers := as\<rparr>)) = Some s'" unfolding if_P [OF True] .
    then have s': "s' = refuse k st s" using same by simp
    have "\<not> established st" using True same(1) by simp
    then show ?thesis by (rule refused [OF Some _ s'])
  next
    case False
    from r have "serve_open sm app k st1 t (s\<lparr>answers := as\<rparr>) = Some s'" unfolding if_not_P [OF False] .
    then show ?thesis by (rule served [OF Some t a])
  qed
next
  case None
  then have "s' = s" using r by (simp add: serve_conn_def)
  then show ?thesis by (rule missing [OF None])
qed

lemma serve_conn_ok:
  assumes ok: "ns_ok s" and r: "serve_conn sm app k s = Some s'"
  shows "ns_ok s'"
  using ok r
proof (cases rule: serve_conn_cases)
  case (refused st)
  then show ?thesis using refuse_ok ok by simp
next
  case (served st t st1 as)
  have fl: "from_stack_rx st = (connect_resp st \<noteq> None)" "established st = (connect_resp st = None)"
    using ns_tcp(2, 3) [OF ok served(1)] by simp_all
  have "ns_ok (s\<lparr>answers := as\<rparr>)" "tcp_conns (s\<lparr>answers := as\<rparr>) k = Some st" "tc_handle st1 = tc_handle st"
    "from_stack_rx st1 = (connect_resp st1 \<noteq> None)" "established st1 = (connect_resp st1 = None)"
    using ok served(1, 3) fl announce_entry [of k st "answers s" st1 as]
    by (auto simp: ns_ok_def announced_def split: if_splits)
  from serve_open_ok [OF this served(4)] show ?thesis .
qed (use ok in simp)

lemma serve_udp_ok:
  assumes ok: "ns_ok s" and r: "serve_udp sm app k s = Some s'"
  shows "ns_ok s'"
proof (cases "udp_conns s k")
  case (Some h)
  then obtain u where u: "socks s h = Some (Inr u)" using ns_udp(1) [OF ok] by blast
  then obtain u' taken where s': "s' = s\<lparr>socks := (socks s)(h \<mapsto> Inr u'), app_udp := app_udp s @ map (Pair k) taken\<rparr>"
    using r Some by (auto simp: serve_udp_def get_udp_def split: prod.splits bind_splits)
  have "conns_ok ((socks s)(h \<mapsto> Inr u')) (tcp_conns s) (udp_conns s) (next_id s)"
    by (rule conns_same_kinds [of "socks s"]) (use ok u in \<open>auto simp: ns_ok_def\<close>)
  then show ?thesis using ok s' by (simp add: ns_ok_def)
qed (use ok r in \<open>simp add: serve_udp_def\<close>)

lemma service_tcp_ok: "ns_ok s \<Longrightarrow> service_tcp sm app ks s = Some s' \<Longrightarrow> ns_ok s'"
  by (induction ks arbitrary: s) (auto split: bind_splits dest: serve_conn_ok)

lemma service_udp_ok: "ns_ok s \<Longrightarrow> service_udp sm app ks s = Some s' \<Longrightarrow> ns_ok s'"
  by (induction ks arbitrary: s) (auto split: bind_splits dest: serve_udp_ok)

lemma flush_tx_ok: "ns_ok s \<Longrightarrow> flush_tx f s = Some s' \<Longrightarrow> ns_ok s'"
  by (auto simp: flush_tx_def ns_ok_def)

lemma ns_poll_ok: "ns_ok s \<Longrightarrow> ns_ok (ns_poll sm s)"
proof -
  assume ok: "ns_ok s"
  obtain i d tcp udp b where p: "sm_poll sm (iface s) (device s) (socks s) = ((i, d), tcp, udp, b)"
    by (metis prod.exhaust)
  have "conns_ok (\<lambda>h. map_option (map_sum (tcp h) (udp h)) (socks s h)) (tcp_conns s) (udp_conns s) (next_id s)"
    by (rule conns_same_kinds [of "socks s"])
      (use ok in \<open>auto simp: ns_ok_def option.map_comp comp_def isl_map_sum\<close>)
  then show ?thesis using ok p by (simp add: ns_ok_def ns_poll_def)
qed

lemma ns_serviceE:
  assumes "ns_service sm t s = Some s'"
  obtains s1 s2 where
    "service_tcp sm (nt_tcp_app t) (nt_keys t (dom (tcp_conns (ns_poll sm s)))) (ns_poll sm s) = Some s1"
    "service_udp sm (nt_udp_app t) (nt_keys t (dom (udp_conns s1))) s1 = Some s2"
    "flush_tx (nt_out t) s2 = Some s'"
  using assms by (auto simp: ns_service_def Let_def bind_eq_Some_conv)

lemma ns_service_ok: "ns_ok s \<Longrightarrow> ns_service sm t s = Some s' \<Longrightarrow> ns_ok s'"
  by (erule ns_serviceE) (metis ns_poll_ok service_tcp_ok service_udp_ok flush_tx_ok)

lemma handle_data_ok:
  assumes ok: "ns_ok s" and r: "handle_data sm d s = Some s'"
  shows "ns_ok s'"
proof (cases d)
  case (DataTcp k bs)
  show ?thesis
  proof (cases "tcp_conns s k")
    case (Some st)
    then show ?thesis
      using r DataTcp entry_ok [OF ok Some, of "st\<lparr>pending := pending st @ bs\<rparr>"] ns_tcp(2, 3) [OF ok Some] by auto
  qed (use ok r DataTcp in simp)
next
  case (DataUdpClose k)
  then show ?thesis
    using r ok conns_remove_udp [of "socks s" "tcp_conns s" "udp_conns s" "next_id s" k]
    by (auto simp: ns_ok_def split: option.splits if_splits)
next
  case (DataUdp k dst bs)
  show ?thesis
  proof (cases "udp_conns s k")
    case (Some h)
    then obtain u where u: "socks s h = Some (Inr u)" using ns_udp(1) [OF ok] by blast
    have "conns_ok ((socks s)(h \<mapsto> Inr (sm_udp_send sm bs dst u))) (tcp_conns s) (udp_conns s) (next_id s)"
      by (rule conns_same_kinds [of "socks s"]) (use ok u in \<open>auto simp: ns_ok_def\<close>)
    then show ?thesis using ok r DataUdp Some u by (auto simp: ns_ok_def)
  qed (use ok r DataUdp in simp)
next
  case (DataTcpClose k)
  show ?thesis
  proof (cases "tcp_conns s k")
    case (Some st)
    then show ?thesis
      using r DataTcpClose entry_ok [OF ok Some, of "st\<lparr>half_closed := True\<rparr>"] ns_tcp(2, 3) [OF ok Some] by auto
  qed (use ok r DataTcpClose in simp)
qed

lemma handle_all_ok: "ns_ok s \<Longrightarrow> handle_all sm ds s = Some s' \<Longrightarrow> ns_ok s'"
  by (induction ds arbitrary: s) (auto split: bind_splits dest: handle_data_ok)

lemma handle_data_total: "ns_ok s \<Longrightarrow> \<exists>s'. handle_data sm d s = Some s'"
proof (cases d)
  case (DataUdp k dst bs)
  assume "ns_ok s"
  then show ?thesis using DataUdp ns_udp(1) [of s k] by (cases "udp_conns s k") fastforce+
next
  case (DataUdpClose k)
  assume "ns_ok s"
  then show ?thesis using DataUdpClose ns_udp(1) [of s k] by (cases "udp_conns s k") fastforce+
qed (auto split: option.split)

lemma handle_all_total: "ns_ok s \<Longrightarrow> \<exists>s'. handle_all sm ds s = Some s'"
proof (induction ds arbitrary: s)
  case (Cons d ds)
  obtain s1 where s1: "handle_data sm d s = Some s1" using handle_data_total [OF Cons.prems] ..
  from Cons.IH [OF handle_data_ok [OF Cons.prems s1]] s1 show ?case by simp
qed simp

text \<open>What the environment of a turn is taken to do: the hash maps list their keys once each.\<close>

definition keys_ok :: "ns_turn \<Rightarrow> bool" where
  "keys_ok t \<longleftrightarrow> (\<forall>K. finite K \<longrightarrow> set (nt_keys t K) = K \<and> distinct (nt_keys t K))"

definition apps_read :: "ns_turn \<Rightarrow> bool" where
  "apps_read t \<longleftrightarrow> (\<forall>k i. nt_tcp_app t k i \<noteq> Stuck \<and> nt_udp_app t k i \<noteq> Stuck \<and> nt_out t i \<noteq> Stuck)"

context socket_set begin

lemma serve_conn_total:
  assumes ok: "ns_ok s" and app: "\<And>i. app i \<noteq> Stuck"
  shows "\<exists>s'. serve_conn sm app k s = Some s'"
proof (cases "tcp_conns s k")
  case (Some st)
  obtain t where "get_tcp (tc_handle st) s = Some t" using ns_tcp(1) [OF ok Some] by (auto simp: get_tcp_def)
  then show ?thesis
    using Some serve_open_total [OF app] by (auto simp: serve_conn_def Let_def split: prod.split)
qed (simp add: serve_conn_def)

lemma service_tcp_total:
  "ns_ok s \<Longrightarrow> (\<And>k i. app k i \<noteq> Stuck) \<Longrightarrow> \<exists>s'. service_tcp sm app ks s = Some s'"
proof (induction ks arbitrary: s)
  case (Cons k ks)
  obtain s1 where s1: "serve_conn sm (app k) k s = Some s1" using serve_conn_total Cons.prems by blast
  from Cons.IH [OF serve_conn_ok [OF Cons.prems(1) s1] Cons.prems(2)] s1 show ?case by simp
qed simp

lemma serve_udp_total:
  assumes ok: "ns_ok s" and app: "\<And>i. app i \<noteq> Stuck"
  shows "\<exists>s'. serve_udp sm app k s = Some s'"
proof (cases "udp_conns s k")
  case (Some h)
  obtain u where u: "get_udp h s = Some u" using ns_udp(1) [OF ok Some] by (auto simp: get_udp_def)
  obtain u' ps where p: "udp_packets sm MAX_RECV_CHUNKS u = (u', ps)" by fastforce
  obtain taken gone where "deliver app 0 ps = Some (taken, gone)" using deliver_total app by blast
  then show ?thesis using Some u p by (simp add: serve_udp_def)
qed (simp add: serve_udp_def)

lemma service_udp_total:
  "ns_ok s \<Longrightarrow> (\<And>k i. app k i \<noteq> Stuck) \<Longrightarrow> \<exists>s'. service_udp sm app ks s = Some s'"
proof (induction ks arbitrary: s)
  case (Cons k ks)
  obtain s1 where s1: "serve_udp sm (app k) k s = Some s1" using serve_udp_total Cons.prems by blast
  from Cons.IH [OF serve_udp_ok [OF Cons.prems(1) s1] Cons.prems(2)] s1 show ?case by simp
qed simp

lemma ns_service_total:
  assumes ok: "ns_ok s" and app: "apps_read t"
  shows "\<exists>s'. ns_service sm t s = Some s'"
proof -
  let ?s = "ns_poll sm s"
  have ok0: "ns_ok ?s" using ns_poll_ok [OF ok] .
  obtain s1 where s1: "service_tcp sm (nt_tcp_app t) (nt_keys t (dom (tcp_conns ?s))) ?s = Some s1"
    using service_tcp_total [OF ok0, of "nt_tcp_app t" "nt_keys t (dom (tcp_conns ?s))"] app
    by (auto simp: apps_read_def)
  have ok1: "ns_ok s1" using service_tcp_ok [OF ok0 s1] .
  obtain s2 where s2: "service_udp sm (nt_udp_app t) (nt_keys t (dom (udp_conns s1))) s1 = Some s2"
    using service_udp_total [OF ok1, of "nt_udp_app t" "nt_keys t (dom (udp_conns s1))"] app
    by (auto simp: apps_read_def)
  obtain sent left where "flush_queue (nt_out t) 0 (dev_tx (device s2)) = Some (sent, left)"
    using flush_queue_total [of "nt_out t" 0 "dev_tx (device s2)"] app by (auto simp: apps_read_def)
  then show ?thesis using s1 s2 by (simp add: ns_service_def flush_tx_def)
qed

lemma handle_cmd_ok: "ns_ok s \<Longrightarrow> ns_ok (handle_cmd sm c s)"
proof -
  assume ok: "ns_ok s"
  obtain p q where p: "alloc_port (next_port s) = (p, q)" by fastforce
  have q: "49152 \<le> q" "q \<le> 65000" using alloc_port_range [of "next_port s"] ok p by (auto simp: ns_ok_def)
  have h: "sm_slot sm (dom (socks s)) \<notin> dom (socks s)"
    using slot_fresh ok by (simp add: ns_ok_def conns_ok_def)
  show ?thesis
  proof (cases c)
    case (OpenTcp dst resp)
    let ?st = "\<lparr>tc_handle = sm_slot sm (dom (socks s)), from_stack_rx = True, connect_resp = Some resp,
      pending = [], established = False, half_closed = False\<rparr>"
    show ?thesis
      using ok p q h OpenTcp conns_add_tcp [of "socks s" "tcp_conns s" "udp_conns s" "next_id s" ?st]
      by (auto simp: ns_ok_def Let_def split: sum.split)
  next
    case (OpenUdp resp)
    then show ?thesis
      using ok p q conns_add_udp [of "socks s" "tcp_conns s" "udp_conns s" "next_id s", OF _ h]
      by (auto simp: ns_ok_def Let_def split: sum.split)
  next
    case (SetAddrs v4 v6)
    then show ?thesis using ok by (simp add: ns_ok_def)
  qed
qed

lemma ns_step_Go:
  assumes ok: "ns_ok s" and r: "ns_step sm t s = Go s'"
  shows "ns_ok s'"
proof -
  obtain s1 where s1: "ns_service sm t s = Some s1" using r by (auto simp: ns_step_def split: option.splits)
  have ok1: "ns_ok s1" using ns_service_ok [OF ok s1] .
  show ?thesis
  proof (cases "nt_event t")
    case (NsInbound p ps)
    then show ?thesis using r s1 ok1 by (auto simp: ns_step_def ingest_def ns_ok_def)
  next
    case (NsCmd c)
    then show ?thesis using r s1 handle_cmd_ok [OF ok1] by (auto simp: ns_step_def)
  next
    case (NsData d ds)
    then show ?thesis using r s1 handle_all_ok [OF ok1] by (auto simp: ns_step_def simp del: handle_all.simps split: option.splits)
  qed (use r s1 ok1 in \<open>auto simp: ns_step_def\<close>)
qed

lemma ns_step_Stop:
  assumes ok: "ns_ok s" and app: "apps_read t" and r: "ns_step sm t s = Stop r"
  shows "\<exists>s'. r = Some s' \<and> ns_ok s'"
proof -
  obtain s1 where s1: "ns_service sm t s = Some s1" using ns_service_total [OF ok app] ..
  have ok1: "ns_ok s1" using ns_service_ok [OF ok s1] .
  show ?thesis
  proof (cases "nt_event t")
    case (NsData d ds)
    then show ?thesis using r s1 handle_all_total [OF ok1, of sm "d # ds"] by (auto simp: ns_step_def simp del: handle_all.simps)
  qed (use r s1 ok1 in \<open>auto simp: ns_step_def\<close>)
qed

end

subsection \<open>Accounts of the requests\<close>

text \<open>The answer channels held by the entries below a number, as a multiset.\<close>

definition resp_of :: "tcp_conn option \<Rightarrow> nat multiset" where
  "resp_of c = (case c of Some st \<Rightarrow> (case connect_resp st of Some r \<Rightarrow> {#r#} | None \<Rightarrow> {#}) | None \<Rightarrow> {#})"

definition waiting :: "('i, 't, 'u) netstack \<Rightarrow> nat multiset" where
  "waiting s = (\<Sum>k<next_id s. resp_of (tcp_conns s k))"

definition answered :: "('i, 't, 'u) netstack \<Rightarrow> nat multiset" where
  "answered s = image_mset fst (mset (answers s))"

fun request :: "ns_event \<Rightarrow> nat list" where
  "request (NsCmd (OpenTcp _ r)) = [r]"
| "request (NsCmd (OpenUdp r)) = [r]"
| "request _ = []"

lemma waiting_update:
  fixes m :: "nat \<Rightarrow> tcp_conn option"
  assumes "k < n"
  shows "(\<Sum>j<n. resp_of ((m(k := c)) j)) + resp_of (m k) = (\<Sum>j<n. resp_of (m j)) + resp_of c"
proof -
  have "(\<Sum>j<n. resp_of (f j)) = resp_of (f k) + (\<Sum>j\<in>{..<n} - {k}. resp_of (f j))" for f :: "nat \<Rightarrow> tcp_conn option"
    using assms by (simp add: sum.remove)
  from this [of m] this [of "m(k := c)"] show ?thesis by (simp add: ac_simps cong: sum.cong_simp)
qed

lemma accounts_keep:
  assumes "tcp_conns s' = (tcp_conns s)(k := c)" "next_id s' = next_id s" "k < next_id s"
    and "answered s' + resp_of c = answered s + resp_of (tcp_conns s k)"
  shows "answered s' + waiting s' = answered s + waiting s"
proof -
  have "waiting s' + resp_of (tcp_conns s k) = waiting s + resp_of c"
    using waiting_update [OF assms(3), of "tcp_conns s" c] assms(1, 2) by (simp add: waiting_def)
  then have "answered s' + waiting s' + resp_of (tcp_conns s k) + resp_of c
      = answered s + waiting s + resp_of (tcp_conns s k) + resp_of c"
    using assms(4) by (metis (no_types, lifting) add.assoc add.commute)
  then show ?thesis by simp
qed

lemma serve_open_accounts:
  assumes k: "k < next_id s" and r: "serve_open sm app k st t s = Some s'"
    and flags: "established st = (connect_resp st = None)"
  shows "answers s' = answers s \<and> next_id s' = next_id s \<and>
    (\<exists>c. tcp_conns s' = (tcp_conns s)(k := c) \<and> resp_of c = resp_of (Some st))"
proof -
  obtain t' st' taken closed where so: "serve_socket sm app st t = Some (t', st', taken, closed)"
    and s': "s' = (if closed \<and> established st' then remove_tcp k (tc_handle st') (served k st' t' taken s)
                   else served k st' t' taken s)"
    by (rule serve_openE [OF r])
  obtain n where st': "st' = st\<lparr>pending := drop n (pending st)\<rparr>" using serve_socket_entry [OF so] ..
  show ?thesis
  proof (cases "closed \<and> established st'")
    case True
    then have "resp_of None = resp_of (Some st)" using st' flags by (simp add: resp_of_def)
    then show ?thesis using s' True by (auto simp: remove_tcp_def served_def)
  next
    case False
    have "resp_of (Some st') = resp_of (Some st)" using st' by (simp add: resp_of_def)
    then show ?thesis using s' False by (auto simp: served_def)
  qed
qed

lemma serve_conn_accounts:
  assumes ok: "ns_ok s" and r: "serve_conn sm app k s = Some s'"
  shows "answered s' + waiting s' = answered s + waiting s"
  using ok r
proof (cases rule: serve_conn_cases)
  case (refused st)
  have "answered s' + resp_of None = answered s + resp_of (tcp_conns s k)"
    using refused by (auto simp: answered_def refuse_def remove_tcp_def resp_of_def split: option.split)
  then show ?thesis
    using refused ns_tcp(4) [OF ok refused(1)]
    by (intro accounts_keep [of s' s k None]) (simp_all add: refuse_def remove_tcp_def)
next
  case (served st t st1 as)
  let ?s = "s\<lparr>answers := as\<rparr>"
  have k: "k < next_id s" using ns_tcp(4) [OF ok served(1)] .
  have flags: "established st = (connect_resp st = None)" "from_stack_rx st = (connect_resp st \<noteq> None)"
    using ns_tcp(2, 3) [OF ok served(1)] by simp_all
  have ann: "image_mset fst (mset as) + resp_of (Some st1) = answered s + resp_of (Some st) \<and>
      established st1 = (connect_resp st1 = None)"
    using served(3) flags
    by (auto simp: announced_def announce_def answered_def resp_of_def split: if_splits option.splits)
  obtain c where "tcp_conns s' = (tcp_conns s)(k := c)" "resp_of c = resp_of (Some st1)"
      "answers s' = as" "next_id s' = next_id s"
    using serve_open_accounts [OF _ served(4)] k ann by auto
  then show ?thesis
    using k ann served(1) by (intro accounts_keep [of s' s k c]) (simp_all add: answered_def)
qed simp

lemma service_tcp_accounts:
  "ns_ok s \<Longrightarrow> service_tcp sm app ks s = Some s' \<Longrightarrow> answered s' + waiting s' = answered s + waiting s"
proof (induction ks arbitrary: s)
  case (Cons k ks)
  then obtain s1 where "serve_conn sm (app k) k s = Some s1" "service_tcp sm app ks s1 = Some s'"
    by (auto simp: bind_eq_Some_conv)
  then show ?case using Cons.IH [of s1] serve_conn_ok serve_conn_accounts Cons.prems(1) by metis
qed simp

lemma serve_udp_frame:
  "serve_udp sm app k s = Some s' \<Longrightarrow> tcp_conns s' = tcp_conns s \<and> answers s' = answers s \<and> next_id s' = next_id s
    \<and> app_tcp s' = app_tcp s"
  by (auto simp: serve_udp_def split: option.splits prod.splits bind_splits)

lemma service_udp_frame:
  "service_udp sm app ks s = Some s' \<Longrightarrow> tcp_conns s' = tcp_conns s \<and> answers s' = answers s \<and> next_id s' = next_id s
    \<and> app_tcp s' = app_tcp s"
proof (induction ks arbitrary: s)
  case (Cons k ks)
  then obtain s1 where "serve_udp sm (app k) k s = Some s1" "service_udp sm app ks s1 = Some s'"
    by (auto simp: bind_eq_Some_conv)
  then show ?case using Cons.IH [of s1] serve_udp_frame [of sm "app k" k s s1] by simp
qed simp

lemma ns_poll_frame:
  "tcp_conns (ns_poll sm s) = tcp_conns s \<and> udp_conns (ns_poll sm s) = udp_conns s \<and> answers (ns_poll sm s) = answers s
    \<and> next_id (ns_poll sm s) = next_id s \<and> app_tcp (ns_poll sm s) = app_tcp s"
  by (simp add: ns_poll_def split: prod.split)

lemma accounts_cong:
  "tcp_conns s' = tcp_conns s \<Longrightarrow> answers s' = answers s \<Longrightarrow> next_id s' = next_id s \<Longrightarrow>
    answered s' + waiting s' = answered s + waiting s"
  by (simp add: answered_def waiting_def)

lemma ns_service_accounts:
  assumes ok: "ns_ok s" and r: "ns_service sm t s = Some s'"
  shows "answered s' + waiting s' = answered s + waiting s"
proof -
  obtain s1 s2 where p: "service_tcp sm (nt_tcp_app t) (nt_keys t (dom (tcp_conns (ns_poll sm s)))) (ns_poll sm s) = Some s1"
      "service_udp sm (nt_udp_app t) (nt_keys t (dom (udp_conns s1))) s1 = Some s2" "flush_tx (nt_out t) s2 = Some s'"
    using ns_serviceE [OF r] .
  have "answered s' + waiting s' = answered s2 + waiting s2"
    using p(3) by (intro accounts_cong) (auto simp: flush_tx_def)
  also have "\<dots> = answered s1 + waiting s1"
    using service_udp_frame [OF p(2)] by (intro accounts_cong) auto
  also have "\<dots> = answered (ns_poll sm s) + waiting (ns_poll sm s)"
    using service_tcp_accounts [OF ns_poll_ok [OF ok] p(1)] .
  also have "\<dots> = answered s + waiting s"
    using ns_poll_frame [of sm s] by (intro accounts_cong) auto
  finally show ?thesis .
qed

lemma handle_data_accounts:
  assumes ok: "ns_ok s" and r: "handle_data sm d s = Some s'"
  shows "answered s' + waiting s' = answered s + waiting s"
proof (cases d)
  case (DataTcp k bs)
  show ?thesis
  proof (cases "tcp_conns s k")
    case (Some st)
    then show ?thesis
      using r DataTcp ns_tcp(4) [OF ok Some]
      by (intro accounts_keep [of s' s k "Some (st\<lparr>pending := pending st @ bs\<rparr>)"]) (auto simp: answered_def resp_of_def)
  qed (use r DataTcp in simp)
next
  case (DataTcpClose k)
  show ?thesis
  proof (cases "tcp_conns s k")
    case (Some st)
    then show ?thesis
      using r DataTcpClose ns_tcp(4) [OF ok Some]
      by (intro accounts_keep [of s' s k "Some (st\<lparr>half_closed := True\<rparr>)"]) (auto simp: answered_def resp_of_def)
  qed (use r DataTcpClose in simp)
next
  case (DataUdp k dst bs)
  then show ?thesis
    using r by (intro accounts_cong) (auto split: option.splits sum.splits)
next
  case (DataUdpClose k)
  then show ?thesis
    using r by (intro accounts_cong) (auto split: option.splits if_splits)
qed

lemma handle_all_accounts:
  "ns_ok s \<Longrightarrow> handle_all sm ds s = Some s' \<Longrightarrow> answered s' + waiting s' = answered s + waiting s"
proof (induction ds arbitrary: s)
  case (Cons d ds)
  then obtain s1 where "handle_data sm d s = Some s1" "handle_all sm ds s1 = Some s'"
    by (auto simp: bind_eq_Some_conv)
  then show ?case using Cons.IH [of s1] handle_data_ok handle_data_accounts Cons.prems(1) by metis
qed simp

lemma handle_cmd_accounts:
  assumes ok: "ns_ok s"
  shows "answered (handle_cmd sm c s) + waiting (handle_cmd sm c s) = answered s + waiting s + mset (request (NsCmd c))"
proof -
  have new: "tcp_conns s (next_id s) = None" using ns_tcp(4) [OF ok, of "next_id s"] by (cases "tcp_conns s (next_id s)") auto
  have old: "(\<Sum>j<next_id s. resp_of (((tcp_conns s)(next_id s \<mapsto> st)) j)) = waiting s" for st
    unfolding waiting_def by (rule sum.cong) auto
  show ?thesis
  proof (cases c)
    case (OpenTcp dst r)
    show ?thesis
    proof (cases "sm_connect sm (iface s) dst (next_port s)")
      case (Inl e)
      then show ?thesis using OpenTcp by (simp add: alloc_port_def answered_def waiting_def)
    next
      case (Inr sock)
      then show ?thesis using OpenTcp old
        by (simp add: alloc_port_def answered_def Let_def) (simp add: waiting_def resp_of_def)
    qed
  next
    case (OpenUdp r)
    then show ?thesis
      using new by (auto simp: alloc_port_def answered_def waiting_def Let_def resp_of_def split: sum.split)
  next
    case (SetAddrs v4 v6)
    then show ?thesis by (simp add: answered_def waiting_def)
  qed
qed

subsection \<open>The streams\<close>

text \<open>
  What smoltcp promises of a TCP socket, with what it has accepted for sending and what has been
  read from it as byte strings: sending appends what it took, receiving appends what it gave,
  and polling and closing change neither.
\<close>

locale stack_streams = socket_set sm for sm :: "('i, 't, 'u) smoltcp" +
  fixes accepted consumed :: "'t \<Rightarrow> bytes"
  assumes connect_new: "sm_connect sm i dst p = Inr t \<Longrightarrow> accepted t = [] \<and> consumed t = []"
    and send_some: "sm_send sm d t = (t', Some n) \<Longrightarrow> accepted t' = accepted t @ take n d \<and> consumed t' = consumed t"
    and send_none: "sm_send sm d t = (t', None) \<Longrightarrow> accepted t' = accepted t \<and> consumed t' = consumed t"
    and recv_some: "sm_recv sm t = (t', Some v) \<Longrightarrow> accepted t' = accepted t \<and> consumed t' = consumed t @ v"
    and recv_none: "sm_recv sm t = (t', None) \<Longrightarrow> accepted t' = accepted t \<and> consumed t' = consumed t"
    and close_keeps: "accepted (sm_close sm t) = accepted t \<and> consumed (sm_close sm t) = consumed t"
    and poll_keeps: "sm_poll sm i dev so = (id', tcp, udp, b) \<Longrightarrow> accepted (tcp h t) = accepted t \<and> consumed (tcp h t) = consumed t"

definition delivered :: "nat \<Rightarrow> ('i, 't, 'u) netstack \<Rightarrow> bytes" where
  "delivered k s = concat (map snd (filter (\<lambda>p. fst p = k) (app_tcp s)))"

fun data_of :: "nat \<Rightarrow> data_in \<Rightarrow> bytes" where
  "data_of k (DataTcp j bs) = (if j = k then bs else [])"
| "data_of k _ = []"

fun written :: "nat \<Rightarrow> ns_event \<Rightarrow> bytes" where
  "written k (NsData d ds) = concat (map (data_of k) (d # ds))"
| "written k _ = []"

definition at_conn :: "('i, 't, 'u) netstack \<Rightarrow> nat \<Rightarrow> tcp_conn \<Rightarrow> 't \<Rightarrow> bool" where
  "at_conn s k st t \<longleftrightarrow> tcp_conns s k = Some st \<and> socks s (tc_handle st) = Some (Inl t)"

lemma handles_differ:
  assumes "ns_ok s" "tcp_conns s k = Some st" "tcp_conns s j = Some st'" "j \<noteq> k"
  shows "tc_handle st' \<noteq> tc_handle st"
  using assms unfolding ns_ok_def conns_ok_def by blast

lemma delivered_other: "j \<noteq> k \<Longrightarrow> concat (map snd (filter (\<lambda>p. fst p = k) (map (Pair j) vs))) = []"
  by (induction vs) auto

lemma delivered_own: "concat (map snd (filter (\<lambda>p. fst p = k) (map (Pair k) vs))) = concat vs"
  by (induction vs) auto

text \<open>Serving one connection leaves the others as they are.\<close>

lemma serve_open_other:
  assumes r: "serve_open sm app j st t s = Some s'" and jk: "j \<noteq> k" and h: "tc_handle st \<noteq> tc_handle st'"
  shows "at_conn s' k st' t' = at_conn s k st' t' \<and> tcp_conns s' k = tcp_conns s k \<and> delivered k s' = delivered k s
    \<and> answers s' = answers s"
proof -
  obtain t1 st1 taken closed where so: "serve_socket sm app st t = Some (t1, st1, taken, closed)"
    and s': "s' = (if closed \<and> established st1 then remove_tcp j (tc_handle st1) (served j st1 t1 taken s)
                   else served j st1 t1 taken s)"
    by (rule serve_openE [OF r])
  obtain n where "st1 = st\<lparr>pending := drop n (pending st)\<rparr>" using serve_socket_entry [OF so] ..
  then show ?thesis
    using s' jk h delivered_other [OF jk]
    by (simp add: at_conn_def remove_tcp_def served_def delivered_def)
qed

lemma serve_conn_other:
  assumes ok: "ns_ok s" and r: "serve_conn sm app j s = Some s'" and jk: "j \<noteq> k"
    and st': "tcp_conns s k = Some st'"
  shows "at_conn s' k st' t' = at_conn s k st' t' \<and> tcp_conns s' k = Some st' \<and> delivered k s' = delivered k s"
  using ok r
proof (cases rule: serve_conn_cases)
  case (refused st)
  have "tc_handle st \<noteq> tc_handle st'" using handles_differ [OF ok st' refused(1) jk] .
  then show ?thesis using refused jk st' by (simp add: at_conn_def refuse_def remove_tcp_def delivered_def)
next
  case (served st t st1 as)
  have "tc_handle st \<noteq> tc_handle st'" using handles_differ [OF ok st' served(1) jk] .
  moreover have "tc_handle st1 = tc_handle st"
    using served(3) announce_entry [of j st "answers s" st1 as] by (auto simp: announced_def split: if_splits)
  ultimately have "tc_handle st1 \<noteq> tc_handle st'" by simp
  from serve_open_other [OF served(4) jk this, of t'] st' show ?thesis by (auto simp: at_conn_def delivered_def)
qed (use st' in simp)

lemma serve_conn_none:
  assumes ok: "ns_ok s" and r: "serve_conn sm app j s = Some s'" and none: "tcp_conns s k = None"
  shows "tcp_conns s' k = None"
proof (cases "j = k")
  case True
  then show ?thesis using r none by (simp add: serve_conn_def)
next
  case False
  show ?thesis
    using ok r
  proof (cases rule: serve_conn_cases)
    case (refused st)
    then show ?thesis using none by (simp add: refuse_def remove_tcp_def)
  next
    case (served st t st1 as)
    obtain t' st' taken closed where
      "s' = (if closed \<and> established st' then remove_tcp j (tc_handle st') (served j st' t' taken (s\<lparr>answers := as\<rparr>))
             else served j st' t' taken (s\<lparr>answers := as\<rparr>))"
      by (rule serve_openE [OF served(4)])
    then show ?thesis using none False by (simp add: remove_tcp_def served_def)
  qed (use none in simp)
qed

context stack_streams begin

lemma recv_chunks_reads:
  "recv_chunks sm n t = (t', vs) \<Longrightarrow> accepted t' = accepted t \<and> consumed t' = consumed t @ concat vs"
proof (induction n arbitrary: t t' vs)
  case (Suc n)
  show ?case
  proof (cases "sm_can_recv sm t")
    case True
    obtain t1 r where r: "sm_recv sm t = (t1, r)" by fastforce
    show ?thesis
    proof (cases r)
      case None
      then show ?thesis using Suc.prems True r recv_none [of t t1] by auto
    next
      case (Some v)
      have v: "accepted t1 = accepted t \<and> consumed t1 = consumed t @ v" using recv_some r Some by blast
      show ?thesis
      proof (cases "v = []")
        case False
        obtain t2 ws where ws: "recv_chunks sm n t1 = (t2, ws)" by fastforce
        then have "t' = t2" "vs = v # ws" using Suc.prems True r Some False by auto
        then show ?thesis using Suc.IH [OF ws] v by simp
      qed (use Suc.prems True r Some v in auto)
    qed
  qed (use Suc.prems in auto)
qed simp

lemma close_if_keeps: "accepted (close_if sm b t) = accepted t \<and> consumed (close_if sm b t) = consumed t"
  using close_keeps by (simp add: close_if_def)

lemma send_pending_streams:
  assumes "send_pending sm t st = Some (t', st')"
  shows "accepted t' @ pending st' = accepted t @ pending st \<and> consumed t' = consumed t"
proof (cases "sm_can_send sm t \<and> pending st \<noteq> []")
  case True
  obtain t1 r where r: "sm_send sm (pending st) t = (t1, r)" by fastforce
  show ?thesis
  proof (cases r)
    case None
    then show ?thesis using assms True r send_none [of "pending st" t t1] by (auto simp: send_pending_def)
  next
    case (Some n)
    then show ?thesis
      using assms True r send_some [of "pending st" t t1 n] by (auto simp: send_pending_def Let_def split: if_splits)
  qed
qed (use assms in \<open>auto simp: send_pending_def\<close>)

lemma serve_socket_streams:
  assumes r: "serve_socket sm app st t = Some (t', st', taken, closed)" and app: "\<And>i. app i \<noteq> Gone"
  shows "accepted t' @ pending st' = accepted t @ pending st \<and> consumed t' = consumed t @ concat taken"
proof -
  obtain t1 st1 where 1: "send_pending sm t st = Some (t1, st1)"
    using r by (auto simp: serve_socket_def bind_eq_Some_conv)
  obtain t2 cs where 2: "recv_chunks sm MAX_RECV_CHUNKS (close_if sm (half_closed st1 \<and> pending st1 = []) t1) = (t2, cs)"
    by fastforce
  obtain gone where 3: "deliver app 0 cs = Some (taken, gone)" "st' = st1"
      "t' = close_if sm (sm_state sm (close_if sm gone t2) = TcpCloseWait) (close_if sm gone t2)"
    using r 1 2 by (auto simp: serve_socket_def bind_eq_Some_conv Let_def)
  have "taken = cs" using deliver_all [OF 3(1)] app by blast
  then show ?thesis using send_pending_streams [OF 1] recv_chunks_reads [OF 2] 3 close_if_keeps by simp
qed

end

text \<open>
  \<open>follows k ws s s'\<close>: if connection \<open>k\<close> is live after, it was live before; what was submitted
  grew by \<open>ws\<close>, and what was read from its socket was delivered.
\<close>

context stack_streams begin

definition follows :: "nat \<Rightarrow> bytes \<Rightarrow> ('i, 't, 'u) netstack \<Rightarrow> ('i, 't, 'u) netstack \<Rightarrow> bool" where
  "follows k ws s s' \<longleftrightarrow>
     (\<forall>st' t'. at_conn s' k st' t' \<longrightarrow>
        (\<exists>st t d. at_conn s k st t \<and> accepted t' @ pending st' = accepted t @ pending st @ ws \<and>
           consumed t' = consumed t @ d \<and> delivered k s' = delivered k s @ d))"

lemma follows_same:
  assumes "\<And>st t. at_conn s' k st t \<Longrightarrow> at_conn s k st t" "delivered k s' = delivered k s"
  shows "follows k [] s s'"
  using assms by (auto simp: follows_def)

lemma follows_gone: "tcp_conns s' k = None \<Longrightarrow> follows k ws s s'"
  by (simp add: follows_def at_conn_def)

lemma follows_trans:
  assumes "follows k ws s s1" "follows k ws' s1 s'"
  shows "follows k (ws @ ws') s s'"
  unfolding follows_def
proof (intro allI impI)
  fix st' t' assume "at_conn s' k st' t'"
  with assms(2) obtain st1 t1 d1 where 1: "at_conn s1 k st1 t1" "accepted t' @ pending st' = accepted t1 @ pending st1 @ ws'"
      "consumed t' = consumed t1 @ d1" "delivered k s' = delivered k s1 @ d1"
    unfolding follows_def by blast
  with assms(1) obtain st t d where 2: "at_conn s k st t" "accepted t1 @ pending st1 = accepted t @ pending st @ ws"
      "consumed t1 = consumed t @ d" "delivered k s1 = delivered k s @ d"
    unfolding follows_def by blast
  have "accepted t' @ pending st' = (accepted t1 @ pending st1) @ ws'" using 1(2) by simp
  then show "\<exists>st t d. at_conn s k st t \<and> accepted t' @ pending st' = accepted t @ pending st @ ws @ ws' \<and>
      consumed t' = consumed t @ d \<and> delivered k s' = delivered k s @ d"
    using 1 2 by (intro exI [of _ st] exI [of _ t] exI [of _ "d @ d1"]) simp
qed

lemma serve_conn_follows:
  assumes ok: "ns_ok s" and r: "serve_conn sm app j s = Some s'" and app: "j = k \<Longrightarrow> \<forall>i. app i \<noteq> Gone"
  shows "follows k [] s s'"
proof (cases "tcp_conns s k")
  case None
  then show ?thesis using follows_gone serve_conn_none [OF ok r] by blast
next
  case (Some st0)
  show ?thesis
  proof (cases "j = k")
    case False
    from serve_conn_other [OF ok r False Some] show ?thesis
      by (intro follows_same) (auto simp: at_conn_def)
  next
    case True
    show ?thesis
      using ok r
    proof (cases rule: serve_conn_cases)
      case (refused st)
      then show ?thesis using True by (intro follows_gone) (simp add: refuse_def remove_tcp_def)
    next
      case (served st t st1 as)
      obtain t1 st2 taken closed where so: "serve_socket sm app st1 t = Some (t1, st2, taken, closed)"
        and s': "s' = (if closed \<and> established st2 then remove_tcp j (tc_handle st2) (served j st2 t1 taken (s\<lparr>answers := as\<rparr>))
                   else served j st2 t1 taken (s\<lparr>answers := as\<rparr>))"
        by (rule serve_openE [OF served(4)])
      show ?thesis
      proof (cases "closed \<and> established st2")
        case True
        then show ?thesis using s' \<open>j = k\<close> by (intro follows_gone) (simp add: remove_tcp_def)
      next
        case False
        have "pending st1 = pending st"
          using served(3) announce_entry [of j st "answers s" st1 as] by (auto simp: announced_def split: if_splits)
        moreover have "\<And>i. app i \<noteq> Gone" using app True by blast
        ultimately have "accepted t1 @ pending st2 = accepted t @ pending st" "consumed t1 = consumed t @ concat taken"
          using serve_socket_streams [OF so] by simp_all
        moreover have "at_conn s k st t" using served(1, 2) True by (simp add: at_conn_def)
        moreover have "delivered k s' = delivered k s @ concat taken"
          using s' False True delivered_own [of k taken] by (auto simp: served_def delivered_def simp del: filter_map map_map)
        moreover have "st' = st2 \<and> t' = t1" if "at_conn s' k st' t'" for st' t'
          using that s' False True by (auto simp: served_def at_conn_def)
        ultimately show ?thesis unfolding follows_def by (metis append_Nil2)
      qed
    qed (simp add: follows_same)
  qed
qed

lemma service_tcp_follows:
  "ns_ok s \<Longrightarrow> service_tcp sm app ks s = Some s' \<Longrightarrow> \<forall>i. app k i \<noteq> Gone \<Longrightarrow> follows k [] s s'"
proof (induction ks arbitrary: s)
  case (Cons j ks)
  then obtain s1 where s1: "serve_conn sm (app j) j s = Some s1" "service_tcp sm app ks s1 = Some s'"
    by (auto simp: bind_eq_Some_conv)
  have "follows k [] s s1" using serve_conn_follows [OF Cons.prems(1) s1(1), of k] Cons.prems(3) by blast
  moreover have "follows k [] s1 s'" using Cons.IH [OF serve_conn_ok [OF Cons.prems(1) s1(1)] s1(2)] Cons.prems(3) .
  ultimately show ?case using follows_trans [of k "[]" s s1 "[]" s'] by simp
qed (simp add: follows_same)

lemma serve_udp_follows:
  assumes ok: "ns_ok s" and r: "serve_udp sm app j s = Some s'"
  shows "follows k [] s s'"
proof (cases "udp_conns s j")
  case (Some h)
  then obtain u where u: "socks s h = Some (Inr u)" using ns_udp(1) [OF ok] by blast
  then obtain u' taken where "s' = s\<lparr>socks := (socks s)(h \<mapsto> Inr u'), app_udp := app_udp s @ map (Pair j) taken\<rparr>"
    using r Some by (auto simp: serve_udp_def get_udp_def split: prod.splits bind_splits)
  then show ?thesis using u by (intro follows_same) (auto simp: at_conn_def delivered_def split: if_splits)
qed (use r in \<open>simp add: serve_udp_def follows_same\<close>)

lemma service_udp_follows: "ns_ok s \<Longrightarrow> service_udp sm app ks s = Some s' \<Longrightarrow> follows k [] s s'"
proof (induction ks arbitrary: s)
  case (Cons j ks)
  then obtain s1 where s1: "serve_udp sm (app j) j s = Some s1" "service_udp sm app ks s1 = Some s'"
    by (auto simp: bind_eq_Some_conv)
  have "follows k [] s s1" using serve_udp_follows [OF Cons.prems(1) s1(1)] .
  moreover have "follows k [] s1 s'" using Cons.IH [OF serve_udp_ok [OF Cons.prems(1) s1(1)] s1(2)] .
  ultimately show ?case using follows_trans [of k "[]" s s1 "[]" s'] by simp
qed (simp add: follows_same)

lemma ns_poll_follows: "follows k [] s (ns_poll sm s)"
proof -
  obtain i d tcp udp b where p: "sm_poll sm (iface s) (device s) (socks s) = ((i, d), tcp, udp, b)"
    by (metis prod.exhaust)
  show ?thesis
    unfolding follows_def
  proof (intro allI impI)
    fix st t' assume "at_conn (ns_poll sm s) k st t'"
    then obtain x where x: "tcp_conns s k = Some st" "socks s (tc_handle st) = Some x"
        "map_sum (tcp (tc_handle st)) (udp (tc_handle st)) x = Inl t'"
      using p by (auto simp: at_conn_def ns_poll_def)
    then obtain t where "x = Inl t" "t' = tcp (tc_handle st) t" by (cases x) auto
    then show "\<exists>st' t d. at_conn s k st' t \<and> accepted t' @ pending st = accepted t @ pending st' @ [] \<and>
        consumed t' = consumed t @ d \<and> delivered k (ns_poll sm s) = delivered k s @ d"
      using x poll_keeps [OF p] ns_poll_frame [of sm s]
      by (intro exI [of _ st] exI [of _ t] exI [of _ "[]"]) (auto simp: at_conn_def delivered_def)
  qed
qed

lemma ns_service_follows:
  assumes ok: "ns_ok s" and r: "ns_service sm t s = Some s'" and app: "\<forall>i. nt_tcp_app t k i \<noteq> Gone"
  shows "follows k [] s s'"
proof -
  obtain s1 s2 where p: "service_tcp sm (nt_tcp_app t) (nt_keys t (dom (tcp_conns (ns_poll sm s)))) (ns_poll sm s) = Some s1"
      "service_udp sm (nt_udp_app t) (nt_keys t (dom (udp_conns s1))) s1 = Some s2" "flush_tx (nt_out t) s2 = Some s'"
    using ns_serviceE [OF r] .
  have ok1: "ns_ok s1" using service_tcp_ok [OF ns_poll_ok [OF ok] p(1)] .
  have "follows k [] s2 s'" using p(3) by (intro follows_same) (auto simp: flush_tx_def at_conn_def delivered_def)
  then have "follows k [] s1 s'" using follows_trans [OF service_udp_follows [OF ok1 p(2)]] by simp
  then have "follows k [] (ns_poll sm s) s'"
    using follows_trans [OF service_tcp_follows [OF ns_poll_ok [OF ok] p(1) app]] by simp
  then show ?thesis using follows_trans [OF ns_poll_follows] by simp
qed

lemma handle_data_follows:
  assumes ok: "ns_ok s" and r: "handle_data sm d s = Some s'"
  shows "follows k (data_of k d) s s'"
proof (cases d)
  case (DataTcp j bs)
  show ?thesis
  proof (cases "tcp_conns s j")
    case None
    then show ?thesis using r DataTcp by (cases "j = k") (simp_all add: follows_gone follows_same)
  next
    case (Some st)
    have s': "s' = s\<lparr>tcp_conns := (tcp_conns s)(j \<mapsto> st\<lparr>pending := pending st @ bs\<rparr>)\<rparr>"
      using r DataTcp Some by simp
    show ?thesis
    proof (cases "j = k")
      case False
      then show ?thesis using s' DataTcp by (auto simp: at_conn_def delivered_def intro!: follows_same)
    next
      case True
      then show ?thesis using s' DataTcp Some by (auto simp: follows_def at_conn_def delivered_def)
    qed
  qed
next
  case (DataTcpClose j)
  show ?thesis
  proof (cases "tcp_conns s j")
    case (Some st)
    have s': "s' = s\<lparr>tcp_conns := (tcp_conns s)(j \<mapsto> st\<lparr>half_closed := True\<rparr>)\<rparr>"
      using r DataTcpClose Some by simp
    show ?thesis
    proof (cases "j = k")
      case False
      then show ?thesis using s' DataTcpClose by (auto simp: at_conn_def delivered_def intro!: follows_same)
    next
      case True
      then show ?thesis using s' DataTcpClose Some by (auto simp: follows_def at_conn_def delivered_def)
    qed
  qed (use r DataTcpClose in \<open>simp add: follows_same\<close>)
next
  case (DataUdp j dst bs)
  then show ?thesis using r
    by (auto simp: at_conn_def delivered_def intro!: follows_same split: option.splits sum.splits if_splits)
next
  case (DataUdpClose j)
  then show ?thesis using r
    by (auto simp: at_conn_def delivered_def intro!: follows_same split: option.splits if_splits)
qed

lemma handle_all_follows:
  "ns_ok s \<Longrightarrow> handle_all sm ds s = Some s' \<Longrightarrow> follows k (concat (map (data_of k) ds)) s s'"
proof (induction ds arbitrary: s)
  case (Cons d ds)
  then obtain s1 where s1: "handle_data sm d s = Some s1" "handle_all sm ds s1 = Some s'"
    by (auto simp: bind_eq_Some_conv)
  show ?case
    using follows_trans [OF handle_data_follows [OF Cons.prems(1) s1(1)] Cons.IH [OF handle_data_ok [OF Cons.prems(1) s1(1)] s1(2)]]
    by simp
qed (simp add: follows_same)

lemma handle_cmd_follows:
  assumes ok: "ns_ok s" and k: "k < next_id s"
  shows "follows k [] s (handle_cmd sm c s)"
proof -
  have h: "socks s (sm_slot sm (dom (socks s))) = None"
    using slot_fresh [of "dom (socks s)"] ok by (auto simp: ns_ok_def conns_ok_def)
  have own: "tc_handle st \<noteq> sm_slot sm (dom (socks s))" if "tcp_conns s k = Some st" for st
    using ns_tcp(1) [OF ok that] h by auto
  show ?thesis
  proof (cases c)
    case (OpenTcp dst resp)
    then show ?thesis using k own
      by (auto simp: at_conn_def delivered_def alloc_port_def Let_def intro!: follows_same split: sum.splits if_splits)
  next
    case (OpenUdp resp)
    then show ?thesis
      by (auto simp: at_conn_def delivered_def alloc_port_def Let_def intro!: follows_same split: sum.splits if_splits)
  qed (auto simp: at_conn_def delivered_def intro!: follows_same)
qed

end

subsection \<open>Runs\<close>

lemma netstack_new_ok: "netstack_new sm ipv4 ipv6 mtu i = Inr s \<Longrightarrow> ns_ok s \<and> answered s = {#} \<and> waiting s = {#}"
  by (auto simp: netstack_new_def ns_ok_def conns_ok_def answered_def waiting_def resp_of_def split: sum.splits)

sublocale socket_set \<subseteq> ns: event_loop "ns_step sm" ns_ok "\<lambda>r. \<exists>s. r = Some s \<and> ns_ok s" apps_read
  by unfold_locales (use ns_step_Go ns_step_Stop in blast)+

sublocale socket_set \<subseteq> ns_any: event_loop "ns_step sm" ns_ok "\<lambda>_. True" "\<lambda>_. True"
  by unfold_locales (use ns_step_Go in blast)+

context socket_set begin

lemma run_safe:
  "ns_ok s \<Longrightarrow> \<forall>t \<in> set turns. apps_read t \<Longrightarrow>
    ctl_all ns_ok (\<lambda>r. \<exists>s. r = Some s \<and> ns_ok s) (run_loop (ns_step sm) turns s)"
  using ns.run_Go [of turns s] ns.run_Stop [of turns s] by (cases "run_loop (ns_step sm) turns s") auto

lemma run_ok: "ns_ok s \<Longrightarrow> run_loop (ns_step sm) turns s = Go s' \<Longrightarrow> ns_ok s'"
  using ns_any.run_Go [of turns s s'] by simp

end

lemma handle_cmd_next: "next_id s \<le> next_id (handle_cmd sm c s)"
  by (cases c) (auto simp: alloc_port_def Let_def split: sum.split)

lemma handle_all_next: "handle_all sm ds s = Some s' \<Longrightarrow> next_id s' = next_id s"
proof (induction ds arbitrary: s)
  case (Cons d ds)
  then obtain s1 where s1: "handle_data sm d s = Some s1" "handle_all sm ds s1 = Some s'"
    by (auto simp: bind_eq_Some_conv)
  have "next_id s1 = next_id s" using s1(1) by (cases d) (auto split: option.splits sum.splits if_splits)
  then show ?case using Cons.IH [OF s1(2)] by simp
qed simp

lemma serve_conn_next: "serve_conn sm app k s = Some s' \<Longrightarrow> next_id s' = next_id s"
  by (auto simp: serve_conn_def refuse_def remove_tcp_def served_def Let_def bind_eq_Some_conv
      split: option.splits if_splits prod.splits elim!: serve_openE)

lemma service_tcp_next: "service_tcp sm app ks s = Some s' \<Longrightarrow> next_id s' = next_id s"
  by (induction ks arbitrary: s) (auto simp: bind_eq_Some_conv dest: serve_conn_next)

lemma ns_service_next:
  assumes "ns_service sm t s = Some s'"
  shows "next_id s' = next_id s"
proof -
  obtain s1 s2 where p: "service_tcp sm (nt_tcp_app t) (nt_keys t (dom (tcp_conns (ns_poll sm s)))) (ns_poll sm s) = Some s1"
      "service_udp sm (nt_udp_app t) (nt_keys t (dom (udp_conns s1))) s1 = Some s2" "flush_tx (nt_out t) s2 = Some s'"
    using ns_serviceE [OF assms] .
  then show ?thesis
    using service_tcp_next [OF p(1)] service_udp_frame [OF p(2)] ns_poll_frame [of sm s] by (auto simp: flush_tx_def)
qed

lemma ns_stepE:
  assumes "ns_step sm t s = Go s'"
  obtains s1 where "ns_service sm t s = Some s1"
    and "(\<exists>p ps. nt_event t = NsInbound p ps \<and> s' = ingest p ps s1) \<or> (\<exists>c. nt_event t = NsCmd c \<and> s' = handle_cmd sm c s1)
      \<or> (\<exists>d ds. nt_event t = NsData d ds \<and> handle_all sm (d # ds) s1 = Some s') \<or> (nt_event t = NsDelay \<and> s' = s1)"
proof -
  obtain s1 where s1: "ns_service sm t s = Some s1" using assms by (auto simp: ns_step_def split: option.splits)
  then show ?thesis
    using assms that [OF s1]
    by (cases "nt_event t") (auto simp: ns_step_def simp del: handle_all.simps split: option.splits)
qed

context socket_set begin

lemma ns_step_accounts:
  assumes ok: "ns_ok s" and r: "ns_step sm t s = Go s'"
  shows "answered s' + waiting s' = answered s + waiting s + mset (request (nt_event t))"
proof -
  obtain s1 where s1: "ns_service sm t s = Some s1"
    and ev: "(\<exists>p ps. nt_event t = NsInbound p ps \<and> s' = ingest p ps s1) \<or> (\<exists>c. nt_event t = NsCmd c \<and> s' = handle_cmd sm c s1)
      \<or> (\<exists>d ds. nt_event t = NsData d ds \<and> handle_all sm (d # ds) s1 = Some s') \<or> (nt_event t = NsDelay \<and> s' = s1)"
    by (rule ns_stepE [OF r])
  have ok1: "ns_ok s1" and a: "answered s1 + waiting s1 = answered s + waiting s"
    using ns_service_ok [OF ok s1] ns_service_accounts [OF ok s1] .
  show ?thesis
    using ev
  proof (elim disjE exE conjE)
    fix p ps assume "nt_event t = NsInbound p ps" "s' = ingest p ps s1"
    then show ?thesis using a accounts_cong [of s' s1] by (simp add: ingest_def)
  next
    fix c assume "nt_event t = NsCmd c" "s' = handle_cmd sm c s1"
    then show ?thesis using a handle_cmd_accounts [OF ok1, of sm c] by simp
  next
    fix d ds assume e: "nt_event t = NsData d ds" "handle_all sm (d # ds) s1 = Some s'"
    show ?thesis using a handle_all_accounts [OF ok1 e(2)] e(1) by simp
  next
    assume "nt_event t = NsDelay" "s' = s1"
    then show ?thesis using a by simp
  qed
qed

lemma run_accounts:
  "ns_ok s \<Longrightarrow> run_loop (ns_step sm) ts s = Go s' \<Longrightarrow>
    answered s' + waiting s' = answered s + waiting s + mset (concat (map (\<lambda>t. request (nt_event t)) ts))"
proof (induction ts arbitrary: s)
  case (Cons t ts)
  then obtain s1 where s1: "ns_step sm t s = Go s1" "run_loop (ns_step sm) ts s1 = Go s'" by (auto split: ctl.splits)
  then show ?case
    using Cons.IH [OF ns_step_Go [OF Cons.prems(1) s1(1)] s1(2)] ns_step_accounts [OF Cons.prems(1) s1(1)]
    by (simp add: ac_simps)
qed simp

end

context stack_streams begin

lemma ns_step_follows:
  assumes ok: "ns_ok s" and r: "ns_step sm t s = Go s'" and k: "k < next_id s" and app: "\<forall>i. nt_tcp_app t k i \<noteq> Gone"
  shows "follows k (written k (nt_event t)) s s' \<and> k < next_id s'"
proof -
  obtain s1 where s1: "ns_service sm t s = Some s1"
    and ev: "(\<exists>p ps. nt_event t = NsInbound p ps \<and> s' = ingest p ps s1) \<or> (\<exists>c. nt_event t = NsCmd c \<and> s' = handle_cmd sm c s1)
      \<or> (\<exists>d ds. nt_event t = NsData d ds \<and> handle_all sm (d # ds) s1 = Some s') \<or> (nt_event t = NsDelay \<and> s' = s1)"
    by (rule ns_stepE [OF r])
  have ok1: "ns_ok s1" and k1: "k < next_id s1" and f: "follows k [] s s1"
    using ns_service_ok [OF ok s1] ns_service_next [OF s1] k ns_service_follows [OF ok s1 app] by simp_all
  have go: "follows k ws s s'" if "follows k ws s1 s'" for ws using follows_trans [OF f that] by simp
  show ?thesis
    using ev
  proof (elim disjE exE conjE)
    fix p ps assume e: "nt_event t = NsInbound p ps" "s' = ingest p ps s1"
    then have "follows k [] s1 s'" by (intro follows_same) (auto simp: ingest_def at_conn_def delivered_def)
    then show ?thesis using go e k1 by (simp add: ingest_def)
  next
    fix c assume e: "nt_event t = NsCmd c" "s' = handle_cmd sm c s1"
    then show ?thesis using go handle_cmd_follows [OF ok1 k1, of c] k1 handle_cmd_next [of s1 sm c] by simp
  next
    fix d ds assume e: "nt_event t = NsData d ds" "handle_all sm (d # ds) s1 = Some s'"
    show ?thesis using go handle_all_follows [OF ok1 e(2), of k] e(1) handle_all_next [OF e(2)] k1 by simp
  next
    assume "nt_event t = NsDelay" "s' = s1"
    then show ?thesis using f k1 by simp
  qed
qed

lemma run_follows:
  "ns_ok s \<Longrightarrow> k < next_id s \<Longrightarrow> \<forall>t \<in> set ts. \<forall>i. nt_tcp_app t k i \<noteq> Gone \<Longrightarrow>
    run_loop (ns_step sm) ts s = Go s' \<Longrightarrow> follows k (concat (map (\<lambda>t. written k (nt_event t)) ts)) s s'"
proof (induction ts arbitrary: s)
  case (Cons t ts)
  then obtain s1 where s1: "ns_step sm t s = Go s1" "run_loop (ns_step sm) ts s1 = Go s'" by (auto split: ctl.splits)
  have f: "follows k (written k (nt_event t)) s s1" "k < next_id s1"
    using ns_step_follows [OF Cons.prems(1) s1(1) Cons.prems(2)] Cons.prems(3) by auto
  have "follows k (concat (map (\<lambda>t. written k (nt_event t)) ts)) s1 s'"
    using Cons.IH [OF ns_step_Go [OF Cons.prems(1) s1(1)] f(2)] Cons.prems(3) s1(2) by simp
  from follows_trans [OF f(1) this] show ?case by simp
qed (simp add: follows_same)

end

text \<open>Answers are only added.\<close>

lemma serve_conn_answers:
  assumes "ns_ok s" "serve_conn sm app k s = Some s'"
  shows "set (answers s) \<subseteq> set (answers s')"
  using assms
proof (cases rule: serve_conn_cases)
  case (refused st)
  then show ?thesis by (auto simp: refuse_def remove_tcp_def split: option.split)
next
  case (served st t st1 as)
  have "set (answers s) \<subseteq> set as"
    using served(3) by (auto simp: announced_def announce_def split: if_splits option.splits)
  moreover have "answers s' = as"
    by (rule serve_openE [OF served(4)]) (simp add: remove_tcp_def served_def)
  ultimately show ?thesis by simp
qed simp

lemma service_tcp_answers:
  "ns_ok s \<Longrightarrow> service_tcp sm app ks s = Some s' \<Longrightarrow> set (answers s) \<subseteq> set (answers s')"
proof (induction ks arbitrary: s)
  case (Cons k ks)
  then obtain s1 where s1: "serve_conn sm (app k) k s = Some s1" "service_tcp sm app ks s1 = Some s'"
    by (auto simp: bind_eq_Some_conv)
  show ?case
    using serve_conn_answers [OF Cons.prems(1) s1(1)] Cons.IH [OF serve_conn_ok [OF Cons.prems(1) s1(1)] s1(2)] by blast
qed simp

definition settles :: "tcp_state \<Rightarrow> nat \<Rightarrow> (str + nat) option" where
  "settles state k =
     (case state of TcpEstablished \<Rightarrow> Some (Inr k) | TcpClosed \<Rightarrow> Some (Inl ''connection refused'')
      | TcpTimeWait \<Rightarrow> Some (Inl ''connection refused'') | _ \<Rightarrow> None)"

lemma serve_conn_settles:
  assumes ok: "ns_ok s" and r: "serve_conn sm app k s = Some s'"
    and at: "at_conn s k st t" "connect_resp st = Some resp" and a: "settles (sm_state sm t) k = Some a"
  shows "(resp, a) \<in> set (answers s')"
proof -
  have fl: "\<not> established st" "from_stack_rx st" using ns_tcp(2, 3) [OF ok, of k st] at by (simp_all add: at_conn_def)
  have get: "get_tcp (tc_handle st) s = Some t" "tcp_conns s k = Some st" using at(1) by (simp_all add: at_conn_def get_tcp_def)
  show ?thesis
  proof (cases "sm_state sm t = TcpEstablished")
    case True
    then obtain st1 as where an: "announce k st (answers s) = (st1, as)" "established st1" "(resp, a) \<in> set as"
      using a at(2) fl by (auto simp: announce_def settles_def)
    have "serve_open sm app k st1 t (s\<lparr>answers := as\<rparr>) = Some s'"
      using r get fl True an by (simp add: serve_conn_def Let_def)
    then have "answers s' = as" by (rule serve_openE) (simp add: remove_tcp_def served_def)
    then show ?thesis using an(3) by simp
  next
    case False
    then have "sm_state sm t = TcpClosed \<or> sm_state sm t = TcpTimeWait" "a = Inl ''connection refused''"
      using a by (auto simp: settles_def split: tcp_state.splits)
    then show ?thesis
      using r get fl at(2) by (auto simp: serve_conn_def Let_def refuse_def remove_tcp_def)
  qed
qed

lemma service_tcp_settles:
  "ns_ok s \<Longrightarrow> service_tcp sm app ks s = Some s' \<Longrightarrow> k \<in> set ks \<Longrightarrow> at_conn s k st t \<Longrightarrow> connect_resp st = Some resp \<Longrightarrow>
    settles (sm_state sm t) k = Some a \<Longrightarrow> (resp, a) \<in> set (answers s')"
proof (induction ks arbitrary: s)
  case (Cons j ks)
  then obtain s1 where s1: "serve_conn sm (app j) j s = Some s1" "service_tcp sm app ks s1 = Some s'"
    by (auto simp: bind_eq_Some_conv)
  have ok1: "ns_ok s1" using serve_conn_ok [OF Cons.prems(1) s1(1)] .
  show ?case
  proof (cases "j = k")
    case True
    then show ?thesis
      using serve_conn_settles [OF Cons.prems(1) s1(1), of st t resp a] Cons.prems(4-6) service_tcp_answers [OF ok1 s1(2)] by blast
  next
    case False
    have "at_conn s1 k st t"
      using serve_conn_other [OF Cons.prems(1) s1(1) False, of st t] Cons.prems(4) by (simp add: at_conn_def)
    then show ?thesis using Cons.IH [OF ok1 s1(2)] Cons.prems(3, 5, 6) False by simp
  qed
qed simp

subsection \<open>A concrete stack\<close>

text \<open>
  An implementation of the interface: a connection is established by the next poll, the peer
  then says one byte, everything sent is accepted, and the device echoes packets.
\<close>

record toy_tcp =
  toy_state :: tcp_state
  toy_sent :: bytes
  toy_in :: bytes
  toy_read :: bytes

definition toy_poll :: "toy_tcp \<Rightarrow> toy_tcp" where
  "toy_poll t = (if toy_state t = TcpSynSent then t\<lparr>toy_state := TcpEstablished, toy_in := [7]\<rparr> else t)"

definition toy :: "(unit, toy_tcp, unit) smoltcp" where
  "toy = \<lparr>sm_poll = (\<lambda>i d so. ((i, case device_receive d of None \<Rightarrow> d | Some (p, d) \<Rightarrow> tx_consume p d),
      \<lambda>_. toy_poll, \<lambda>_ u. u, False)),
    sm_slot = (\<lambda>H. Suc (Max (insert 0 H))),
    sm_connect = (\<lambda>_ _ _. Inr \<lparr>toy_state = TcpSynSent, toy_sent = [], toy_in = [], toy_read = []\<rparr>),
    sm_bind = (\<lambda>_. Inr ()), sm_state = toy_state, sm_can_send = (\<lambda>t. toy_state t = TcpEstablished),
    sm_send = (\<lambda>d t. (t\<lparr>toy_sent := toy_sent t @ d\<rparr>, Some (length d))), sm_close = toy_state_update (\<lambda>_. TcpClosed),
    sm_can_recv = (\<lambda>t. toy_in t \<noteq> []),
    sm_recv = (\<lambda>t. (t\<lparr>toy_in := [], toy_read := toy_read t @ toy_in t\<rparr>, Some (toy_in t))),
    sm_udp_send = (\<lambda>_ _ u. u), sm_udp_can_recv = (\<lambda>_. False), sm_udp_recv = (\<lambda>u. (u, None)),
    sm_update_addrs = (\<lambda>_ i. i), sm_default_route = (\<lambda>_ i. i)\<rparr>"

interpretation toy: stack_streams toy toy_sent toy_read
proof
  fix H :: "nat set" assume "finite H"
  then have "h \<le> Max (insert 0 H)" if "h \<in> H" for h using that by simp
  then show "sm_slot toy H \<notin> H" by (fastforce simp: toy_def)
qed (auto simp: toy_def toy_poll_def)

definition sample_stack :: "(unit, toy_tcp, unit) netstack" where
  "sample_stack = \<lparr>iface = (), device = device_new 1280, socks = Map.empty, tcp_conns = Map.empty, udp_conns = Map.empty,
    next_id = 1, next_port = 49152, answers = [], app_tcp = [], app_udp = [], outbound = []\<rparr>"

definition sample_ns_turn :: "ns_event \<Rightarrow> ns_turn" where
  "sample_ns_turn ev = \<lparr>nt_tcp_app = (\<lambda>_ _. Taken), nt_udp_app = (\<lambda>_ _. Taken), nt_out = (\<lambda>_. Taken),
    nt_keys = (\<lambda>K. sorted_list_of_set K), nt_event = ev\<rparr>"

definition sample_open :: "ns_turn list" where
  "sample_open = [sample_ns_turn (NsCmd (OpenTcp (SockAddr (IpV4 0x01010101) 443) 5)), sample_ns_turn NsDelay]"

definition sample_write :: "ns_turn list" where
  "sample_write = [sample_ns_turn (NsData (DataTcp 1 [9]) []), sample_ns_turn NsDelay]"

definition sample_conn :: tcp_conn where
  "sample_conn = \<lparr>tc_handle = 1, from_stack_rx = False, connect_resp = None, pending = [], established = True,
    half_closed = False\<rparr>"

definition sample_opened :: "bytes \<Rightarrow> (unit, toy_tcp, unit) netstack" where
  "sample_opened sent = sample_stack\<lparr>next_id := 2, next_port := 49153, answers := [(5, Inr 1)], app_tcp := [(1, [7])],
    tcp_conns := [1 \<mapsto> sample_conn],
    socks := [1 \<mapsto> Inl \<lparr>toy_state = TcpEstablished, toy_sent = sent, toy_in = [], toy_read = [7]\<rparr>]\<rparr>"

lemma sample_new: "netstack_new toy [] [] 1280 () = Inr sample_stack"
  by (simp add: netstack_new_def parse_v4_def parse_v6_def apply_addrs_def toy_def sample_stack_def)

lemma toy_fields: "sm_slot toy H = Suc (Max (insert 0 H))" "sm_state toy t = toy_state t"
    "sm_can_send toy t = (toy_state t = TcpEstablished)" "sm_can_recv toy t = (toy_in t \<noteq> [])"
    "sm_connect toy () dst p = Inr \<lparr>toy_state = TcpSynSent, toy_sent = [], toy_in = [], toy_read = []\<rparr>"
    "sm_send toy d t = (t\<lparr>toy_sent := toy_sent t @ d\<rparr>, Some (length d))"
    "sm_recv toy t = (t\<lparr>toy_in := [], toy_read := toy_read t @ toy_in t\<rparr>, Some (toy_in t))"
  by (simp_all add: toy_def)

lemma toy_polls:
  "dev_rx (device s) = [] \<Longrightarrow> ns_poll toy s = s\<lparr>iface := (), socks := (\<lambda>h. map_option (map_sum toy_poll (\<lambda>u. u)) (socks s h))\<rparr>"
  by (cases s) (simp add: ns_poll_def toy_def device_receive_def)

lemma toy_recv_none: "toy_in t = [] \<Longrightarrow> recv_chunks toy n t = (t, [])"
  by (cases n) (simp_all add: toy_fields)

lemma toy_recv_some:
  assumes "toy_in t \<noteq> []"
  shows "recv_chunks toy MAX_RECV_CHUNKS t = (t\<lparr>toy_in := [], toy_read := toy_read t @ toy_in t\<rparr>, [toy_in t])"
proof -
  have "recv_chunks toy (Suc n) t = (t\<lparr>toy_in := [], toy_read := toy_read t @ toy_in t\<rparr>, [toy_in t])" for n
    using assms by (simp add: toy_fields toy_recv_none)
  from this [of 127] show ?thesis by (simp add: MAX_RECV_CHUNKS_def)
qed

lemmas sample_evals = sample_ns_turn_def toy_polls toy_fields toy_poll_def toy_recv_none toy_recv_some
  ns_step_def ns_service_def serve_conn_def serve_open_def serve_socket_def send_pending_def announce_def get_tcp_def
  close_if_def flush_tx_def alloc_port_def Let_def sample_stack_def device_new_def sample_conn_def

lemma sample_open1:
  "ns_step toy (sample_ns_turn (NsCmd (OpenTcp dst 5))) sample_stack = Go (sample_stack\<lparr>next_id := 2, next_port := 49153,
    tcp_conns := [1 \<mapsto> \<lparr>tc_handle = 1, from_stack_rx = True, connect_resp = Some 5, pending = [], established = False,
      half_closed = False\<rparr>],
    socks := [1 \<mapsto> Inl \<lparr>toy_state = TcpSynSent, toy_sent = [], toy_in = [], toy_read = []\<rparr>]\<rparr>)"
  by (simp add: sample_evals)

lemma sample_opens: "run_loop (ns_step toy) sample_open sample_stack = Go (sample_opened [])"
  by (simp add: sample_open_def sample_open1) (simp add: sample_evals sample_opened_def, rule ext, simp add: toy_poll_def)

lemma sample_writes: "run_loop (ns_step toy) sample_write (sample_opened []) = Go (sample_opened [9])"
  by (simp add: sample_write_def sample_evals sample_opened_def) (rule ext, simp add: toy_poll_def)

subsection \<open>Properties\<close>

text \<open>C29. The network stack never panics: in every run from its start in which the applications keep
  reading, every turn ends, whatever packets, commands and data arrive in whatever order, and its
  tables stay consistent: every connection has a socket of its own of the right kind, no socket
  is left behind, ports stay in their range, and a connection holds its answer channel exactly
  until it is established.\<close>

theorem netstack_safe:
  assumes "socket_set sm" and "netstack_new sm ipv4 ipv6 mtu i = Inr s" and "\<forall>t \<in> set turns. apps_read t"
  shows "ctl_all ns_ok (\<lambda>r. \<exists>s. r = Some s \<and> ns_ok s) (run_loop (ns_step sm) turns s)"
  using socket_set.run_safe [OF assms(1) _ assms(3)] netstack_new_ok [OF assms(2)] by blast

theorem netstack_safe_witness: "ns_ok (sample_opened [9])"
  using netstack_safe [OF toy.socket_set_axioms sample_new, of "sample_open @ sample_write"]
  by (simp add: run_loop_append sample_opens sample_writes)
    (simp add: sample_open_def sample_write_def sample_ns_turn_def apps_read_def)

text \<open>C30. No request is lost or answered twice: after any run, the requests for a connection that were
  received are, counted with multiplicity, those that were answered together with those whose
  answer channel a live connection still holds.\<close>

theorem netstack_accounts:
  assumes "socket_set sm" and "netstack_new sm ipv4 ipv6 mtu i = Inr s0" and "run_loop (ns_step sm) turns s0 = Go s"
  shows "mset (concat (map (\<lambda>t. request (nt_event t)) turns)) = answered s + waiting s"
  using socket_set.run_accounts [OF assms(1) _ assms(3)] netstack_new_ok [OF assms(2)] by simp

theorem netstack_accounts_witness: "answered (sample_opened [9]) + waiting (sample_opened [9]) = {#5#}"
proof -
  have "run_loop (ns_step toy) (sample_open @ sample_write) sample_stack = Go (sample_opened [9])"
    by (simp add: run_loop_append sample_opens sample_writes)
  from netstack_accounts [OF toy.socket_set_axioms sample_new this] show ?thesis
    by (simp add: sample_open_def sample_write_def sample_ns_turn_def)
qed

text \<open>C31. The streams are in order and complete: from any point at which a TCP connection is live to any
  later one, what its socket accepted together with what is still pending grew exactly by the
  data submitted for it, in order, and, as long as the application keeps its receiver, what
  was read from the socket was delivered, in order.\<close>

theorem netstack_streams:
  assumes "stack_streams sm accepted consumed" and "netstack_new sm ipv4 ipv6 mtu i = Inr s0"
    and "run_loop (ns_step sm) before s0 = Go s" and "at_conn s k st t"
    and "run_loop (ns_step sm) turns s = Go s'" and "at_conn s' k st' t'"
    and "\<forall>u \<in> set turns. \<forall>i. nt_tcp_app u k i \<noteq> Gone"
  shows "accepted t' @ pending st' = accepted t @ pending st @ concat (map (\<lambda>u. written k (nt_event u)) turns) \<and>
    (\<exists>d. consumed t' = consumed t @ d \<and> delivered k s' = delivered k s @ d)"
proof -
  have sm: "socket_set sm" using assms(1) by (simp add: stack_streams_def)
  have ok: "ns_ok s" using socket_set.run_ok [OF sm _ assms(3)] netstack_new_ok [OF assms(2)] by blast
  have "k < next_id s" using ns_tcp(4) [OF ok] assms(4) by (simp add: at_conn_def)
  from stack_streams.run_follows [OF assms(1) ok this assms(7, 5)] obtain st1 t1 d
    where "at_conn s k st1 t1" "accepted t' @ pending st' = accepted t1 @ pending st1 @ concat (map (\<lambda>u. written k (nt_event u)) turns)"
      "consumed t' = consumed t1 @ d" "delivered k s' = delivered k s @ d"
    using assms(6) stack_streams.follows_def [OF assms(1)] by blast
  moreover from this(1) have "st1 = st" "t1 = t" using assms(4) by (auto simp: at_conn_def)
  ultimately show ?thesis by blast
qed

definition sample_sock :: "bytes \<Rightarrow> toy_tcp" where
  "sample_sock sent = \<lparr>toy_state = TcpEstablished, toy_sent = sent, toy_in = [], toy_read = [7]\<rparr>"

lemma sample_at: "at_conn (sample_opened sent) 1 sample_conn (sample_sock sent)"
  by (simp add: at_conn_def sample_opened_def sample_sock_def sample_conn_def)

theorem netstack_streams_witness: "toy_sent (sample_sock [9]) = toy_sent (sample_sock []) @ [9]"
proof -
  have "\<forall>u \<in> set sample_write. \<forall>i. nt_tcp_app u 1 i \<noteq> Gone"
    by (simp add: sample_write_def sample_ns_turn_def)
  from netstack_streams [OF toy.stack_streams_axioms sample_new sample_opens sample_at sample_writes sample_at this]
  show ?thesis by (simp add: sample_conn_def sample_write_def sample_ns_turn_def)
qed

text \<open>A request is settled in the turn its connection is: when the poll leaves the socket of a waiting
  connection established, the turn answers with the connection, and when it leaves it closed or
  timed out, with a refusal.\<close>

theorem netstack_settles:
  assumes "ns_ok s" and "keys_ok u" and "ns_service sm u s = Some s'" and "connect_resp st = Some resp"
    and "at_conn (ns_poll sm s) k st t" and "settles (sm_state sm t) k = Some a"
  shows "(resp, a) \<in> set (answers s')"
proof -
  obtain s1 s2 where p: "service_tcp sm (nt_tcp_app u) (nt_keys u (dom (tcp_conns (ns_poll sm s)))) (ns_poll sm s) = Some s1"
      "service_udp sm (nt_udp_app u) (nt_keys u (dom (udp_conns s1))) s1 = Some s2" "flush_tx (nt_out u) s2 = Some s'"
    using ns_serviceE [OF assms(3)] .
  have "k \<in> dom (tcp_conns (ns_poll sm s))" using assms(5) by (auto simp: at_conn_def)
  moreover have "finite (dom (tcp_conns (ns_poll sm s)))"
    by (rule finite_subset [of _ "{..<next_id (ns_poll sm s)}"]) (use ns_tcp(4) [OF ns_poll_ok [OF assms(1)]] in auto)
  ultimately have "k \<in> set (nt_keys u (dom (tcp_conns (ns_poll sm s))))" using assms(2) by (auto simp: keys_ok_def)
  from service_tcp_settles [OF ns_poll_ok [OF assms(1)] p(1) this assms(5, 4, 6)]
  show ?thesis using service_udp_frame [OF p(2)] p(3) by (auto simp: flush_tx_def)
qed

theorem netstack_settles_witness: "(5, Inr 1) \<in> set (answers (sample_opened []))"
proof -
  let ?st = "\<lparr>tc_handle = 1, from_stack_rx = True, connect_resp = Some 5, pending = [], established = False, half_closed = False\<rparr>"
  let ?t = "\<lparr>toy_state = TcpSynSent, toy_sent = [], toy_in = [], toy_read = []\<rparr>"
  let ?s = "sample_stack\<lparr>next_id := 2, next_port := 49153, tcp_conns := [1 \<mapsto> ?st], socks := [1 \<mapsto> Inl ?t]\<rparr>"
  let ?u = "sample_ns_turn NsDelay"
  have step: "ns_step toy ?u ?s = Go (sample_opened [])"
    using sample_opens by (simp add: sample_open_def sample_open1 split: ctl.splits)
  then have serv: "ns_service toy ?u ?s = Some (sample_opened [])"
    by (auto simp: ns_step_def sample_ns_turn_def split: option.splits)
  have "run_loop (ns_step toy) [sample_ns_turn (NsCmd (OpenTcp (SockAddr (IpV4 0x01010101) 443) 5))] sample_stack = Go ?s"
    by (simp add: sample_open1)
  then have ok: "ns_ok ?s" using toy.run_ok netstack_new_ok [OF sample_new] by blast
  have keys: "keys_ok ?u" by (simp add: keys_ok_def sample_ns_turn_def)
  have at: "at_conn (ns_poll toy ?s) 1 ?st (toy_poll ?t)"
    by (simp add: at_conn_def toy_polls sample_stack_def device_new_def)
  show ?thesis
    by (rule netstack_settles [OF ok keys serv _ at]) (simp_all add: settles_def toy_fields toy_poll_def)
qed

subsection \<open>Three surprises\<close>

text \<open>
  A peer that closes early: when the handshake and the end of the peer's stream arrive in one
  poll, the socket is in CLOSE-WAIT before it was announced. It is then closed without an answer,
  to be refused once it has closed.
\<close>

lemma close_wait_unannounced:
  assumes "at_conn s k st t" "\<not> established st" "pending st = []" "\<not> half_closed st"
    and "sm_state sm t = TcpCloseWait" "\<not> sm_can_recv sm t"
  shows "\<exists>s'. serve_conn sm app k s = Some s' \<and> answers s' = answers s \<and> at_conn s' k st (sm_close sm t)"
  using assms
  by (auto simp: serve_conn_def at_conn_def get_tcp_def serve_open_def serve_socket_def send_pending_def
      close_if_def MAX_RECV_CHUNKS_def numeral_eq_Suc Let_def)

text \<open>
  In CLOSE-WAIT the client may still send, but the socket is closed even though data of the
  client is pending.
\<close>

lemma close_wait_drops_pending:
  assumes "pending st \<noteq> []" "\<not> sm_can_send sm t" "sm_state sm t = TcpCloseWait" "\<not> sm_can_recv sm t"
  shows "serve_socket sm app st t = Some (sm_close sm t, st, [], False)"
  using assms
  by (simp add: serve_socket_def send_pending_def close_if_def MAX_RECV_CHUNKS_def numeral_eq_Suc Let_def)

text \<open>An application that stops reading without dropping its receiver stops the whole stack.\<close>

lemma stuck_app_stops_stack:
  assumes "serve_conn sm (nt_tcp_app t k) k (ns_poll sm s) = None" "nt_keys t (dom (tcp_conns (ns_poll sm s))) = k # ks"
  shows "ns_step sm t s = Stop None"
  using assms by (simp add: ns_step_def ns_service_def Let_def)

lemma stuck_app:
  assumes "send_pending sm t st = Some (t1, st1)" "\<not> half_closed st1"
    and "recv_chunks sm MAX_RECV_CHUNKS t1 = (t2, v # vs)" "app 0 = Stuck"
  shows "serve_open sm app k st t s = None"
  using assms by (simp add: serve_open_def serve_socket_def close_if_def Let_def)

end
