(* ===== verification/Stack_Client.thy ===== *)
theory Stack_Client
  imports Netstack
begin

section \<open>The clients of the network stack (netstack.rs)\<close>

text \<open>
  \<open>StackHandle\<close>, \<open>TcpConn\<close>, \<open>TcpSender\<close>, \<open>UdpConn\<close> and \<open>UdpSender\<close>: what their methods put on
  the two channels of the stack, and what they return. A channel is the list of the messages
  sent and not yet received. Putting a message on it ends as a send to an application does
  (\<open>app_send\<close>): it is taken, or the stack is gone, or the channel is full and stays so, and
  then the call does not return (\<open>None\<close>).
\<close>

definition NETSTACK_CLOSED :: aether_error where "NETSTACK_CLOSED = Other ''netstack closed''"

definition queue_send :: "app_send \<Rightarrow> 'm \<Rightarrow> 'm list \<Rightarrow> ('m list \<times> unit result) option" where
  "queue_send r m q =
     (case r of Taken \<Rightarrow> Some (q @ [m], Inr ()) | Gone \<Rightarrow> Some (q, Inl NETSTACK_CLOSED) | Stuck \<Rightarrow> None)"

subsection \<open>Connections\<close>

text \<open>
  A connection is its number. \<open>into_split\<close> hands the number to a sender whose methods are the
  same, so one definition stands for both; closing ignores a failure.
\<close>

definition conn_send :: "app_send \<Rightarrow> nat \<Rightarrow> bytes \<Rightarrow> data_in list \<Rightarrow> (data_in list \<times> unit result) option" where
  "conn_send r k data q = queue_send r (DataTcp k data) q"

definition conn_close :: "app_send \<Rightarrow> nat \<Rightarrow> data_in list \<Rightarrow> data_in list option" where
  "conn_close r k q = map_option fst (queue_send r (DataTcpClose k) q)"

definition udp_send_to :: "app_send \<Rightarrow> nat \<Rightarrow> sock_addr \<Rightarrow> bytes \<Rightarrow> data_in list \<Rightarrow> (data_in list \<times> unit result) option" where
  "udp_send_to r k dst data q = queue_send r (DataUdp k dst data) q"

definition udp_close :: "app_send \<Rightarrow> nat \<Rightarrow> data_in list \<Rightarrow> data_in list option" where
  "udp_close r k q = map_option fst (queue_send r (DataUdpClose k) q)"

subsection \<open>The handle\<close>

text \<open>What comes of waiting for the answer to a request: the answer, or its sender is dropped.\<close>

datatype answer = Answer "str + nat" | SenderDropped | NoReply

definition await_conn :: "answer \<Rightarrow> nat result option" where
  "await_conn a =
     (case a of
        Answer (Inr k) \<Rightarrow> Some (Inr k)
      | Answer (Inl e) \<Rightarrow> Some (Inl (Other e))
      | SenderDropped \<Rightarrow> Some (Inl (Other ''netstack dropped''))
      | NoReply \<Rightarrow> None)"

definition open_tcp :: "app_send \<Rightarrow> sock_addr \<Rightarrow> nat \<Rightarrow> answer \<Rightarrow> cmd list \<Rightarrow> (cmd list \<times> nat result) option" where
  "open_tcp r dst resp a q = do {
     sent \<leftarrow> queue_send r (OpenTcp dst resp) q;
     case sent of
       (q, Inl e) \<Rightarrow> Some (q, Inl e)
     | (q, Inr _) \<Rightarrow> map_option (Pair q) (await_conn a)
   }"

definition open_udp :: "app_send \<Rightarrow> nat \<Rightarrow> answer \<Rightarrow> cmd list \<Rightarrow> (cmd list \<times> nat result) option" where
  "open_udp r resp a q = do {
     sent \<leftarrow> queue_send r (OpenUdp resp) q;
     case sent of
       (q, Inl e) \<Rightarrow> Some (q, Inl e)
     | (q, Inr _) \<Rightarrow> map_option (Pair q) (await_conn a)
   }"

definition set_addrs :: "app_send \<Rightarrow> (u32 \<times> u8) option \<Rightarrow> (u128 \<times> u8) option \<Rightarrow> cmd list
    \<Rightarrow> (cmd list \<times> unit result) option" where
  "set_addrs r v4 v6 q = queue_send r (SetAddrs v4 v6) q"

lemmas client_defs = queue_send_def conn_send_def conn_close_def udp_send_to_def udp_close_def
  await_conn_def open_tcp_def open_udp_def set_addrs_def

subsection \<open>The answer the stack gives\<close>

text \<open>What a client that waits for the answer to \<open>resp\<close> gets from the answers sent so far.\<close>

definition reply_of :: "nat \<Rightarrow> (nat \<times> (str + nat)) list \<Rightarrow> answer" where
  "reply_of resp as = (case map_of as resp of Some r \<Rightarrow> Answer r | None \<Rightarrow> NoReply)"

lemma reply_of_fresh: "resp \<notin> fst ` set as \<Longrightarrow> reply_of resp (as @ [(resp, r)]) = Answer r"
  by (simp add: reply_of_def map_add_def map_of_eq_None_iff [THEN iffD2])

text \<open>A client that sends pieces on a connection one after the other.\<close>

fun send_pieces :: "nat \<Rightarrow> (app_send \<times> bytes) list \<Rightarrow> data_in list \<Rightarrow> (data_in list \<times> unit result) option" where
  "send_pieces k [] q = Some (q, Inr ())"
| "send_pieces k ((r, d) # ps) q = do {
     sent \<leftarrow> conn_send r k d q;
     case sent of
       (q, Inl e) \<Rightarrow> Some (q, Inl e)
     | (q, Inr _) \<Rightarrow> send_pieces k ps q
   }"

lemma send_pieces_queue:
  "send_pieces k ps q = Some (q', Inr u) \<Longrightarrow> q' = q @ map (\<lambda>(_, d). DataTcp k d) ps"
proof (induction ps arbitrary: q)
  case (Cons p ps)
  obtain r d where p: "p = (r, d)" by (cases p)
  from Cons.prems p have "send_pieces k ps (q @ [DataTcp k d]) = Some (q', Inr u)"
    by (simp add: client_defs split: app_send.splits)
  from Cons.IH [OF this] show ?case by (simp add: p)
qed simp

lemma send_pieces_error:
  "send_pieces k ps q = Some (q', Inl e) \<Longrightarrow>
     e = NETSTACK_CLOSED \<and> (\<exists>n < length ps. q' = q @ map (\<lambda>(_, d). DataTcp k d) (take n ps))"
proof (induction ps arbitrary: q)
  case (Cons p ps)
  obtain r d where p: "p = (r, d)" by (cases p)
  show ?case
  proof (cases r)
    case Taken
    then have "send_pieces k ps (q @ [DataTcp k d]) = Some (q', Inl e)"
      using Cons.prems p by (simp add: client_defs)
    from Cons.IH [OF this] obtain n where "e = NETSTACK_CLOSED" "n < length ps"
        "q' = q @ DataTcp k d # map (\<lambda>(_, d). DataTcp k d) (take n ps)" by auto
    then show ?thesis using p by (intro conjI exI [of _ "Suc n"]) simp_all
  next
    case Gone
    then show ?thesis using Cons.prems p by (auto simp: client_defs)
  next
    case Stuck
    then show ?thesis using Cons.prems p by (simp add: client_defs)
  qed
qed simp

lemma handle_pieces:
  assumes "tcp_conns s k = Some st"
  shows "handle_all sm (map (\<lambda>(_, d). DataTcp k d) ps) s =
    Some (s\<lparr>tcp_conns := (tcp_conns s)(k \<mapsto> st\<lparr>pending := pending st @ concat (map snd ps)\<rparr>)\<rparr>)"
  using assms
proof (induction ps arbitrary: s st)
  case Nil
  have "(tcp_conns s)(k \<mapsto> st) = tcp_conns s" using Nil by (simp add: fun_upd_idem)
  then show ?case by simp
next
  case (Cons p ps)
  obtain r d where p: "p = (r, d)" by (cases p)
  let ?st = "st\<lparr>pending := pending st @ d\<rparr>"
  let ?s = "s\<lparr>tcp_conns := (tcp_conns s)(k \<mapsto> ?st)\<rparr>"
  have "tcp_conns ?s k = Some ?st" by simp
  from Cons.IH [OF this] show ?case using p Cons.prems by (simp add: fun_upd_upd del: fun_upd_apply)
qed

subsection \<open>Properties\<close>



text \<open>What a client sends reaches its connection: after a client's pieces were all taken and the
  stack handled the channel, the data waiting to be sent on that connection has grown by the pieces in
  order and nothing else has changed; when the client got an error it is that the stack is closed, and
  a beginning of its pieces is on the channel.\<close>

theorem sends_reach_connection:
  assumes "tcp_conns s k = Some st" and "send_pieces k ps [] = Some (q, r)"
  shows "case r of
      Inr _ \<Rightarrow> handle_all sm q s =
        Some (s\<lparr>tcp_conns := (tcp_conns s)(k \<mapsto> st\<lparr>pending := pending st @ concat (map snd ps)\<rparr>)\<rparr>)
    | Inl e \<Rightarrow> e = NETSTACK_CLOSED \<and> (\<exists>n < length ps. q = map (\<lambda>(_, d). DataTcp k d) (take n ps))"
proof (cases r)
  case (Inr u)
  then show ?thesis using send_pieces_queue [of k ps "[]" q u] handle_pieces [OF assms(1)] assms(2) by simp
next
  case (Inl e)
  then show ?thesis using send_pieces_error [of k ps "[]" q e] assms(2) by simp
qed

theorem sends_reach_connection_witness:
  "handle_all toy [DataTcp 1 [1, 2], DataTcp 1 [3]] (sample_opened []) =
     Some ((sample_opened [])\<lparr>tcp_conns := (tcp_conns (sample_opened []))
       (1 \<mapsto> sample_conn\<lparr>pending := pending sample_conn @ [1, 2, 3]\<rparr>)\<rparr>)"
proof -
  have "tcp_conns (sample_opened []) 1 = Some sample_conn" by (simp add: sample_opened_def)
  from sends_reach_connection [OF this, of "[(Taken, [1, 2]), (Taken, [3])]" "[DataTcp 1 [1, 2], DataTcp 1 [3]]" "Inr ()" toy]
  show ?thesis by (simp add: client_defs del: handle_all.simps)
qed

end
