(* ===== verification/Account.thy ===== *)
theory Account
  imports Tls Rng
begin

section \<open>Identities: the account API and the configuration files (account.rs, config.rs, lastconn.rs)\<close>

text \<open>
  Registration of a device, enrolment of the MASQUE key, and the files that keep the result.
  The crates the code calls are parameters in two records: what the certificate is built with,
  and the rest (base64, hex, x25519, the HTTP client, JSON and TOML). The state is the file
  system, the requests that were sent and the draws from the random generators; the answer of
  the server may depend on all earlier requests. \<open>None\<close> as a result is a panic.
\<close>

subsection \<open>Data\<close>

record registration =
  reg_key :: str
  install_id :: str
  fcm_token :: str
  tos :: str
  model :: str
  serial_number :: str
  os_version :: str
  reg_key_type :: str
  reg_tunnel_type :: str
  locale_name :: str

record device_update =
  upd_key :: str
  upd_key_type :: str
  upd_tunnel_type :: str
  upd_name :: "str option"

record account_data =
  acc_id :: str
  acc_token :: str
  acc_peers :: "str list"
  acc_v4 :: str
  acc_v6 :: str
  acc_client_id :: str

record identity =
  device_id :: str
  access_token :: str
  cert_pem :: bytes
  key_pem :: bytes
  ident_ipv4 :: str
  ident_ipv6 :: str
  wg_private_key :: bytes
  wg_peer_public_key :: bytes
  ident_client_id :: bytes

record masque_key_pair =
  mk_key_pem :: bytes
  mk_cert_pem :: bytes
  mk_spki_der :: bytes

record persisted_identity =
  p_device_id :: str
  p_access_token :: str
  p_cert_pem :: str
  p_key_pem :: str
  p_ipv4 :: str
  p_ipv6 :: str
  p_wg_private_key :: str
  p_wg_peer_public_key :: str
  p_client_id :: str

record last_connection =
  lc_peer :: str
  lc_profile :: str

datatype api_body = Register registration | Update device_update

record http_request =
  rq_method :: str
  rq_url :: str
  rq_headers :: "(str \<times> str) list"
  rq_bearer :: "str option"
  rq_body :: api_body

subsection \<open>Parameters and state\<close>

record ('p, 'x) x509_ops =
  ec_group :: "str option"
  ec_generate :: "nat \<Rightarrow> str + 'p"
  ec_pkey :: "'p \<Rightarrow> str option"
  pkey_pem :: "'p \<Rightarrow> str + bytes"
  pkey_der :: "'p \<Rightarrow> str + bytes"
  x509_new :: "str + 'x"
  x509_version :: "nat \<Rightarrow> 'x \<Rightarrow> str + 'x"
  serial_of :: "nat \<Rightarrow> str option"
  x509_serial :: "nat \<Rightarrow> 'x \<Rightarrow> str + 'x"
  name_new :: "str option"
  x509_subject :: "'x \<Rightarrow> str + 'x"
  x509_issuer :: "'x \<Rightarrow> str + 'x"
  days_from_now :: "nat \<Rightarrow> str option"
  x509_not_before :: "nat \<Rightarrow> 'x \<Rightarrow> str + 'x"
  x509_not_after :: "nat \<Rightarrow> 'x \<Rightarrow> str + 'x"
  x509_pubkey :: "'p \<Rightarrow> 'x \<Rightarrow> str + 'x"
  x509_sign :: "'p \<Rightarrow> 'x \<Rightarrow> str + 'x"
  x509_pem :: "'x \<Rightarrow> str + bytes"

text \<open>
  \<open>read_error\<close> says that a file that exists cannot be read as text, \<open>write_error\<close> that
  writing fails and what it leaves at the path.
\<close>

record ('p, 'x) account_env =
  x509 :: "('p, 'x) x509_ops"
  b64_encode :: "bytes \<Rightarrow> str"
  b64_decode :: "str \<Rightarrow> str + bytes"
  hex_encode :: "bytes \<Rightarrow> str"
  x25519_public :: "bytes \<Rightarrow> bytes"
  rng_source :: rng
  tos_now :: "nat \<Rightarrow> str"
  client_build :: "str option"
  server :: "http_request list \<Rightarrow> http_request \<Rightarrow> str + (nat \<times> (str + str))"
  status_text :: "nat \<Rightarrow> str"
  json_account :: "str \<Rightarrow> str + account_data"
  toml_of :: "persisted_identity \<Rightarrow> str + str"
  toml_to :: "str \<Rightarrow> str + persisted_identity"
  conn_of :: "last_connection \<Rightarrow> str + str"
  conn_to :: "str \<Rightarrow> str + last_connection"
  read_error :: "str \<Rightarrow> str \<Rightarrow> str option"
  write_error :: "str \<Rightarrow> str \<Rightarrow> (str \<times> str option) option"

record world =
  files :: "str \<Rightarrow> str option"
  sent :: "http_request list"
  draws :: nat
  keys_made :: nat

subsection \<open>The key pair of MASQUE\<close>

definition generate_masque_keypair :: "('p, 'x) account_env \<Rightarrow> world \<Rightarrow> world \<times> masque_key_pair result" where
  "generate_masque_keypair e w =
     (let b = x509 e in
      (w\<lparr>keys_made := keys_made w + 1\<rparr>,
       or_err Tls (ec_group b)
      (or_fail Tls (ec_generate b (keys_made w)) (\<lambda>pkey.
       or_err Tls (ec_pkey b pkey)
      (or_fail Tls (pkey_pem b pkey) (\<lambda>kpem.
       or_fail Tls (pkey_der b pkey) (\<lambda>spki.
       or_fail Tls (x509_new b) (\<lambda>x.
       or_fail Tls (x509_version b 2 x) (\<lambda>x.
       or_err Tls (serial_of b 0)
      (or_fail Tls (x509_serial b 0 x) (\<lambda>x.
       or_err Tls (name_new b)
      (or_fail Tls (x509_subject b x) (\<lambda>x.
       or_fail Tls (x509_issuer b x) (\<lambda>x.
       or_err Tls (days_from_now b 0)
      (or_err Tls (days_from_now b 1)
      (or_fail Tls (x509_not_before b 0 x) (\<lambda>x.
       or_fail Tls (x509_not_after b 1 x) (\<lambda>x.
       or_fail Tls (x509_pubkey b pkey x) (\<lambda>x.
       or_fail Tls (x509_sign b pkey x) (\<lambda>x.
       or_fail Tls (x509_pem b x) (\<lambda>cpem.
       Inr \<lparr>mk_key_pem = kpem, mk_cert_pem = cpem, mk_spki_der = spki\<rparr>)))))))))))))))))))))"

subsection \<open>The API\<close>

definition base_headers :: "(str \<times> str) list" where
  "base_headers = [(''Content-Type'', ''application/json; charset=UTF-8''), (''Connection'', ''Keep-Alive''),
     (''CF-Client-Version'', CF_CLIENT_VERSION)]"

definition clamp_key :: "bytes \<Rightarrow> bytes" where
  "clamp_key k = (let k = k[0 := k ! 0 AND 248]; k = k[31 := k ! 31 AND 127] in k[31 := k ! 31 OR 64])"

definition generate_x25519_keypair :: "('p, 'x) account_env \<Rightarrow> world \<Rightarrow> world \<times> bytes \<times> str" where
  "generate_x25519_keypair e w =
     (let private = clamp_key (drawn (fill_bytes (rng_source e) 32) (draws w))
      in (w\<lparr>draws := draws w + 32\<rparr>, private, b64_encode e (x25519_public e private)))"

definition random_android_serial :: "('p, 'x) account_env \<Rightarrow> world \<Rightarrow> world \<times> str" where
  "random_android_serial e w =
     (w\<lparr>draws := draws w + 8\<rparr>, hex_encode e (drawn (fill_bytes (rng_source e) 8) (draws w)))"

definition parse_account :: "('p, 'x) account_env \<Rightarrow> nat \<times> (str + str) \<Rightarrow> account_data result" where
  "parse_account e resp =
     (case resp of (status, body) \<Rightarrow>
       or_fail Api body (\<lambda>t.
         if \<not> is_success status then Inl (Api (''status '' @ status_text e status @ '': '' @ t))
         else or_fail (\<lambda>err. Api (''decode: '' @ err @ ''; body='' @ t)) (json_account e t) Inr))"

text \<open>Building the client, sending, and reading the answer.\<close>

definition api_call :: "('p, 'x) account_env \<Rightarrow> http_request \<Rightarrow> world \<Rightarrow> world \<times> account_data result" where
  "api_call e rq w =
     (case client_build e of
        Some err \<Rightarrow> (w, Inl (Api err))
      | None \<Rightarrow> (w\<lparr>sent := sent w @ [rq]\<rparr>, or_fail Api (server e (sent w) rq) (parse_account e)))"

definition register_request :: "registration \<Rightarrow> str option \<Rightarrow> http_request" where
  "register_request body jwt =
     \<lparr>rq_method = ''POST'', rq_url = API_URL @ ''/'' @ API_VERSION @ ''/reg'',
       rq_headers = base_headers @ (case jwt of Some j \<Rightarrow> [(''CF-Access-Jwt-Assertion'', j)] | None \<Rightarrow> []),
       rq_bearer = None, rq_body = Register body\<rparr>"

definition register :: "('p, 'x) account_env \<Rightarrow> str \<Rightarrow> str \<Rightarrow> str option \<Rightarrow> world
    \<Rightarrow> world \<times> (account_data \<times> bytes) result" where
  "register e mdl loc jwt w =
     (let (w, wg_private, wg_public) = generate_x25519_keypair e w;
          now = tos_now e (draws w);
          (w, serial) = random_android_serial e w;
          body = \<lparr>reg_key = wg_public, install_id = [], fcm_token = [], tos = now, model = mdl,
                   serial_number = serial, os_version = [], reg_key_type = ''curve25519'',
                   reg_tunnel_type = ''wireguard'', locale_name = loc\<rparr>
      in andthen (api_call e (register_request body jwt) w) (\<lambda>account w. (w, Inr (account, wg_private))))"

definition enroll_key :: "('p, 'x) account_env \<Rightarrow> str \<Rightarrow> str \<Rightarrow> bytes \<Rightarrow> str option \<Rightarrow> world \<Rightarrow> world \<times> account_data result" where
  "enroll_key e dev token spki name w =
     (let body = \<lparr>upd_key = b64_encode e spki, upd_key_type = KEY_TYPE_MASQUE, upd_tunnel_type = TUN_TYPE_MASQUE,
                   upd_name = name\<rparr>;
          rq = \<lparr>rq_method = ''PATCH'', rq_url = API_URL @ ''/'' @ API_VERSION @ ''/reg/'' @ dev,
                 rq_headers = base_headers, rq_bearer = Some token, rq_body = Update body\<rparr>
      in api_call e rq w)"

definition extract_wg_peer :: "('p, 'x) account_env \<Rightarrow> account_data \<Rightarrow> bytes result" where
  "extract_wg_peer e reg =
     (case acc_peers reg of
        [] \<Rightarrow> Inl (Api ''no peers in registration response'')
      | peer # _ \<Rightarrow>
          or_fail (\<lambda>err. Api (''decode peer pubkey: '' @ err)) (b64_decode e peer) (\<lambda>d.
            if length d \<noteq> 32 then Inl (Api ''invalid peer pubkey length'') else Inr d))"

text \<open>A client id that is missing, or not three bytes of base64, counts as zeros.\<close>

definition decode_client_id :: "('p, 'x) account_env \<Rightarrow> str \<Rightarrow> bytes" where
  "decode_client_id e s =
     (if s = [] then [0, 0, 0]
      else (case b64_decode e s of
              Inr d \<Rightarrow> if length d = 3 then d else [0, 0, 0]
            | Inl _ \<Rightarrow> [0, 0, 0]))"

definition provision_wg :: "('p, 'x) account_env \<Rightarrow> str \<Rightarrow> str \<Rightarrow> str option \<Rightarrow> world \<Rightarrow> world \<times> identity result" where
  "provision_wg e mdl loc jwt w =
     andthen (register e mdl loc jwt w) (\<lambda>(reg, wg_private) w.
       if acc_token reg = [] then (w, Inl (Api ''registration returned empty token''))
       else
         (w, case extract_wg_peer e reg of
               Inl err \<Rightarrow> Inl err
             | Inr peer \<Rightarrow>
                 Inr \<lparr>device_id = acc_id reg, access_token = acc_token reg, cert_pem = [], key_pem = [],
                   ident_ipv4 = acc_v4 reg, ident_ipv6 = acc_v6 reg, wg_private_key = wg_private,
                   wg_peer_public_key = peer, ident_client_id = decode_client_id e (acc_client_id reg)\<rparr>))"

definition has_masque_credentials :: "identity \<Rightarrow> bool" where
  "has_masque_credentials i \<longleftrightarrow> cert_pem i \<noteq> [] \<and> key_pem i \<noteq> []"

definition ensure_masque_enrolled :: "('p, 'x) account_env \<Rightarrow> identity \<Rightarrow> world \<Rightarrow> world \<times> (bytes \<times> bytes) result" where
  "ensure_masque_enrolled e i w =
     (if cert_pem i \<noteq> [] \<and> key_pem i \<noteq> [] then (w, Inr (cert_pem i, key_pem i))
      else
        andthen (generate_masque_keypair e w) (\<lambda>kp w.
        andthen (enroll_key e (device_id i) (access_token i) (mk_spki_der kp) None w) (\<lambda>_ w.
          (w, Inr (mk_cert_pem kp, mk_key_pem kp)))))"

subsection \<open>The configuration file\<close>

definition persisted_of :: "('p, 'x) account_env \<Rightarrow> identity \<Rightarrow> persisted_identity" where
  "persisted_of e i =
     \<lparr>p_device_id = device_id i, p_access_token = access_token i,
      p_cert_pem = bytes_text (from_utf8_lossy (cert_pem i)), p_key_pem = bytes_text (from_utf8_lossy (key_pem i)),
      p_ipv4 = ident_ipv4 i, p_ipv6 = ident_ipv6 i, p_wg_private_key = b64_encode e (wg_private_key i),
      p_wg_peer_public_key = b64_encode e (wg_peer_public_key i), p_client_id = b64_encode e (ident_client_id i)\<rparr>"

text \<open>The keys are decoded with \<open>expect\<close> and copied with \<open>copy_from_slice\<close>: both panic.\<close>

definition identity_of :: "('p, 'x) account_env \<Rightarrow> persisted_identity \<Rightarrow> identity option" where
  "identity_of e p =
     (case b64_decode e (p_wg_private_key p) of
        Inl _ \<Rightarrow> None
      | Inr priv \<Rightarrow>
          (case b64_decode e (p_wg_peer_public_key p) of
             Inl _ \<Rightarrow> None
           | Inr peer \<Rightarrow>
               if length priv \<noteq> 32 \<or> length peer \<noteq> 32 then None
               else Some \<lparr>device_id = p_device_id p, access_token = p_access_token p,
                 cert_pem = text_bytes (p_cert_pem p), key_pem = text_bytes (p_key_pem p),
                 ident_ipv4 = p_ipv4 p, ident_ipv6 = p_ipv6 p, wg_private_key = priv,
                 wg_peer_public_key = peer, ident_client_id = decode_client_id e (p_client_id p)\<rparr>))"

definition read_to_string :: "('p, 'x) account_env \<Rightarrow> str \<Rightarrow> world \<Rightarrow> str result" where
  "read_to_string e path w =
     (case files w path of
        None \<Rightarrow> Inl (Io ''entity not found'')
      | Some t \<Rightarrow> (case read_error e path t of Some err \<Rightarrow> Inl (Io err) | None \<Rightarrow> Inr t))"

definition write_file :: "('p, 'x) account_env \<Rightarrow> str \<Rightarrow> str \<Rightarrow> world \<Rightarrow> world \<times> unit result" where
  "write_file e path t w =
     (case write_error e path t of
        None \<Rightarrow> (w\<lparr>files := (files w)(path \<mapsto> t)\<rparr>, Inr ())
      | Some (err, left) \<Rightarrow> (w\<lparr>files := (files w)(path := left)\<rparr>, Inl (Io err)))"

definition config_load :: "('p, 'x) account_env \<Rightarrow> str \<Rightarrow> world \<Rightarrow> identity option result option" where
  "config_load e path w =
     (if files w path = None then Some (Inr None)
      else
        (case read_to_string e path w of
           Inl err \<Rightarrow> Some (Inl err)
         | Inr t \<Rightarrow>
             (case toml_to e t of
                Inl err \<Rightarrow> Some (Inl (Other (''config parse: '' @ err)))
              | Inr p \<Rightarrow> map_option (\<lambda>i. Inr (Some i)) (identity_of e p))))"

definition config_save :: "('p, 'x) account_env \<Rightarrow> str \<Rightarrow> identity \<Rightarrow> world \<Rightarrow> world \<times> unit result" where
  "config_save e path i w =
     (case toml_of e (persisted_of e i) of
        Inl err \<Rightarrow> (w, Inl (Other (''config encode: '' @ err)))
      | Inr t \<Rightarrow> write_file e path t w)"

definition save_masque_creds :: "('p, 'x) account_env \<Rightarrow> str \<Rightarrow> bytes \<Rightarrow> bytes \<Rightarrow> world \<Rightarrow> world \<times> unit result" where
  "save_masque_creds e path cert key w =
     (if files w path = None then (w, Inr ())
      else
        (case read_to_string e path w of
           Inl err \<Rightarrow> (w, Inl err)
         | Inr t \<Rightarrow>
             (case toml_to e t of
                Inl err \<Rightarrow> (w, Inl (Other (''config parse: '' @ err)))
              | Inr p \<Rightarrow>
                  (case toml_of e (p\<lparr>p_cert_pem := bytes_text (from_utf8_lossy cert),
                                     p_key_pem := bytes_text (from_utf8_lossy key)\<rparr>) of
                     Inl err \<Rightarrow> (w, Inl (Other (''config encode: '' @ err)))
                   | Inr t \<Rightarrow> write_file e path t w))))"

subsection \<open>The last connection\<close>

definition lastconn_load :: "('p, 'x) account_env \<Rightarrow> str \<Rightarrow> world \<Rightarrow> last_connection option" where
  "lastconn_load e path w =
     (case read_to_string e path w of
        Inl _ \<Rightarrow> None
      | Inr t \<Rightarrow> (case conn_to e t of Inl _ \<Rightarrow> None | Inr c \<Rightarrow> Some c))"

definition lastconn_save :: "('p, 'x) account_env \<Rightarrow> str \<Rightarrow> str \<Rightarrow> str \<Rightarrow> world \<Rightarrow> world" where
  "lastconn_save e path peer profile w =
     (case conn_of e \<lparr>lc_peer = peer, lc_profile = profile\<rparr> of
        Inl _ \<Rightarrow> w
      | Inr t \<Rightarrow> fst (write_file e path t w))"

subsection \<open>Loading or provisioning an identity (main.rs)\<close>

definition load_or_provision_warp :: "('p, 'x) account_env \<Rightarrow> str \<Rightarrow> world \<Rightarrow> (world \<times> identity result) option" where
  "load_or_provision_warp e path w = do {
     loaded \<leftarrow> config_load e path w;
     Some
       (case loaded of
          Inl err \<Rightarrow> (w, Inl err)
        | Inr (Some i) \<Rightarrow> (w, Inr i)
        | Inr None \<Rightarrow>
            andthen (provision_wg e DEFAULT_MODEL DEFAULT_LOCALE None w) (\<lambda>i w.
            andthen (config_save e path i w) (\<lambda>_ w. (w, Inr i))))
   }"

definition enroll_and_save :: "('p, 'x) account_env \<Rightarrow> str \<Rightarrow> identity \<Rightarrow> world \<Rightarrow> world \<times> identity result" where
  "enroll_and_save e path i w =
     andthen (ensure_masque_enrolled e i w) (\<lambda>(cert, key) w.
       let i = i\<lparr>cert_pem := cert, key_pem := key\<rparr> in
       andthen (config_save e path i w) (\<lambda>_ w. (w, Inr i)))"

definition load_or_provision_masque :: "('p, 'x) account_env \<Rightarrow> str \<Rightarrow> world \<Rightarrow> (world \<times> identity result) option" where
  "load_or_provision_masque e path w = do {
     loaded \<leftarrow> config_load e path w;
     Some
       (case loaded of
          Inl err \<Rightarrow> (w, Inl err)
        | Inr (Some i) \<Rightarrow> (if has_masque_credentials i then (w, Inr i) else enroll_and_save e path i w)
        | Inr None \<Rightarrow>
            andthen (provision_wg e DEFAULT_MODEL DEFAULT_LOCALE None w) (enroll_and_save e path))
   }"

subsection \<open>What the crates promise\<close>

text \<open>
  base64 and TOML decode what they encode, and PEM is text in ASCII that is never empty.
\<close>

locale account_codec =
  fixes e :: "('p, 'x) account_env"
  assumes b64_roundtrip: "b64_decode e (b64_encode e bs) = Inr bs"
    and b64_nonempty: "bs \<noteq> [] \<Longrightarrow> b64_encode e bs \<noteq> []"
    and toml_roundtrip: "toml_of e p = Inr t \<Longrightarrow> toml_to e t = Inr p"
    and pkey_pem_ascii: "pkey_pem (x509 e) pk = Inr pem \<Longrightarrow> pem \<noteq> [] \<and> (\<forall>b \<in> set pem. b < 0x80)"
    and conn_roundtrip: "conn_of e c = Inr s \<Longrightarrow> conn_to e s = Inr c"
    and x509_pem_ascii: "x509_pem (x509 e) x = Inr pem \<Longrightarrow> pem \<noteq> [] \<and> (\<forall>b \<in> set pem. b < 0x80)"

text \<open>The shape the arrays of \<open>Identity\<close> have by their types, with PEM that is text.\<close>

definition identity_wf :: "identity \<Rightarrow> bool" where
  "identity_wf i \<longleftrightarrow> length (wg_private_key i) = 32 \<and> length (wg_peer_public_key i) = 32
     \<and> length (ident_client_id i) = 3 \<and> from_utf8_lossy (cert_pem i) = cert_pem i
     \<and> from_utf8_lossy (key_pem i) = key_pem i"

definition clamped :: "bytes \<Rightarrow> bool" where
  "clamped k \<longleftrightarrow> length k = 32 \<and> k ! 0 AND 7 = 0 \<and> k ! 31 AND 0xC0 = 0x40"

lemma or_fail_Inr: "or_fail f r k = Inr y \<longleftrightarrow> (\<exists>x. r = Inr x \<and> k x = Inr y)"
  by (simp add: or_fail_def split: sum.split)

lemma or_err_Inr: "or_err f r k = Inr y \<longleftrightarrow> r = None \<and> k = Inr y"
  by (simp add: or_err_def split: option.split)

lemma andthen_Inr: "andthen r k = (s, Inr y) \<longleftrightarrow> (\<exists>s1 x. r = (s1, Inr x) \<and> k x s1 = (s, Inr y))"
  by (auto simp: andthen_def split: prod.splits sum.splits)

lemma length_decode_client_id [simp]: "length (decode_client_id e s) = 3"
  by (simp add: decode_client_id_def split: sum.split)

lemma clamp_key_clamped: "length k = 32 \<Longrightarrow> clamped (clamp_key k)"
proof -
  assume "length k = 32"
  moreover have "(b AND 248) AND 7 = (0 :: u8)" for b by (simp add: and.assoc)
  moreover have "((b AND 127) OR 64) AND 0xC0 = (0x40 :: u8)" for b
  proof -
    have "(b AND 64) OR 64 = (64 :: u8)" by (rule bit_word_eqI) (auto simp: bit_simps)
    then show ?thesis by (simp add: bit.conj_disj_distrib2 and.assoc)
  qed
  ultimately show ?thesis by (simp add: clamped_def clamp_key_def Let_def)
qed

lemma files_write_Inr: "write_file e path t w = (w', Inr ()) \<Longrightarrow> w' = w\<lparr>files := (files w)(path \<mapsto> t)\<rparr>"
  by (auto simp: write_file_def split: option.splits prod.splits)

lemma api_call_files: "files (fst (api_call e rq w)) = files w"
  by (simp add: api_call_def split: option.split)

lemma identity_of_wf: "identity_of e p = Some i \<Longrightarrow>
    length (wg_private_key i) = 32 \<and> length (wg_peer_public_key i) = 32 \<and> length (ident_client_id i) = 3"
  by (auto simp: identity_of_def split: sum.splits if_splits)

context account_codec begin

lemma identity_of_persisted: "identity_wf i \<Longrightarrow> identity_of e (persisted_of e i) = Some i"
proof -
  assume wf: "identity_wf i"
  then have "ident_client_id i \<noteq> []" by (auto simp: identity_wf_def)
  then show ?thesis
    using wf b64_nonempty by (auto simp: identity_of_def persisted_of_def identity_wf_def b64_roundtrip decode_client_id_def)
qed

lemma save_load:
  assumes "config_save e path i w = (w', Inr ())" and wf: "identity_wf i" and rd: "\<And>t. read_error e path t = None"
  shows "config_load e path w' = Some (Inr (Some i))"
proof -
  obtain t where t: "toml_of e (persisted_of e i) = Inr t" "write_file e path t w = (w', Inr ())"
    using assms(1) by (auto simp: config_save_def split: sum.splits)
  have "files w' path = Some t" using files_write_Inr [OF t(2)] by simp
  then show ?thesis
    using toml_roundtrip [OF t(1)] identity_of_persisted [OF wf] rd by (simp add: config_load_def read_to_string_def)
qed

lemma keypair_pem:
  assumes "generate_masque_keypair e w = (w', Inr kp)"
  shows "mk_cert_pem kp \<noteq> [] \<and> mk_key_pem kp \<noteq> [] \<and> from_utf8_lossy (mk_cert_pem kp) = mk_cert_pem kp
    \<and> from_utf8_lossy (mk_key_pem kp) = mk_key_pem kp"
proof -
  obtain x pk where "x509_pem (x509 e) x = Inr (mk_cert_pem kp)" "pkey_pem (x509 e) pk = Inr (mk_key_pem kp)"
    using assms by (auto simp: generate_masque_keypair_def Let_def or_fail_Inr or_err_Inr)
  then show ?thesis using pkey_pem_ascii x509_pem_ascii from_utf8_lossy_ascii by blast
qed

lemma enroll_and_save_then_load:
  assumes r: "enroll_and_save e path i0 w = (w', Inr i)" and rd: "\<And>t. read_error e path t = None"
    and len: "length (wg_private_key i0) = 32" "length (wg_peer_public_key i0) = 32" "length (ident_client_id i0) = 3"
    and new: "\<not> has_masque_credentials i0"
  shows "config_load e path w' = Some (Inr (Some i)) \<and> has_masque_credentials i"
proof -
  obtain cert key w1 where en: "ensure_masque_enrolled e i0 w = (w1, Inr (cert, key))"
    and i: "i = i0\<lparr>cert_pem := cert, key_pem := key\<rparr>" "config_save e path i w1 = (w', Inr ())"
    using r by (auto simp: enroll_and_save_def andthen_Inr Let_def)
  obtain kp w2 where kp: "generate_masque_keypair e w = (w2, Inr kp)" "cert = mk_cert_pem kp" "key = mk_key_pem kp"
    using en new by (auto simp: ensure_masque_enrolled_def has_masque_credentials_def andthen_Inr split: if_splits)
  have wf: "identity_wf i" using keypair_pem [OF kp(1)] kp i(1) len by (simp add: identity_wf_def)
  show ?thesis
    using save_load [OF i(2) wf rd] keypair_pem [OF kp(1)] kp i(1) by (simp add: has_masque_credentials_def)
qed

text \<open>The last connection that was saved is the one that is loaded.\<close>

lemma lastconn_roundtrip:
  assumes "conn_of e \<lparr>lc_peer = peer, lc_profile = profile\<rparr> = Inr line"
    and "write_error e path line = None" and "read_error e path line = None"
  shows "lastconn_load e path (lastconn_save e path peer profile w) = Some \<lparr>lc_peer = peer, lc_profile = profile\<rparr>"
  using assms conn_roundtrip [OF assms(1)]
  by (simp add: lastconn_load_def lastconn_save_def read_to_string_def write_file_def)

end

lemma provision_wg_cases:
  assumes "provision_wg e mdl loc jwt w = (w', Inr i)"
  obtains rq body reg status t where "sent w' = sent w @ [rq]" "rq_method rq = ''POST''" "rq_body rq = Register body"
    "reg_key body = b64_encode e (x25519_public e (wg_private_key i))" "server e (sent w) rq = Inr (status, Inr t)"
    "is_success status" "json_account e t = Inr reg" "access_token i = acc_token reg" "acc_token reg \<noteq> []"
    "clamped (wg_private_key i)" "length (wg_peer_public_key i) = 32" "length (ident_client_id i) = 3"
    "cert_pem i = []" "key_pem i = []" "files w' = files w"
proof -
  let ?priv = "clamp_key (drawn (fill_bytes (rng_source e) 32) (draws w))"
  have c: "clamped ?priv" by (rule clamp_key_clamped) simp
  obtain reg priv w1 where r: "register e mdl loc jwt w = (w1, Inr (reg, priv))" "acc_token reg \<noteq> []"
    and ex: "w' = w1" "extract_wg_peer e reg = Inr (wg_peer_public_key i)"
    and i: "access_token i = acc_token reg" "cert_pem i = []" "key_pem i = []" "wg_private_key i = priv"
      "ident_client_id i = decode_client_id e (acc_client_id reg)"
    using assms by (auto simp: provision_wg_def andthen_Inr split: if_splits sum.splits)
  have peer: "length (wg_peer_public_key i) = 32"
    using ex(2) by (auto simp: extract_wg_peer_def or_fail_Inr split: list.splits if_splits)
  define body where "body = \<lparr>reg_key = b64_encode e (x25519_public e ?priv), install_id = [], fcm_token = [],
    tos = tos_now e (draws w + 32), model = mdl,
    serial_number = hex_encode e (drawn (fill_bytes (rng_source e) 8) (draws w + 32)), os_version = [],
    reg_key_type = ''curve25519'', reg_tunnel_type = ''wireguard'', locale_name = loc\<rparr>"
  let ?w = "w\<lparr>draws := draws w + 32 + 8\<rparr>"
  have "register e mdl loc jwt w = andthen (api_call e (register_request body jwt) ?w) (\<lambda>account w. (w, Inr (account, ?priv)))"
    by (simp add: register_def generate_x25519_keypair_def random_android_serial_def Let_def body_def)
  then have "andthen (api_call e (register_request body jwt) ?w) (\<lambda>account w. (w, Inr (account, ?priv))) = (w1, Inr (reg, priv))"
    using r(1) by (rule subst [of _ _ "\<lambda>x. x = _"])
  then obtain w2 account where "api_call e (register_request body jwt) ?w = (w2, Inr account)"
      "(w2, Inr (account, ?priv) :: (account_data \<times> bytes) result) = (w1, Inr (reg, priv))"
    unfolding andthen_Inr by blast
  then have body: "api_call e (register_request body jwt) ?w = (w1, Inr reg)" "?priv = priv"
    by (simp_all only: prod.inject sum.inject)
  have key: "reg_key body = b64_encode e (x25519_public e ?priv)" by (simp add: body_def)
  let ?rq = "register_request body jwt"
  obtain resp where resp: "server e (sent w) ?rq = Inr resp" "parse_account e resp = Inr reg"
      and w1: "sent w1 = sent w @ [?rq]" "files w1 = files w"
    using body(1) by (auto simp: api_call_def or_fail_Inr split: option.splits)
  obtain status t where "resp = (status, Inr t)" "is_success status" "json_account e t = Inr reg"
    using resp(2) by (auto simp: parse_account_def or_fail_Inr split: prod.splits if_splits)
  moreover have "rq_method ?rq = ''POST''" "rq_body ?rq = Register body" by (simp_all add: register_request_def)
  ultimately show thesis using that [of ?rq body status t reg] resp(1) w1 body(2) key r(2) ex(1) i peer c by simp
qed

subsection \<open>A concrete set of crates\<close>

text \<open>
  Texts are written with a mark before every character and a stop at the end, so that what was
  written can be read back; the server accepts every request.
\<close>

fun quote :: "str \<Rightarrow> str" where
  "quote [] = ''.''"
| "quote (c # s) = CHR ''x'' # c # quote s"

fun unquote :: "str \<Rightarrow> (str \<times> str) option" where
  "unquote [] = None"
| "unquote [c] = (if c = CHR ''.'' then Some ([], []) else None)"
| "unquote (c # d # s) =
     (if c = CHR ''.'' then Some ([], d # s) else map_option (\<lambda>(a, r). (d # a, r)) (unquote s))"

lemma unquote_quote [simp]: "unquote (quote s @ r) = Some (s, r)"
  by (induction s) (cases r; simp)+

lemma unquote_quote_end [simp]: "unquote (quote s) = Some (s, [])"
  using unquote_quote [of s "[]"] by simp

definition sample_toml_of :: "persisted_identity \<Rightarrow> str + str" where
  "sample_toml_of p = Inr (quote (p_device_id p) @ quote (p_access_token p) @ quote (p_cert_pem p) @ quote (p_key_pem p)
     @ quote (p_ipv4 p) @ quote (p_ipv6 p) @ quote (p_wg_private_key p) @ quote (p_wg_peer_public_key p)
     @ quote (p_client_id p))"

definition sample_toml_to :: "str \<Rightarrow> str + persisted_identity" where
  "sample_toml_to t =
     (case (do { (a, t) \<leftarrow> unquote t; (b, t) \<leftarrow> unquote t; (c, t) \<leftarrow> unquote t; (d, t) \<leftarrow> unquote t;
                 (i, t) \<leftarrow> unquote t; (j, t) \<leftarrow> unquote t; (k, t) \<leftarrow> unquote t; (l, t) \<leftarrow> unquote t;
                 (m, t) \<leftarrow> unquote t;
                 Some \<lparr>p_device_id = a, p_access_token = b, p_cert_pem = c, p_key_pem = d, p_ipv4 = i, p_ipv6 = j,
                   p_wg_private_key = k, p_wg_peer_public_key = l, p_client_id = m\<rparr> }) of
        Some p \<Rightarrow> Inr p | None \<Rightarrow> Inl ''expected a quoted text'')"

definition sample_conn_to :: "str \<Rightarrow> str + last_connection" where
  "sample_conn_to s =
     (case unquote s of
        Some (p, r) \<Rightarrow> (case unquote r of Some (q, []) \<Rightarrow> Inr \<lparr>lc_peer = p, lc_profile = q\<rparr> | _ \<Rightarrow> Inl ''conn'')
      | None \<Rightarrow> Inl ''conn'')"

definition sample_x509 :: "(unit, unit) x509_ops" where
  "sample_x509 = \<lparr>ec_group = None, ec_generate = (\<lambda>_. Inr ()), ec_pkey = (\<lambda>_. None), pkey_pem = (\<lambda>_. Inr [75]),
     pkey_der = (\<lambda>_. Inr [1]), x509_new = Inr (), x509_version = (\<lambda>_ x. Inr x), serial_of = (\<lambda>_. None),
     x509_serial = (\<lambda>_ x. Inr x), name_new = None, x509_subject = Inr, x509_issuer = Inr, days_from_now = (\<lambda>_. None),
     x509_not_before = (\<lambda>_ x. Inr x), x509_not_after = (\<lambda>_ x. Inr x), x509_pubkey = (\<lambda>_ x. Inr x),
     x509_sign = (\<lambda>_ x. Inr x), x509_pem = (\<lambda>_. Inr [67])\<rparr>"

definition sample_b64 :: "bytes \<Rightarrow> str" where
  "sample_b64 bs = CHR ''+'' # bytes_text bs"

definition sample_account :: account_data where
  "sample_account = \<lparr>acc_id = ''dev'', acc_token = ''tok'', acc_peers = [sample_b64 (replicate 32 1)], acc_v4 = ''172.16.0.2'',
     acc_v6 = ''2606:4700:110::2'', acc_client_id = sample_b64 [1, 2, 3]\<rparr>"

definition sample_api :: "(unit, unit) account_env" where
  "sample_api = \<lparr>x509 = sample_x509, b64_encode = sample_b64,
     b64_decode = (\<lambda>s. case s of [] \<Rightarrow> Inl ''empty'' | _ # r \<Rightarrow> Inr (text_bytes r)), hex_encode = bytes_text,
     x25519_public = (\<lambda>k. k), rng_source = (\<lambda>i. i), tos_now = (\<lambda>_. ''2024''), client_build = None,
     server = (\<lambda>_ _. Inr (200, Inr ''{}'')), status_text = show_nat, json_account = (\<lambda>_. Inr sample_account),
     toml_of = sample_toml_of, toml_to = sample_toml_to, conn_of = (\<lambda>c. Inr (quote (lc_peer c) @ quote (lc_profile c))),
     conn_to = sample_conn_to, read_error = (\<lambda>_ _. None), write_error = (\<lambda>_ _. None)\<rparr>"

interpretation sample_crates: account_codec sample_api
  by unfold_locales
    (auto simp: sample_api_def sample_b64_def sample_x509_def sample_toml_of_def sample_toml_to_def sample_conn_to_def)

definition fresh_world :: world where
  "fresh_world = \<lparr>files = Map.empty, sent = [], draws = 0, keys_made = 0\<rparr>"

subsection \<open>Properties\<close>

text \<open>C32. Saving an identity and loading it gives the identity back, keys, client id and PEM texts
  included.\<close>

theorem config_roundtrip:
  assumes "account_codec e" and "identity_wf i" and "\<forall>t. read_error e path t = None"
    and "config_save e path i w = (w', Inr ())"
  shows "config_load e path w' = Some (Inr (Some i))"
  using account_codec.save_load [OF assms(1, 4, 2)] assms(3) by blast

definition sample_identity :: identity where
  "sample_identity = \<lparr>device_id = ''dev'', access_token = ''tok'', cert_pem = [67], key_pem = [75], ident_ipv4 = ''172.16.0.2'',
     ident_ipv6 = [], wg_private_key = replicate 32 7, wg_peer_public_key = replicate 32 9, ident_client_id = [1, 2, 3]\<rparr>"

theorem config_roundtrip_witness:
  "config_load sample_api ''aether.toml'' (fst (config_save sample_api ''aether.toml'' sample_identity fresh_world))
     = Some (Inr (Some sample_identity))"
proof -
  have "identity_wf sample_identity"
    by (simp add: identity_wf_def sample_identity_def from_utf8_lossy_ascii)
  moreover have "\<forall>t. read_error sample_api ''aether.toml'' t = None" by (simp add: sample_api_def)
  moreover obtain w where "config_save sample_api ''aether.toml'' sample_identity fresh_world = (w, Inr ())"
    by (simp add: config_save_def write_file_def sample_api_def sample_toml_of_def)
  ultimately show ?thesis using config_roundtrip [OF sample_crates.account_codec_axioms] by fastforce
qed

text \<open>An identity that was obtained for MASQUE is the one in the file.\<close>

lemma masque_identity_stored:
  assumes "account_codec e" and "\<forall>t. read_error e path t = None"
    and "load_or_provision_masque e path w = Some (w', Inr i)"
  shows "config_load e path w' = Some (Inr (Some i)) \<and> has_masque_credentials i"
proof -
  obtain loaded where l: "config_load e path w = Some (Inr loaded)"
  proof (cases "config_load e path w")
    case (Some r)
    then show ?thesis using that assms(3) by (cases r) (auto simp: load_or_provision_masque_def)
  qed (use assms(3) in \<open>simp add: load_or_provision_masque_def\<close>)
  have enrolled: ?thesis
    if "enroll_and_save e path i0 w0 = (w', Inr i)" "length (wg_private_key i0) = 32" "length (wg_peer_public_key i0) = 32"
      "length (ident_client_id i0) = 3" "\<not> has_masque_credentials i0" for i0 w0
    by (rule account_codec.enroll_and_save_then_load [OF assms(1) that(1) _ that(2-5)]) (use assms(2) in blast)
  show ?thesis
  proof (cases loaded)
    case None
    then obtain i0 w0 where p: "provision_wg e DEFAULT_MODEL DEFAULT_LOCALE None w = (w0, Inr i0)"
        "enroll_and_save e path i0 w0 = (w', Inr i)"
      using assms(3) l by (auto simp: load_or_provision_masque_def andthen_Inr)
    have "clamped (wg_private_key i0)" "length (wg_peer_public_key i0) = 32" "length (ident_client_id i0) = 3" "cert_pem i0 = []"
      by (rule provision_wg_cases [OF p(1)]; simp)+
    then show ?thesis using enrolled [OF p(2)] by (simp add: clamped_def has_masque_credentials_def)
  next
    case (Some i0)
    show ?thesis
    proof (cases "has_masque_credentials i0")
      case True
      then show ?thesis using assms(3) l Some by (auto simp: load_or_provision_masque_def)
    next
      case False
      then have en: "enroll_and_save e path i0 w = (w', Inr i)"
        using assms(3) l Some by (simp add: load_or_provision_masque_def)
      obtain p where "identity_of e p = Some i0"
        using l Some by (auto simp: config_load_def split: if_splits sum.splits)
      from identity_of_wf [OF this] show ?thesis using enrolled [OF en] False by simp
    qed
  qed
qed

text \<open>Once a MASQUE identity was obtained, from the file, by enrolling a key for the device in the
  file, or by registering a new device, it carries credentials and every later start loads the
  same identity without a request to the server.\<close>

theorem masque_start_repeats:
  assumes "account_codec e" and "\<forall>t. read_error e path t = None"
    and "load_or_provision_masque e path w = Some (w', Inr i)"
  shows "has_masque_credentials i \<and> load_or_provision_masque e path w' = Some (w', Inr i)"
  using masque_identity_stored [OF assms] by (simp add: load_or_provision_masque_def)

lemma sample_start: "\<exists>w' i. load_or_provision_masque sample_api ''aether-masque.toml'' fresh_world = Some (w', Inr i)"
  by (simp add: load_or_provision_masque_def config_load_def fresh_world_def provision_wg_def register_def
      generate_x25519_keypair_def random_android_serial_def api_call_def parse_account_def extract_wg_peer_def
      enroll_and_save_def ensure_masque_enrolled_def generate_masque_keypair_def enroll_key_def config_save_def write_file_def
      or_err_def or_fail_def is_success_def sample_api_def sample_x509_def sample_account_def sample_b64_def
      sample_toml_of_def Let_def)

theorem masque_start_repeats_witness:
  "\<exists>w i. load_or_provision_masque sample_api ''aether-masque.toml'' w = Some (w, Inr i) \<and> has_masque_credentials i"
proof -
  obtain w i where s: "load_or_provision_masque sample_api ''aether-masque.toml'' fresh_world = Some (w, Inr i)"
    using sample_start by blast
  have "\<forall>t. read_error sample_api ''aether-masque.toml'' t = None" by (simp add: sample_api_def)
  from masque_start_repeats [OF sample_crates.account_codec_axioms this s] show ?thesis by blast
qed

text \<open>C39. A registered identity is sound: the server accepted exactly one POST with the public key of
  the private key that is kept, the private key is clamped as X25519 wants it, the token is not
  empty, the peer key has 32 bytes and the client id three, and no file was touched.\<close>

theorem provision_wg_sound:
  assumes "provision_wg e mdl loc jwt w = (w', Inr i)"
  shows "(\<exists>rq body. sent w' = sent w @ [rq] \<and> rq_method rq = ''POST'' \<and> rq_body rq = Register body \<and>
      reg_key body = b64_encode e (x25519_public e (wg_private_key i)) \<and>
      (\<exists>status t. server e (sent w) rq = Inr (status, Inr t) \<and> is_success status)) \<and>
    clamped (wg_private_key i) \<and> access_token i \<noteq> [] \<and> length (wg_peer_public_key i) = 32 \<and>
    length (ident_client_id i) = 3 \<and> files w' = files w"
  by (rule provision_wg_cases [OF assms]) auto

theorem provision_wg_sound_witness:
  "\<exists>w i. provision_wg sample_api ''PC'' ''en_US'' None fresh_world = (w, Inr i) \<and> clamped (wg_private_key i)"
proof -
  obtain w i where "provision_wg sample_api ''PC'' ''en_US'' None fresh_world = (w, Inr i)"
    by (simp add: provision_wg_def register_def generate_x25519_keypair_def random_android_serial_def api_call_def
        parse_account_def extract_wg_peer_def or_err_def or_fail_def is_success_def sample_api_def sample_account_def
        sample_b64_def Let_def)
  then show ?thesis using provision_wg_sound by blast
qed

text \<open>A key in the file that is not base64 of 32 bytes stops the program with a panic.\<close>

lemma bad_key_panics:
  assumes "files w path = Some t" "read_error e path t = None" "toml_to e t = Inr p"
    and "\<forall>d. b64_decode e (p_wg_private_key p) = Inr d \<longrightarrow> length d \<noteq> 32"
  shows "config_load e path w = None"
  using assms by (auto simp: config_load_def read_to_string_def identity_of_def split: sum.split)

text \<open>When the enrolment of a new device fails, the device that was registered is not kept.\<close>

lemma registration_lost:
  assumes "files w path = None" "provision_wg e DEFAULT_MODEL DEFAULT_LOCALE None w = (w1, Inr i)"
    and "ensure_masque_enrolled e i w1 = (w2, Inl err)"
  shows "load_or_provision_masque e path w = Some (w2, Inl err) \<and> files w2 = files w"
proof -
  have "files w1 = files w" by (rule provision_wg_cases [OF assms(2)])
  moreover have "files w2 = files w1"
    using assms(3) api_call_files
    by (auto simp: ensure_masque_enrolled_def generate_masque_keypair_def enroll_key_def api_call_def andthen_def Let_def
        split: if_splits prod.splits sum.splits option.splits)
  ultimately show ?thesis
    using assms by (simp add: load_or_provision_masque_def config_load_def enroll_and_save_def)
qed

end
