(* ===== verification/Addr_Text.thy ===== *)
theory Addr_Text
  imports Net_Addr
begin

section \<open>How addresses are written\<close>

text \<open>
  \<open>Display\<close> of the standard library for addresses: decimal octets, and for IPv6 groups in
  hexadecimal with the first longest run of at least two zero groups left out, or the mapped
  IPv4 address. The parsers of \<open>Net_Addr\<close> read the IPv4 form back.
\<close>

definition show_ipv4 :: "u32 \<Rightarrow> str" where
  "show_ipv4 a =
     (let os = ipv4_octets a; f = (\<lambda>i. show_nat (unat (os ! i)))
      in f 0 @ ''.'' @ f 1 @ ''.'' @ f 2 @ ''.'' @ f 3)"

fun show_hex :: "nat \<Rightarrow> str" where
  "show_hex n =
     (let d = n mod 16; c = char_of (if d < 10 then 48 + d else 87 + d)
      in if n < 16 then [c] else show_hex (n div 16) @ [c])"

declare show_hex.simps [simp del]

definition groups_of :: "u128 \<Rightarrow> u16 list" where
  "groups_of a = map (\<lambda>i. ucast (drop_bit (16 * (7 - i)) a)) [0..<8]"

text \<open>The longest run of zero groups, the first of them when there are several: start and length.\<close>

definition longest_zeros :: "u16 list \<Rightarrow> nat \<times> nat" where
  "longest_zeros gs =
     fst (fold (\<lambda>(i, g) (best, cur).
            if g = 0 then
              (let cur = (if snd cur = 0 then (i, 1) else (fst cur, snd cur + 1))
               in (if snd best < snd cur then cur else best, cur))
            else (best, (0, 0)))
          (enumerate 0 gs) ((0, 0), (0, 0)))"

definition show_groups :: "u16 list \<Rightarrow> str" where
  "show_groups gs =
     (case map (\<lambda>g. show_hex (unat g)) gs of
        [] \<Rightarrow> []
      | h # hs \<Rightarrow> h @ concat (map (\<lambda>x. CHR '':'' # x) hs))"

definition show_ipv6 :: "u128 \<Rightarrow> str" where
  "show_ipv6 a =
     (let gs = groups_of a in
      if take 6 gs = [0, 0, 0, 0, 0, 0xFFFF] then ''::ffff:'' @ show_ipv4 (ucast a)
      else
        (case longest_zeros gs of (start, len) \<Rightarrow>
           if 1 < len then show_groups (take start gs) @ ''::'' @ show_groups (drop (start + len) gs)
           else show_groups gs))"

fun show_sock_addr :: "sock_addr \<Rightarrow> str" where
  "show_sock_addr (SockAddr (IpV4 a) p) = show_ipv4 a @ '':'' @ show_nat (unat p)"
| "show_sock_addr (SockAddr (IpV6 a) p) = ''['' @ show_ipv6 a @ '']:'' @ show_nat (unat p)"

subsection \<open>Reading it back\<close>

lemma digit_val_show [simp]: "d < 10 \<Longrightarrow> digit_val 10 (char_of (48 + d)) = Some d"
  by (simp add: digit_val_def Let_def)

lemma show_nat_nonempty: "show_nat n \<noteq> []"
  by (subst show_nat.simps) simp

lemma show_nat_digits: "c \<in> set (show_nat n) \<Longrightarrow> digit_val 10 c \<noteq> None"
proof (induction n rule: show_nat.induct)
  case (1 n)
  then show ?case
    by (subst (asm) show_nat.simps) (auto split: if_splits simp del: not_None_eq)
qed

lemma digits_val_show: "digits_val 10 (show_nat n @ r) v = digits_val 10 r (v * 10 ^ length (show_nat n) + n)"
proof (induction n arbitrary: r v rule: show_nat.induct)
  case (1 n)
  show ?case
  proof (cases "n < 10")
    case True
    then show ?thesis by (simp add: show_nat.simps [of n] mult.commute)
  next
    case False
    have "n = 10 * (n div 10) + n mod 10" by simp
    then show ?thesis
      using False 1 [of "char_of (48 + n mod 10) # r" "v"]
      by (simp add: show_nat.simps [of n] algebra_simps)
  qed
qed

lemma read_digits_show:
  "c + length (show_nat n) \<le> m \<Longrightarrow> read_digits 10 m v c (show_nat n @ r) =
     read_digits 10 m (v * 10 ^ length (show_nat n) + n) (c + length (show_nat n)) r"
proof (induction n arbitrary: r v rule: show_nat.induct)
  case (1 n)
  show ?case
  proof (cases "n < 10")
    case True
    then show ?thesis using 1(2) by (simp add: show_nat.simps [of n] mult.commute)
  next
    case False
    have "n = 10 * (n div 10) + n mod 10" by simp
    then show ?thesis
      using False 1(1) [of "v" "char_of (48 + n mod 10) # r"] 1(2)
      by (simp add: show_nat.simps [of n] algebra_simps)
  qed
qed

lemma length_show_nat: "n < 10 ^ Suc k \<Longrightarrow> length (show_nat n) \<le> Suc k"
proof (induction k arbitrary: n)
  case 0
  then show ?case by (simp add: show_nat.simps [of n])
next
  case (Suc k)
  then have "n div 10 < 10 ^ Suc k" by simp
  from Suc.IH [OF this] show ?case by (simp add: show_nat.simps [of n])
qed

lemma show_nat_no_zero: "n \<noteq> 0 \<Longrightarrow> hd (show_nat n) \<noteq> CHR ''0''"
proof (induction n rule: show_nat.induct)
  case (1 n)
  show ?case
  proof (cases "n < 10")
    case True
    have "char_of (48 + n) \<noteq> CHR ''0''"
    proof
      assume "char_of (48 + n) = CHR ''0''"
      then have "(of_char (char_of (48 + n) :: char) :: nat) = of_char (CHR ''0'')" by simp
      then show False using True 1(2) by simp
    qed
    then show ?thesis using True by (simp add: show_nat.simps [of n])
  next
    case False
    then show ?thesis using 1(1) show_nat_nonempty by (simp add: show_nat.simps [of n])
  qed
qed

lemma read_number_show:
  assumes "n < 256" and "r = [] \<or> digit_val 10 (hd r) = None"
  shows "read_number 10 3 False 256 (show_nat n @ r) = Some (n, r)"
proof -
  have len: "length (show_nat n) \<le> 3" using length_show_nat [of n 2] assms(1) by simp
  have "read_digits 10 3 n (length (show_nat n)) r = Some (n, length (show_nat n), r)"
    using assms(2) by (cases r) auto
  then have "read_digits 10 3 0 0 (show_nat n @ r) = Some (n, length (show_nat n), r)"
    using read_digits_show [of 0 n 3 0 r] len by simp
  moreover have "\<not> (hd (show_nat n @ r) = CHR ''0'' \<and> 1 < length (show_nat n))"
  proof (cases "n = 0")
    case True
    then show ?thesis by (simp add: show_nat.simps [of 0])
  next
    case False
    then show ?thesis using show_nat_no_zero [OF False] show_nat_nonempty by simp
  qed
  ultimately show ?thesis using assms(1) show_nat_nonempty [of n] by (auto simp: read_number_def)
qed

lemma read_ipv4_show:
  assumes "r = [] \<or> digit_val 10 (hd r) = None"
  shows "read_ipv4 (show_ipv4 a @ r) = Some (a, r)"
proof -
  let ?f = "\<lambda>i. show_nat (unat (ipv4_octets a ! i))"
  have f: "read_number 10 3 False 256 (?f i @ CHR ''.'' # s) = Some (unat (ipv4_octets a ! i), CHR ''.'' # s)" for i s
    by (rule read_number_show) (simp_all add: digit_val_def)
  have l: "read_number 10 3 False 256 (?f i @ r) = Some (unat (ipv4_octets a ! i), r)" for i
    by (rule read_number_show) (simp_all add: assms)
  have "read_octets 0 4 (show_ipv4 a @ r) = Some (map (\<lambda>i. ipv4_octets a ! i) [0, 1, 2, 3], r)"
    using f l by (simp add: show_ipv4_def Let_def numeral_eq_Suc read_sep_def read_char_def)
  moreover have "map (\<lambda>i. ipv4_octets a ! i) [0, 1, 2, 3] = ipv4_octets a"
    by (rule nth_equalityI) (auto simp: nth_Cons' numeral_eq_Suc less_Suc_eq)
  ultimately show ?thesis by (simp add: read_ipv4_def)
qed

lemma length_show_ipv4: "length (show_ipv4 a) \<le> 15"
proof -
  have "length (show_nat (unat x)) \<le> 3" for x :: u8
    using length_show_nat [of "unat x" 2] unat_u8 [of x] by simp
  then have "length (show_nat (unat (ipv4_octets a ! 0))) + length (show_nat (unat (ipv4_octets a ! 1)))
    + length (show_nat (unat (ipv4_octets a ! 2))) + length (show_nat (unat (ipv4_octets a ! 3))) \<le> 3 + 3 + 3 + 3"
    by (intro add_mono)
  then show ?thesis by (simp add: show_ipv4_def Let_def)
qed

lemma parse_show_ipv4: "parse_ipv4 (show_ipv4 a) = Some a"
  using read_ipv4_show [of "[]" a] length_show_ipv4 [of a] by (simp add: parse_ipv4_def read_all_def)

lemma slash_show_ipv4: "CHR ''/'' \<notin> set (show_ipv4 a)"
proof -
  have "CHR ''/'' \<notin> set (show_nat n)" for n
    using show_nat_digits [of "CHR ''/''" n] by (auto simp: digit_val_def simp del: not_None_eq)
  then show ?thesis by (simp add: show_ipv4_def Let_def)
qed

lemma show_ipv6_loopback: "show_ipv6 1 = ''::1''"
proof -
  have "groups_of 1 = [0, 0, 0, 0, 0, 0, 0, 1]" by (simp add: groups_of_def upt_rec)
  moreover have "longest_zeros [0, 0, 0, 0, 0, 0, 0, 1] = (0, 7)" by (simp add: longest_zeros_def upt_rec Let_def)
  moreover have "show_hex (Suc 0) = ''1''" by (simp add: show_hex.simps) code_simp
  ultimately show ?thesis by (simp add: show_ipv6_def show_groups_def)
qed

lemma parse_ipv6_loopback: "parse_ipv6 ''::1'' = Some 1"
proof -
  have four: "read_ipv4 ''::1'' = None" "read_ipv4 ''1'' = None"
    by (simp_all add: read_ipv4_def numeral_eq_Suc read_sep_def read_char_def read_number_def digit_val_def Let_def)
  have none: "read_number 16 4 True 65536 ''::1'' = None" and one: "read_number 16 4 True 65536 ''1'' = Some (1, [])"
    and stop: "read_groups (Suc 0) 6 [] = ([], False, [])"
    by (simp_all add: read_number_def digit_val_def Let_def read_groups.simps(2) [of _ 5, simplified] read_sep_def read_char_def)
  have a: "read_groups 0 8 ''::1'' = ([], False, ''::1'')"
    using four none by (simp add: read_groups.simps(2) [of 0 7, simplified] read_sep_def)
  have b: "read_groups 0 7 ''1'' = ([1], False, [])"
    using four one stop by (simp add: read_groups.simps(2) [of 0 6, simplified] read_sep_def)
  have d: "ipv6_of_groups ([0, 0, 0, 0, 0, 0, 0, 1]) = 1"
    by (simp add: ipv6_of_groups_def be_bytes_2 of_be_def)
  have "replicate 7 (0 :: u16) @ [1] = [0, 0, 0, 0, 0, 0, 0, 1]" by (simp add: numeral_eq_Suc)
  then have "read_ipv6 ''::1'' = Some (1, [])"
    using d by (simp add: read_ipv6_def a b read_char_def)
  then show ?thesis by (simp add: parse_ipv6_def read_all_def)
qed

lemma read_port_show: "read_port ('':'' @ show_nat (unat p)) = Some (p, [])"
proof -
  have t: "takeWhile (\<lambda>c. digit_val 10 c \<noteq> None) (show_nat (unat p)) = show_nat (unat p)"
    using show_nat_digits by (simp add: takeWhile_eq_all_conv del: not_None_eq)
  have "digits_val 10 (show_nat (unat p)) 0 = Some (unat p)" using digits_val_show [of "unat p" "[]" 0] by simp
  moreover have "unat p < 65536" using unsigned_less [of p] by simp
  ultimately show ?thesis
    using show_nat_nonempty [of "unat p"] by (simp add: read_port_def read_char_def Let_def t del: not_None_eq)
qed

theorem parse_show_sock_addr_v4: "parse_sock_addr (show_sock_addr (SockAddr (IpV4 a) p)) = Some (SockAddr (IpV4 a) p)"
proof -
  have "read_ipv4 (show_ipv4 a @ '':'' @ show_nat (unat p)) = Some (a, '':'' @ show_nat (unat p))"
    by (rule read_ipv4_show) (simp add: digit_val_def)
  then show ?thesis
    using read_port_show [of p] by (simp add: parse_sock_addr_def read_all_def read_sock_v4_def)
qed

end
