(* ===== verification/Cli.thy ===== *)
theory Cli
  imports Errors
begin

section \<open>The command line (cli.rs)\<close>

text \<open>
  Options become environment variables, which the rest of the program reads. The environment is
  a map, and the end of the loop is one of three: the program exits (version and help), fails
  with an error, or goes on with the new environment.
\<close>

type_synonym env_vars = "str \<Rightarrow> str option"

text \<open>The help text, line by line.\<close>

definition USAGE :: str where
  "USAGE = concat (map (\<lambda>l. l @ [CHR 0x0A])
     [''Usage: aether [OPTIONS]'',
      [],
      ''Connection:'',
      ''  --bind <addr>            local SOCKS5 listen address (default 127.0.0.1:1819)'',
      ''  --quick-reconnect        auto-accept reconnecting with the last known working gateway'',
      ''  --no-quick-reconnect     always scan fresh, ignore any saved last-connection gateway'',
      ''  -4                       scan/connect over IPv4 only (default)'',
      ''  -6                       scan/connect over IPv6 only'',
      ''  --dual                   scan/connect over both IPv4 and IPv6'',
      ''  --peer <ip:port>         force a MASQUE/WireGuard peer, skip scanning'',
      ''  --wg-peer <ip:port>      force a WireGuard peer (warp-in-warp outer), skip scanning'',
      [],
      ''Protocol:'',
      ''  --masque                 use MASQUE over QUIC/HTTP-3 (default)'',
      ''  --wg, --wireguard        use classic WireGuard'',
      ''  --gool, --wiw            use WARP-in-WARP (wireguard tunneled in wireguard)'',
      [],
      ''Scan mode:'',
      ''  --scan <mode>            turbo | balanced | thorough | stealth'',
      ''  --turbo                  shortcut for --scan turbo'',
      ''  --balanced               shortcut for --scan balanced'',
      ''  --thorough               shortcut for --scan thorough'',
      ''  --stealth                shortcut for --scan stealth'',
      ''  --ironclad               shortcut for --scan ironclad (real tunnel + real HTTP check per candidate)'',
      [],
      ''Obfuscation:'',
      ''  --noize <profile>        obfuscation profile (off, light/firewall, balanced, gfw/aggressive, ...)'',
      [],
      ''MASQUE transport:'',
      ''  --h2, --http2            use HTTP/2 (TCP) instead of HTTP/3 (QUIC)'',
      ''  --h2-peer <ip:port>      override the peer used for the HTTP/2 transport'',
      ''  --ech <auto|base64>      enable Encrypted Client Hello'',
      ''  --no-data-check          skip the end-to-end data-plane validation'',
      ''  --validate-secs <n>      seconds to wait for data-plane validation (default 10)'',
      ''  --reconnect-secs <n>     delay before reconnecting after a tunnel drop (default 2)'',
      ''  --fragment               fragment the TLS ClientHello on the HTTP/2 transport'',
      ''  --fragment-size <n|a-b>  fragment chunk size in bytes (default 16-32)'',
      ''  --fragment-delay <n|a-b> delay between fragments in ms (default 2-10)'',
      [],
      ''WireGuard:'',
      ''  --keepalive <n>          persistent keepalive interval in seconds (default 5)'',
      ''  --no-profile-retry       don't retry other obfuscation profiles during scan'',
      [],
      ''Config files:'',
      ''  --config <path>          base identity config path (default aether.toml)'',
      ''  --wg-config <path>       identity config path for WireGuard'',
      ''  --masque-config <path>   identity config path for MASQUE'',
      [],
      ''Advanced:'',
      ''  --tls-groups <list>      TLS key share groups, e.g. \"P-256:X25519:P-384\"'',
      ''  --verbose                detailed debug logs: tunnel stages, validation, reconnects, retries'',
      ''                           (equivalent to RUST_LOG=info,aether=debug; RUST_LOG overrides this)'',
      [],
      ''  -v, --version            show version and exit'',
      ''  -h, --help               show this help and exit''])"

datatype cli_outcome = Exited | CliError aether_error | Applied env_vars

text \<open>What an option does: the arms of the match.\<close>

datatype cli_action = Exit | Assign "(str \<times> str) list" | AssignNext str | Unknown

definition cli_option :: "str \<Rightarrow> cli_action" where
  "cli_option arg =
     (if arg \<in> {''-v'', ''--version''} then Exit
      else if arg \<in> {''-h'', ''--help''} then Exit
      else if arg = ''--bind'' then AssignNext ''AETHER_SOCKS''
      else if arg = ''--quick-reconnect'' then Assign [(''AETHER_QUICK_RECONNECT'', ''1'')]
      else if arg = ''--no-quick-reconnect'' then Assign [(''AETHER_QUICK_RECONNECT'', ''0'')]
      else if arg = ''-4'' then Assign [(''AETHER_IP'', ''v4'')]
      else if arg = ''-6'' then Assign [(''AETHER_IP'', ''v6'')]
      else if arg = ''--dual'' then Assign [(''AETHER_IP'', ''both'')]
      else if arg = ''--ip'' then AssignNext ''AETHER_IP''
      else if arg = ''--peer'' then AssignNext ''AETHER_PEER''
      else if arg = ''--wg-peer'' then AssignNext ''AETHER_WG_PEER''
      else if arg = ''--masque'' then Assign [(''AETHER_PROTOCOL'', ''masque'')]
      else if arg \<in> {''--wg'', ''--wireguard''} then Assign [(''AETHER_PROTOCOL'', ''wg'')]
      else if arg \<in> {''--gool'', ''--wiw''} then Assign [(''AETHER_PROTOCOL'', ''gool'')]
      else if arg = ''--protocol'' then AssignNext ''AETHER_PROTOCOL''
      else if arg = ''--scan'' then AssignNext ''AETHER_SCAN''
      else if arg = ''--turbo'' then Assign [(''AETHER_SCAN'', ''turbo'')]
      else if arg = ''--balanced'' then Assign [(''AETHER_SCAN'', ''balanced'')]
      else if arg = ''--thorough'' then Assign [(''AETHER_SCAN'', ''thorough'')]
      else if arg = ''--stealth'' then Assign [(''AETHER_SCAN'', ''stealth'')]
      else if arg = ''--ironclad'' then Assign [(''AETHER_SCAN'', ''ironclad'')]
      else if arg = ''--noize'' then AssignNext ''AETHER_NOIZE''
      else if arg \<in> {''--h2'', ''--http2''} then Assign [(''AETHER_MASQUE_HTTP2'', ''1'')]
      else if arg = ''--h2-peer'' then AssignNext ''AETHER_MASQUE_H2_PEER''
      else if arg = ''--ech'' then AssignNext ''AETHER_ECH''
      else if arg = ''--no-data-check'' then
        Assign [(''AETHER_MASQUE_NO_DATA_CHECK'', ''1''), (''AETHER_WG_NO_DATA_CHECK'', ''1'')]
      else if arg = ''--validate-secs'' then AssignNext ''AETHER_MASQUE_VALIDATE_SECS''
      else if arg = ''--reconnect-secs'' then AssignNext ''AETHER_MASQUE_RECONNECT_SECS''
      else if arg = ''--fragment'' then Assign [(''AETHER_MASQUE_H2_FRAGMENT'', ''1'')]
      else if arg = ''--fragment-size'' then AssignNext ''AETHER_MASQUE_H2_FRAGMENT_SIZE''
      else if arg = ''--fragment-delay'' then AssignNext ''AETHER_MASQUE_H2_FRAGMENT_DELAY''
      else if arg = ''--keepalive'' then AssignNext ''AETHER_WG_KEEPALIVE''
      else if arg = ''--no-profile-retry'' then Assign [(''AETHER_WG_NO_PROFILE_RETRY'', ''1'')]
      else if arg = ''--config'' then AssignNext ''AETHER_CONFIG''
      else if arg = ''--wg-config'' then AssignNext ''AETHER_WG_CONFIG''
      else if arg = ''--masque-config'' then AssignNext ''AETHER_MASQUE_CONFIG''
      else if arg = ''--tls-groups'' then AssignNext ''AETHER_TLS_GROUPS''
      else if arg = ''--verbose'' then Assign [(''AETHER_VERBOSE'', ''1'')]
      else Unknown)"

definition set_var :: "str \<times> str \<Rightarrow> env_vars \<Rightarrow> env_vars" where
  "set_var kv env = env(fst kv \<mapsto> snd kv)"

fun parse_and_apply :: "str list \<Rightarrow> env_vars \<Rightarrow> cli_outcome" where
  "parse_and_apply [] env = Applied env"
| "parse_and_apply (arg # args) env =
     (case cli_option arg of
        Exit \<Rightarrow> Exited
      | Assign kvs \<Rightarrow> parse_and_apply args (fold set_var kvs env)
      | AssignNext key \<Rightarrow>
          (case args of
             [] \<Rightarrow> CliError (Other (arg @ '' requires a value''))
           | val # args \<Rightarrow> parse_and_apply args (set_var (key, val) env))
      | Unknown \<Rightarrow>
          CliError (Other (''unknown option '' @ [CHR 0x27] @ arg @ [CHR 0x27, CHR 0x0A, CHR 0x0A] @ USAGE)))"

subsection \<open>Options written together\<close>

text \<open>
  What the words of a command line set that is complete in itself.
\<close>

fun settings :: "str list \<Rightarrow> (str \<times> str) list option" where
  "settings [] = Some []"
| "settings (arg # args) =
     (case cli_option arg of
        Assign kvs \<Rightarrow> map_option ((@) kvs) (settings args)
      | AssignNext key \<Rightarrow> (case args of [] \<Rightarrow> None | val # args \<Rightarrow> map_option ((#) (key, val)) (settings args))
      | _ \<Rightarrow> None)"

lemma parse_and_apply_settings:
  "settings pre = Some kvs \<Longrightarrow> parse_and_apply (pre @ args) env = parse_and_apply args (fold set_var kvs env)"
  by (induction pre arbitrary: kvs env rule: settings.induct) (auto split: cli_action.splits list.splits)

lemma set_var_last: "fold set_var kvs env k = (case map_of (rev kvs) k of Some v \<Rightarrow> Some v | None \<Rightarrow> env k)"
  by (induction kvs arbitrary: env) (auto simp: set_var_def map_add_def split: option.splits)

subsection \<open>Properties\<close>



text \<open>The short forms mean the long ones.\<close>

lemma cli_shortcuts:
  assumes "mode \<in> {''turbo'', ''balanced'', ''thorough'', ''stealth'', ''ironclad''}"
  shows "parse_and_apply ((''--'' @ mode) # args) env = parse_and_apply (''--scan'' # mode # args) env"
proof -
  have "cli_option (''--'' @ mode) = Assign [(''AETHER_SCAN'', mode)]"
    using assms by (elim insertE emptyE) (simp_all add: cli_option_def)
  moreover have "cli_option ''--scan'' = AssignNext ''AETHER_SCAN''" by (simp add: cli_option_def)
  ultimately show ?thesis by simp
qed

text \<open>Two options are accepted that the help text does not name.\<close>

lemma undocumented_options:
  "cli_option ''--ip'' = AssignNext ''AETHER_IP''" "cli_option ''--protocol'' = AssignNext ''AETHER_PROTOCOL''"
  by (simp_all add: cli_option_def)

end
