(* ===== verification/Tunnelping.thy ===== *)
theory Tunnelping
  imports Addr_Text Socks Netstack H2_Tunnel Wireguard
begin

section \<open>The HTTP round trip through a tunnel (tunnelping.rs)\<close>

text \<open>
  The check of the scan mode \<open>ironclad\<close>: a tunnel with a network stack of its own, and one HTTP
  request through it. The stack is the record \<open>stack\<close> of \<open>Socks\<close>, with what sending on the
  connection returns as an argument of its own.
\<close>

definition PING_MTU :: nat where "PING_MTU = 1280"
definition HTTP_PROBE_HOST :: str where "HTTP_PROBE_HOST = ''www.gstatic.com''"
definition HTTP_PROBE_PATH :: str where "HTTP_PROBE_PATH = ''/generate_204''"

definition http_probe_port :: "(str \<Rightarrow> str option) \<Rightarrow> u16" where
  "http_probe_port env =
     (case env ''AETHER_IRONCLAD_PORT'' of
        None \<Rightarrow> 80
      | Some v \<Rightarrow> (case parse_uint 16 v of None \<Rightarrow> 80 | Some n \<Rightarrow> word_of_nat n))"

definition CRLF :: str where "CRLF = [CHR 0x0D, CHR 0x0A]"

definition http_probe_request :: bytes where
  "http_probe_request = text_bytes
     (''GET '' @ HTTP_PROBE_PATH @ '' HTTP/1.1'' @ CRLF @ ''Host: '' @ HTTP_PROBE_HOST @ CRLF
      @ ''Connection: close'' @ CRLF @ ''User-Agent: aether-ironclad'' @ CRLF @ CRLF)"

subsection \<open>Reading the answer\<close>

text \<open>What waiting six seconds for a chunk of the connection gives: a chunk, its end, or nothing.\<close>

datatype probe_event = Chunk bytes | ChunkEnd | ChunkLate

fun probe_step :: "probe_event \<Rightarrow> bytes \<Rightarrow> (bytes, bytes result) ctl" where
  "probe_step (Chunk c) b = (let b = b @ c in if 12 \<le> length b then Stop (Inr b) else Go b)"
| "probe_step ChunkEnd b = Stop (Inr b)"
| "probe_step ChunkLate b = Stop (Inl (Other ''http probe response timeout''))"

fun contains :: "'a list \<Rightarrow> 'a list \<Rightarrow> bool" where
  "contains p [] \<longleftrightarrow> p = []"
| "contains p (c # s) \<longleftrightarrow> strip_prefix p (c # s) \<noteq> None \<or> contains p s"

text \<open>\<open>lines\<close> cuts a carriage return before the line feed, which \<open>trim\<close> takes away as well.\<close>

definition http_verdict :: "bytes \<Rightarrow> unit result" where
  "http_verdict b =
     (let status_line = bytes_text (from_utf8_lossy b) in
      if contains ''204'' status_line then Inr ()
      else Inl (Other (''unexpected http probe response: '' @ trim (hd (split_on (CHR 0x0A) status_line)))))"

text \<open>One run of the check: the stack and what it does with the request, the waits, and the clock.\<close>

record ping_run =
  pg_stack :: stack
  pg_dns_id :: u16
  pg_send :: "bytes \<Rightarrow> unit result"
  pg_events :: "probe_event list"
  pg_start :: nat
  pg_end :: nat
  pg_late :: bool

definition http_probe :: "(str \<Rightarrow> str option) \<Rightarrow> ping_run \<Rightarrow> (bytes, unit result) ctl option" where
  "http_probe env p = do {
     r \<leftarrow> dns_resolve (pg_stack p) (pg_dns_id p) HTTP_PROBE_HOST;
     Some
       (case r of
          Inl e \<Rightarrow> Stop (Inl e)
        | Inr ip \<Rightarrow>
            (case st_open_tcp (pg_stack p) (SockAddr ip (http_probe_port env)) of
               Inl e \<Rightarrow> Stop (Inl e)
             | Inr _ \<Rightarrow>
                 (case pg_send p http_probe_request of
                    Inl e \<Rightarrow> Stop (Inl e)
                  | Inr _ \<Rightarrow>
                      (case run_loop probe_step (pg_events p) [] of
                         Go b \<Rightarrow> Go b
                       | Stop (Inl e) \<Rightarrow> Stop (Inl e)
                       | Stop (Inr b) \<Rightarrow> Stop (http_verdict b)))))
   }"

text \<open>The probe within the time limit of the whole attempt, and the time it took.\<close>

definition PING_TIMEOUT :: aether_error where "PING_TIMEOUT = Other ''ironclad http probe timeout''"

definition timed_probe :: "(str \<Rightarrow> str option) \<Rightarrow> ping_run \<Rightarrow> nat result option" where
  "timed_probe env p = do {
     r \<leftarrow> http_probe env p;
     case r of
       Go _ \<Rightarrow> None
     | Stop (Inl e) \<Rightarrow> Some (Inl e)
     | Stop (Inr _) \<Rightarrow> Some (Inr (pg_end p - pg_start p))
   }"

subsection \<open>Over MASQUE\<close>

text \<open>
  \<open>ready h2 peer\<close>: whether the tunnel to \<open>peer\<close> (over HTTP/2 if \<open>h2\<close>) signals that it is ready
  before it ends; the tunnels are in \<open>H2_Tunnel\<close> and \<open>Quic_Tunnel\<close>. \<open>pg_late\<close>: the time limit
  strikes, wherever the attempt is then. \<open>None\<close> is a panic, or waits that are not over.
\<close>

definition masque_http_ping ::
  "('i, 't, 'u) smoltcp \<Rightarrow> 'i \<Rightarrow> (str \<Rightarrow> str option) \<Rightarrow> str \<Rightarrow> str \<Rightarrow> (bool \<Rightarrow> sock_addr \<Rightarrow> bool) \<Rightarrow> sock_addr
    \<Rightarrow> ping_run \<Rightarrow> nat result option" where
  "masque_http_ping sm i env v4 v6 ready peer p =
     (if pg_late p then Some (Inl PING_TIMEOUT)
      else
        (case netstack_new sm v4 v6 PING_MTU i of
           Inl e \<Rightarrow> Some (Inl e)
         | Inr _ \<Rightarrow>
             (if \<not> (if h2_enabled env then ready True (h2_peer env peer) else ready False peer)
              then Some (Inl (Other ''tunnel exited before data-plane validation''))
              else timed_probe env p)))"

subsection \<open>Over an established WireGuard session\<close>

text \<open>The tunnel that is started, and the result.\<close>

definition wg_http_ping_established ::
  "('i, 't, 'u) smoltcp \<Rightarrow> 'i \<Rightarrow> (str \<Rightarrow> str option) \<Rightarrow> u32 \<Rightarrow> u128 \<Rightarrow> 'w \<Rightarrow> nat \<Rightarrow> ping_run
    \<Rightarrow> 'w wg_tunnel option \<times> nat result option" where
  "wg_http_ping_established sm i env v4 v6 session k p =
     (if pg_late p then (None, Some (Inl PING_TIMEOUT))
      else
        (let tunnel = wg_tunnel_from_established session k in
         case netstack_new sm (show_ipv4 v4) (show_ipv6 v6) PING_MTU i of
           Inl e \<Rightarrow> (None, Some (Inl e))
         | Inr _ \<Rightarrow> (Some tunnel, timed_probe env p)))"

subsection \<open>The loop that reads\<close>

fun chunks :: "probe_event list \<Rightarrow> bytes list" where
  "chunks (Chunk c # es) = c # chunks es"
| "chunks _ = []"

text \<open>The loop stops with a beginning of what came, and it reads no chunk after the twelfth byte.\<close>

lemma probe_reads:
  "run_loop probe_step es b = Stop (Inr b') \<Longrightarrow>
    \<exists>n. n \<le> length (chunks es) \<and> b' = b @ concat (take n (chunks es)) \<and>
      (\<forall>m < n. 0 < m \<longrightarrow> length (b @ concat (take m (chunks es))) < 12)"
proof (induction es arbitrary: b)
  case (Cons e es)
  show ?case
  proof (cases e)
    case (Chunk c)
    show ?thesis
    proof (cases "12 \<le> length (b @ c)")
      case True
      then have "b' = b @ c" using Cons.prems Chunk by (simp add: Let_def)
      then show ?thesis using Chunk by (intro exI [of _ 1]) simp
    next
      case False
      then have "run_loop probe_step es (b @ c) = Stop (Inr b')" using Cons.prems Chunk by (simp add: Let_def)
      from Cons.IH [OF this] obtain n where n: "n \<le> length (chunks es)" "b' = (b @ c) @ concat (take n (chunks es))"
          "\<And>m. m < n \<Longrightarrow> 0 < m \<Longrightarrow> length ((b @ c) @ concat (take m (chunks es))) < 12" by blast
      have "length (b @ concat (take m (chunks (e # es)))) < 12" if "m < Suc n" "0 < m" for m
        using that n(3) [of "m - 1"] False Chunk by (cases m; cases "m - 1") auto
      then show ?thesis using n(1, 2) Chunk by (intro exI [of _ "Suc n"]) simp
    qed
  next
    case ChunkEnd
    then show ?thesis using Cons.prems by (intro exI [of _ 0]) simp
  next
    case ChunkLate
    then show ?thesis using Cons.prems by simp
  qed
qed simp

lemma probe_enough: "run_loop probe_step es b = Stop (Inr b') \<Longrightarrow> 12 \<le> length b' \<or> ChunkEnd \<in> set es"
proof (induction es arbitrary: b)
  case (Cons e es)
  then show ?case
  proof (cases e)
    case (Chunk c)
    then show ?thesis using Cons by (cases "12 \<le> length (b @ c)") (auto simp: Let_def)
  qed simp_all
qed simp

text \<open>Twelve chunks that are not empty end the loop, and so does a wait that fails.\<close>

lemma probe_ends:
  assumes "\<forall>c. Chunk c \<in> set es \<longrightarrow> c \<noteq> []" "12 \<le> length b + length es"
    and "length b < 12"
  shows "\<exists>r. run_loop probe_step es b = Stop r"
  using assms
proof (induction es arbitrary: b)
  case (Cons e es)
  show ?case
  proof (cases e)
    case (Chunk c)
    have "c \<noteq> []" using Cons.prems(1) Chunk by auto
    then have "Suc (length b) \<le> length (b @ c)" by (cases c) auto
    moreover have "\<forall>c. Chunk c \<in> set es \<longrightarrow> c \<noteq> []" using Cons.prems(1) by simp
    ultimately show ?thesis
      using Cons.IH [of "b @ c"] Cons.prems(2) Chunk by (cases "12 \<le> length (b @ c)") (auto simp: Let_def)
  qed simp_all
qed simp

lemma timed_probe_ok:
  assumes "timed_probe env p = Some (Inr t)"
  obtains ip b where "dns_resolve (pg_stack p) (pg_dns_id p) HTTP_PROBE_HOST = Some (Inr ip)"
    "st_open_tcp (pg_stack p) (SockAddr ip (http_probe_port env)) = Inr ()" "pg_send p http_probe_request = Inr ()"
    "run_loop probe_step (pg_events p) [] = Stop (Inr b)" "http_verdict b = Inr ()" "t = pg_end p - pg_start p"
proof -
  obtain u where u: "http_probe env p = Some (Stop (Inr u))" and t: "t = pg_end p - pg_start p"
  proof (cases "http_probe env p")
    case (Some r)
    then show ?thesis using assms that by (auto simp: timed_probe_def split: sum.splits ctl.splits)
  qed (use assms in \<open>simp add: timed_probe_def\<close>)
  obtain r where r: "dns_resolve (pg_stack p) (pg_dns_id p) HTTP_PROBE_HOST = Some r"
    using u by (auto simp: http_probe_def bind_eq_Some_conv)
  obtain ip where ip: "r = Inr ip" using u r by (cases r) (auto simp: http_probe_def)
  have op: "st_open_tcp (pg_stack p) (SockAddr ip (http_probe_port env)) = Inr ()"
    using u r ip by (cases "st_open_tcp (pg_stack p) (SockAddr ip (http_probe_port env))") (auto simp: http_probe_def)
  have sd: "pg_send p http_probe_request = Inr ()"
    using u r ip op by (cases "pg_send p http_probe_request") (auto simp: http_probe_def)
  obtain res where loop: "run_loop probe_step (pg_events p) [] = Stop res"
    using u r ip op sd by (cases "run_loop probe_step (pg_events p) []") (auto simp: http_probe_def)
  obtain b where b: "res = Inr b" using u r ip op sd loop by (cases res) (auto simp: http_probe_def)
  have "http_verdict b = Inr ()" using u r ip op sd loop b by (simp add: http_probe_def)
  then show ?thesis using that r ip op sd loop b t by simp
qed

lemma http_verdict_ok: "http_verdict b = Inr () \<longleftrightarrow> contains ''204'' (bytes_text (from_utf8_lossy b))"
  by (simp add: http_verdict_def Let_def)

text \<open>Any answer with the digits 204 in it passes, whatever its status is.\<close>

lemma http_verdict_any_204:
  "http_verdict (text_bytes (''HTTP/1.1 302 Found'' @ CRLF @ ''Content-Length: 204'')) = Inr ()"
proof -
  let ?t = "''HTTP/1.1 302 Found'' @ CRLF @ ''Content-Length: 204''"
  have "from_utf8_lossy (text_bytes ?t) = text_bytes ?t"
    by (rule from_utf8_lossy_ascii) (simp add: text_bytes_def CRLF_def)
  then show ?thesis by (simp add: http_verdict_def CRLF_def)
qed

subsection \<open>Properties\<close>

text \<open>The addresses a WireGuard check gives its stack are always good ones.\<close>

lemma parse_v6_loopback: "parse_v6 ''::1'' = Inr (Some (1, 128))"
  by (simp add: parse_v6_def strip_cidr_def cidr_prefix_def parse_ipv6_loopback)

lemma wg_ping_stack: "\<exists>ns. netstack_new sm (show_ipv4 v4) (show_ipv6 1) PING_MTU i = Inr ns"
proof -
  have "show_ipv4 v4 \<noteq> []" by (simp add: show_ipv4_def Let_def)
  moreover have "split_once (CHR ''/'') (show_ipv4 v4) = None" by (simp add: split_once_None slash_show_ipv4)
  ultimately have "parse_v4 (show_ipv4 v4) = Inr (Some (v4, 32))"
    by (simp add: parse_v4_def strip_cidr_def cidr_prefix_def parse_show_ipv4)
  then show ?thesis by (simp add: netstack_new_def show_ipv6_loopback parse_v6_loopback)
qed

text \<open>C35. A gateway that passes the round trip over MASQUE has carried it: its tunnel signalled ready, the
  host was resolved and connected to through the stack, the request was sent, and the first bytes
  that came back, at least twelve of them unless the connection ended, hold the code 204; the result is
  the time this took.\<close>

theorem masque_http_ping_sound:
  assumes "masque_http_ping sm i env v4 v6 ready peer p = Some (Inr t)"
  shows "(if h2_enabled env then ready True (h2_peer env peer) else ready False peer) \<and>
    t = pg_end p - pg_start p \<and> pg_send p http_probe_request = Inr () \<and>
    (\<exists>ip. dns_resolve (pg_stack p) (pg_dns_id p) HTTP_PROBE_HOST = Some (Inr ip) \<and>
      st_open_tcp (pg_stack p) (SockAddr ip (http_probe_port env)) = Inr ()) \<and>
    (\<exists>n \<le> length (chunks (pg_events p)). let b = concat (take n (chunks (pg_events p))) in
      contains ''204'' (bytes_text (from_utf8_lossy b)) \<and>
      (12 \<le> length b \<or> ChunkEnd \<in> set (pg_events p)))"
proof -
  have ready: "if h2_enabled env then ready True (h2_peer env peer) else ready False peer"
    and ok: "timed_probe env p = Some (Inr t)"
    using assms by (auto simp: masque_http_ping_def split: if_splits sum.splits)
  obtain ip b where p: "dns_resolve (pg_stack p) (pg_dns_id p) HTTP_PROBE_HOST = Some (Inr ip)"
      "st_open_tcp (pg_stack p) (SockAddr ip (http_probe_port env)) = Inr ()" "pg_send p http_probe_request = Inr ()"
      "run_loop probe_step (pg_events p) [] = Stop (Inr b)" "http_verdict b = Inr ()" "t = pg_end p - pg_start p"
    using timed_probe_ok [OF ok] .
  obtain n where n: "n \<le> length (chunks (pg_events p))" "b = concat (take n (chunks (pg_events p)))"
    using probe_reads [OF p(4)] by auto
  have "12 \<le> length b \<or> ChunkEnd \<in> set (pg_events p)" by (rule probe_enough [OF p(4)])
  then show ?thesis using ready p n by (auto simp: http_verdict_ok Let_def)
qed

definition sample_ping :: ping_run where
  "sample_ping =
     \<lparr>pg_stack = Socks.sample_stack\<lparr>st_dns_recv := (\<lambda>_. From (SockAddr (IpV4 0x01010101) 53)
        (dns_message 7 0x8180 [\<lparr>q_name = ([[97]], Root), q_type = 1, q_class = 1\<rparr>] sample_a 0 0 []))\<rparr>,
      pg_dns_id = 7, pg_send = (\<lambda>_. Inr ()), pg_events = [Chunk (text_bytes ''HTTP/1.1 204 No Content'')],
      pg_start = 100, pg_end = 180, pg_late = False\<rparr>"

lemma sample_resolves: "dns_resolve (pg_stack sample_ping) (pg_dns_id sample_ping) HTTP_PROBE_HOST =
    Some (Inr (IpV4 (ipv4_new 93 184 216 34)))"
  by (simp add: dns_resolve_def sample_ping_def Socks.sample_stack_def parse_dns_a_message_witness Let_def)

lemma sample_verdict: "http_verdict (text_bytes ''HTTP/1.1 204 No Content'') = Inr ()"
proof -
  have "from_utf8_lossy (text_bytes ''HTTP/1.1 204 No Content'') = text_bytes ''HTTP/1.1 204 No Content''"
    by (rule from_utf8_lossy_ascii) (simp add: text_bytes_def)
  then show ?thesis by (simp add: http_verdict_def)
qed

lemma sample_ping_ok:
  "masque_http_ping toy () Map.empty ''172.16.0.2'' [] (\<lambda>h2 _. \<not> h2) (SockAddr (IpV4 0xA29FC001) 443) sample_ping
     = Some (Inr 80)"
proof -
  have v4: "parse_v4 ''172.16.0.2'' = Inr (Some (0xAC100002, 32))" by code_simp
  have "http_probe Map.empty sample_ping = Some (Stop (Inr ()))"
    unfolding http_probe_def sample_resolves
    by (simp add: sample_ping_def Socks.sample_stack_def sample_verdict Let_def)
  then show ?thesis
    by (simp add: masque_http_ping_def timed_probe_def netstack_new_def v4 parse_v6_def H2_Tunnel.h2_enabled_def)
      (simp add: sample_ping_def)
qed

theorem masque_http_ping_sound_witness:
  "let b = concat (take 1 (chunks (pg_events sample_ping))) in contains ''204'' (bytes_text (from_utf8_lossy b))"
proof -
  obtain n where n: "n \<le> length (chunks (pg_events sample_ping))"
      "let b = concat (take n (chunks (pg_events sample_ping))) in contains ''204'' (bytes_text (from_utf8_lossy b))"
    using masque_http_ping_sound [OF sample_ping_ok] by (auto simp: Let_def)
  have "length (chunks (pg_events sample_ping)) = 1" by (simp add: sample_ping_def)
  then have "n = 0 \<or> n = 1" using n(1) by linarith
  then show ?thesis using n(2) by (auto simp: Let_def bytes_text_def)
qed

end
