(* ===== verification/Settings.thy ===== *)
theory Settings
  imports Account Cli Dns Noize Aethernoize Prober
begin

section \<open>What the program reads from its environment and its user (main.rs)\<close>

text \<open>
  The settings of a run: the environment variables, the prompts with the answers typed at them,
  the paths of the files, and the protocol. A prompt has an answer only when the standard input
  is a terminal; \<open>typed\<close> is the line that was read, \<open>None\<close> at the end of the input.
\<close>

record console =
  vars :: env_vars
  terminal :: bool
  typed :: "str \<Rightarrow> str option"

definition prompt_line :: "console \<Rightarrow> str \<Rightarrow> str option" where
  "prompt_line c prompt = (if \<not> terminal c then None else map_option trim (typed c prompt))"

definition text_of_lines :: "str list \<Rightarrow> str" where
  "text_of_lines ls = concat (map (\<lambda>l. CHR 0x0A # l) ls)"

definition parse_local_v4 :: "str \<Rightarrow> u32" where
  "parse_local_v4 s = (case parse_ipv4 (hd (split_on (CHR ''/'') s)) of Some ip \<Rightarrow> ip | None \<Rightarrow> ipv4_new 0 0 0 0)"

definition TUNNEL_MTU :: nat where "TUNNEL_MTU = 1280"
definition INNER_MTU :: nat where "INNER_MTU = 1200"
definition DEFAULT_CONFIG :: str where "DEFAULT_CONFIG = ''aether.toml''"

subsection \<open>Profiles\<close>

definition noize_config_of :: "env_vars \<Rightarrow> noize_config" where
  "noize_config_of env =
     noize_from_profile (case env ''AETHER_NOIZE'' of Some p \<Rightarrow> p | None \<Rightarrow> ''firewall'')"

definition aethernoize_config_of :: "env_vars \<Rightarrow> aethernoize_config" where
  "aethernoize_config_of env =
     aethernoize_from_profile (case env ''AETHER_NOIZE'' of Some p \<Rightarrow> p | None \<Rightarrow> ''balanced'')"

definition add_fallback :: "str \<Rightarrow> str list \<Rightarrow> str list" where
  "add_fallback fallback names =
     (if list_ex (\<lambda>n. eq_ignore_ascii_case n fallback) names then names else names @ [fallback])"

definition wg_profile_names :: "env_vars \<Rightarrow> str list" where
  "wg_profile_names env =
     (let primary = (case env ''AETHER_NOIZE'' of Some p \<Rightarrow> p | None \<Rightarrow> ''balanced'') in
      if env ''AETHER_WG_NO_PROFILE_RETRY'' = None then
        fold add_fallback [''balanced'', ''aggressive'', ''light'', ''off''] [primary]
      else [primary])"

definition wg_profile_candidates :: "env_vars \<Rightarrow> (str \<times> aethernoize_config) list" where
  "wg_profile_candidates env = map (\<lambda>n. (n, aethernoize_from_profile n)) (wg_profile_names env)"

subsection \<open>Paths\<close>

text \<open>The name of a file beside \<open>base\<close>: the suffix comes before the extension.\<close>

definition derive_sibling_path :: "str \<Rightarrow> str \<Rightarrow> str" where
  "derive_sibling_path base suffix =
     (let dir_end = (case rfind (\<lambda>c. c = CHR ''/'' \<or> c = CHR 0x5C) base of Some i \<Rightarrow> i + 1 | None \<Rightarrow> 0)
      in case rfind (\<lambda>c. c = CHR ''.'') (drop dir_end base) of
           Some rel \<Rightarrow> (let dot = dir_end + rel in take dot base @ ''-'' @ suffix @ drop dot base)
         | None \<Rightarrow> base @ ''-'' @ suffix)"

definition warp_config_path :: "env_vars \<Rightarrow> str \<Rightarrow> str" where
  "warp_config_path env base = (case env ''AETHER_WG_CONFIG'' of Some p \<Rightarrow> p | None \<Rightarrow> base)"

definition masque_config_path :: "env_vars \<Rightarrow> str \<Rightarrow> str" where
  "masque_config_path env base =
     (case env ''AETHER_MASQUE_CONFIG'' of Some p \<Rightarrow> p | None \<Rightarrow> derive_sibling_path base ''masque'')"

definition lastconn_path :: "str \<Rightarrow> str" where
  "lastconn_path config_path = derive_sibling_path config_path ''lastconn''"

subsection \<open>Delays\<close>

definition reconnect_secs :: "str \<Rightarrow> env_vars \<Rightarrow> nat" where
  "reconnect_secs var env =
     (case env var of
        None \<Rightarrow> 2
      | Some v \<Rightarrow> (case parse_uint 64 v of None \<Rightarrow> 2 | Some n \<Rightarrow> n))"

definition masque_reconnect_delay :: "env_vars \<Rightarrow> nat" where
  "masque_reconnect_delay env = reconnect_secs ''AETHER_MASQUE_RECONNECT_SECS'' env"

definition wg_reconnect_delay :: "env_vars \<Rightarrow> nat" where
  "wg_reconnect_delay env = reconnect_secs ''AETHER_WG_RECONNECT_SECS'' env"

definition wg_keepalive_secs :: "env_vars \<Rightarrow> nat" where
  "wg_keepalive_secs env =
     (case env ''AETHER_WG_KEEPALIVE'' of
        None \<Rightarrow> 5
      | Some v \<Rightarrow> (case parse_uint 16 v of None \<Rightarrow> 5 | Some n \<Rightarrow> if 0 < n then n else 5))"

subsection \<open>Prompts\<close>

definition SCAN_MODE_PROMPT :: str where
  "SCAN_MODE_PROMPT = text_of_lines
     [''Scan mode:'', ''  [1] turbo     (fast, first hit)'', ''  [2] balanced  (default)'',
      ''  [3] thorough  (deep, best ping)'', ''  [4] stealth   (quiet, patient)'',
      ''  [5] ironclad  (real tunnel + real HTTP check per candidate, guaranteed working)'',
      ''Choose [1-5] (default 2): '']"

definition select_scan_mode :: "console \<Rightarrow> scan_mode" where
  "select_scan_mode c =
     (case vars c ''AETHER_SCAN'' of
        Some v \<Rightarrow> scan_mode_parse v
      | None \<Rightarrow>
          (let answer = prompt_line c SCAN_MODE_PROMPT in
           if answer = Some ''1'' then Turbo
           else if answer = Some ''3'' then Thorough
           else if answer = Some ''4'' then Stealth
           else if answer = Some ''5'' then Ironclad
           else Balanced))"

definition select_scan_mode_str :: "console \<Rightarrow> str" where
  "select_scan_mode_str c =
     (case vars c ''AETHER_SCAN'' of
        Some v \<Rightarrow> v
      | None \<Rightarrow>
          (let answer = prompt_line c SCAN_MODE_PROMPT in
           if answer = Some ''1'' then ''turbo''
           else if answer = Some ''3'' then ''thorough''
           else if answer = Some ''4'' then ''stealth''
           else if answer = Some ''5'' then ''ironclad''
           else ''balanced''))"

datatype protocol = MasqueProtocol | WireGuardProtocol | WarpInWarp

definition protocol_parse :: "str \<Rightarrow> protocol" where
  "protocol_parse s =
     (let w = to_lowercase (trim s) in
      if w \<in> {''wg'', ''wireguard''} then WireGuardProtocol
      else if w \<in> {''gool'', ''wiw'', ''warp-in-warp'', ''warpinwarp''} then WarpInWarp
      else MasqueProtocol)"

fun protocol_label :: "protocol \<Rightarrow> str" where
  "protocol_label MasqueProtocol = ''MASQUE''"
| "protocol_label WireGuardProtocol = ''WireGuard''"
| "protocol_label WarpInWarp = ''WARP-in-WARP (gool)''"

definition PROTOCOL_PROMPT :: str where
  "PROTOCOL_PROMPT = text_of_lines
     [''Protocol:'', ''  [1] MASQUE (modern, QUIC/H3, default)'', ''  [2] WireGuard (classic, faster)'',
      ''  [3] WARP-in-WARP / gool'', ''Choose [1-3] (default 1): '']"

definition select_protocol :: "console \<Rightarrow> protocol" where
  "select_protocol c =
     (case vars c ''AETHER_PROTOCOL'' of
        Some v \<Rightarrow> protocol_parse v
      | None \<Rightarrow>
          (let answer = prompt_line c PROTOCOL_PROMPT in
           if answer = Some ''2'' then WireGuardProtocol
           else if answer = Some ''3'' then WarpInWarp
           else MasqueProtocol))"

text \<open>With a forced peer there is no prompt.\<close>

definition main_protocol :: "console \<Rightarrow> protocol" where
  "main_protocol c =
     (if vars c ''AETHER_PEER'' \<noteq> None \<or> vars c ''AETHER_WG_PEER'' \<noteq> None then
        (case vars c ''AETHER_PROTOCOL'' of Some v \<Rightarrow> protocol_parse v | None \<Rightarrow> MasqueProtocol)
      else select_protocol c)"

definition TRANSPORT_PROMPT :: str where
  "TRANSPORT_PROMPT = text_of_lines
     [''MASQUE transport:'', ''  [1] HTTP/3 (QUIC)  (default; fastest handshake, best on healthy UDP networks)'',
      ''  [2] HTTP/2 (TCP)   (looks like ordinary HTTPS; use if UDP/QUIC is blocked or throttled)'',
      ''Choose [1-2] (default 1): '']"

definition select_masque_transport :: "console \<Rightarrow> console" where
  "select_masque_transport c =
     (if vars c ''AETHER_MASQUE_HTTP2'' \<noteq> None \<or> vars c ''AETHER_PEER'' \<noteq> None then c
      else if prompt_line c TRANSPORT_PROMPT = Some ''2'' then c\<lparr>vars := (vars c)(''AETHER_MASQUE_HTTP2'' \<mapsto> ''1'')\<rparr>
      else c)"

definition IP_PROMPT :: str where
  "IP_PROMPT = text_of_lines
     [''IP version to scan:'', ''  [1] IPv4 (default)'', ''  [2] IPv6'', ''  [3] Both'', ''Choose [1-3] (default 1): '']"

definition select_ip_version :: "console \<Rightarrow> ip_scan" where
  "select_ip_version c =
     (case vars c ''AETHER_IP'' of
        Some v \<Rightarrow> ip_scan_parse v
      | None \<Rightarrow>
          (let answer = prompt_line c IP_PROMPT in
           if answer = Some ''2'' then V6 else if answer = Some ''3'' then Both else V4))"

definition want_quick_reconnect :: "console \<Rightarrow> last_connection \<Rightarrow> bool" where
  "want_quick_reconnect c cached =
     (let var = vars c ''AETHER_QUICK_RECONNECT'' in
      if var \<in> {Some ''1'', Some ''true'', Some ''yes'', Some ''on''} then True
      else if var \<in> {Some ''0'', Some ''false'', Some ''no'', Some ''off''} then False
      else
        (case prompt_line c (text_of_lines
           [''Last working gateway: '' @ lc_peer cached @ '' (profile '' @ [CHR 0x27] @ lc_profile cached @ [CHR 0x27] @ '')'',
            ''Reconnect to it now without rescanning? [Y/n]: '']) of
           Some a \<Rightarrow> \<not> (eq_ignore_ascii_case a ''n'' \<or> eq_ignore_ascii_case a ''no'')
         | None \<Rightarrow> True))"

subsection \<open>Encrypted client hello\<close>

text \<open>\<open>fetched\<close> is what \<open>fetch_ech_config\<close> of \<open>Dns\<close> returns; \<open>None\<close> outside is a panic.\<close>

definition resolve_ech :: "('p, 'x) account_env \<Rightarrow> bytes result option \<Rightarrow> env_vars \<Rightarrow> bytes option option" where
  "resolve_ech e fetched env =
     (case env ''AETHER_ECH'' of
        Some v \<Rightarrow>
          (if eq_ignore_ascii_case v ''auto'' then map_option ok fetched
           else if v \<noteq> [] then Some (ok (decode_ech_config_list (b64_decode e) v))
           else Some None)
      | None \<Rightarrow> Some None)"

subsection \<open>Paths that do not clash\<close>

lemma rfind_less: "rfind P s = Some i \<Longrightarrow> i < length s"
proof -
  let ?xs = "filter (\<lambda>i. P (s ! i)) [0..<length s]"
  assume "rfind P s = Some i"
  then have "?xs \<noteq> []" "i = last ?xs" by (auto simp: rfind_def split: list.splits)
  then have "i \<in> set ?xs" using last_in_set [of ?xs] by metis
  then show ?thesis by simp
qed

lemma length_derive_sibling_path: "length (derive_sibling_path base suffix) = length base + 1 + length suffix"
  by (auto simp: derive_sibling_path_def Let_def split: option.split dest!: rfind_less)

lemma derive_sibling_path_inj: "derive_sibling_path base s = derive_sibling_path base t \<longleftrightarrow> s = t"
  by (auto simp: derive_sibling_path_def Let_def split: option.splits)

subsection \<open>The fallback profiles\<close>

lemma add_fallback_keeps:
  assumes "names \<noteq> []" "distinct (map (map lower_char) names)"
  shows "add_fallback f names \<noteq> [] \<and> hd (add_fallback f names) = hd names
    \<and> distinct (map (map lower_char) (add_fallback f names))
    \<and> insert (map lower_char f) (map lower_char ` set names) = map lower_char ` set (add_fallback f names)"
proof (cases "list_ex (\<lambda>n. eq_ignore_ascii_case n f) names")
  case True
  then obtain n where "n \<in> set names" "map lower_char n = map lower_char f"
    by (auto simp: list_ex_iff eq_ignore_ascii_case_def)
  then have "map lower_char f \<in> map lower_char ` set names" by (metis image_eqI)
  then show ?thesis using True assms by (simp add: add_fallback_def insert_absorb)
next
  case False
  then show ?thesis using assms by (auto simp: add_fallback_def list_ex_iff eq_ignore_ascii_case_def)
qed

lemma fallbacks_keep:
  assumes "names \<noteq> []" "distinct (map (map lower_char) names)"
  shows "hd (fold add_fallback fs names) = hd names \<and> distinct (map (map lower_char) (fold add_fallback fs names))
    \<and> map lower_char ` (set names \<union> set fs) = map lower_char ` set (fold add_fallback fs names)"
  using assms
proof (induction fs arbitrary: names)
  case (Cons f fs)
  let ?ns = "add_fallback f names"
  have k: "?ns \<noteq> []" "hd ?ns = hd names" "distinct (map (map lower_char) ?ns)"
    "insert (map lower_char f) (map lower_char ` set names) = map lower_char ` set ?ns"
    using add_fallback_keeps [OF Cons.prems, of f] by blast+
  have "map lower_char ` (set names \<union> set (f # fs)) = map lower_char ` (set ?ns \<union> set fs)"
    using k(4) by auto
  then show ?case using Cons.IH [OF k(1, 3)] k(2) by simp
qed simp

lemma lower_fallbacks [simp]: "map lower_char ''balanced'' = ''balanced''" "map lower_char ''aggressive'' = ''aggressive''"
    "map lower_char ''light'' = ''light''" "map lower_char ''off'' = ''off''" "map lower_char ''OFF'' = ''off''"
  by (code_simp)+

subsection \<open>Settings that surprise\<close>

text \<open>
  Profile names are compared without regard to case when the fallbacks are chosen, but a
  profile is found by its exact name: asking for \<open>OFF\<close> gives the balanced profile, and the
  fallback without obfuscation is not tried.
\<close>

lemma off_in_capitals:
  assumes "env ''AETHER_NOIZE'' = Some ''OFF''" "env ''AETHER_WG_NO_PROFILE_RETRY'' = None"
  shows "\<forall>(n, cfg) \<in> set (wg_profile_candidates env). aethernoize_enabled cfg"
  using assms
  by (simp del: list.map add: wg_profile_candidates_def wg_profile_names_def Let_def add_fallback_def eq_ignore_ascii_case_def
      aethernoize_from_profile_def aethernoize_enabled_def aethernoize_balanced_def aethernoize_aggressive_def
      aethernoize_light_def)

text \<open>A forced WireGuard peer alone selects MASQUE, which does not look at it.\<close>

lemma wg_peer_alone_is_masque:
  assumes "vars c ''AETHER_WG_PEER'' = Some p" "vars c ''AETHER_PROTOCOL'' = None"
  shows "main_protocol c = MasqueProtocol"
  using assms by (simp add: main_protocol_def)

subsection \<open>Properties\<close>

text \<open>The files of the program never clash: whatever the base path is, the identity of WireGuard, of
  MASQUE and of the inner WARP tunnel, and the last connections of the first two, have five
  different paths.\<close>

theorem paths_distinct:
  "distinct [base, derive_sibling_path base ''masque'', derive_sibling_path base ''secondary'', lastconn_path base,
     lastconn_path (derive_sibling_path base ''masque'')]"
proof -
  let ?ps = "[base, derive_sibling_path base ''masque'', derive_sibling_path base ''secondary'', lastconn_path base,
     lastconn_path (derive_sibling_path base ''masque'')]"
  have "distinct (map length ?ps)" by (simp add: lastconn_path_def length_derive_sibling_path)
  then show ?thesis by (simp only: distinct_map)
qed

text \<open>The WireGuard profiles that are tried start with the one asked for, name no profile twice, and,
  unless retrying is switched off, cover the four known ones; the keepalive interval is a positive
  16-bit number.\<close>

theorem wg_settings_sound:
  "hd (wg_profile_names env) = (case env ''AETHER_NOIZE'' of Some p \<Rightarrow> p | None \<Rightarrow> ''balanced'') \<and>
   distinct (map (map lower_char) (wg_profile_names env)) \<and>
   (env ''AETHER_WG_NO_PROFILE_RETRY'' = None \<longrightarrow>
      set [''balanced'', ''aggressive'', ''light'', ''off''] \<subseteq> set (map (map lower_char) (wg_profile_names env))) \<and>
   0 < wg_keepalive_secs env \<and> wg_keepalive_secs env < 2 ^ 16"
proof -
  let ?p = "case env ''AETHER_NOIZE'' of Some p \<Rightarrow> p | None \<Rightarrow> ''balanced''"
  let ?fs = "[''balanced'', ''aggressive'', ''light'', ''off'']"
  have f: "hd (fold add_fallback ?fs [?p]) = ?p" "distinct (map (map lower_char) (fold add_fallback ?fs [?p]))"
    "map lower_char ` (set [?p] \<union> set ?fs) = map lower_char ` set (fold add_fallback ?fs [?p])"
    using fallbacks_keep [of "[?p]" ?fs] by simp_all
  have names: "wg_profile_names env = (if env ''AETHER_WG_NO_PROFILE_RETRY'' = None then fold add_fallback ?fs [?p] else [?p])"
    by (simp only: wg_profile_names_def Let_def)
  have "map lower_char ` set ?fs = set ?fs" by (simp only: list.set(1, 2) image_insert image_empty lower_fallbacks)
  then have cover: "set ?fs \<subseteq> set (map (map lower_char) (fold add_fallback ?fs [?p]))"
    unfolding set_map f(3) [symmetric] by blast
  have keep: "0 < wg_keepalive_secs env \<and> wg_keepalive_secs env < 2 ^ 16"
    using parse_uint_bound [of 16] by (auto simp: wg_keepalive_secs_def split: option.split)
  show ?thesis
  proof (cases "env ''AETHER_WG_NO_PROFILE_RETRY'' = None")
    case True
    show ?thesis unfolding names if_P [OF True] using f(1, 2) cover keep by blast
  next
    case False
    show ?thesis unfolding names if_not_P [OF False] using keep False
      by (simp del: not_None_eq)
  qed
qed

theorem wg_settings_sound_witness:
  "set [''balanced'', ''aggressive'', ''light'', ''off''] \<subseteq> set (map (map lower_char) (wg_profile_names Map.empty))"
  using wg_settings_sound [of Map.empty] by (simp only: simp_thms)

end
