(* ===== verification/Session_Loop.thy ===== *)
theory Session_Loop
  imports Prelude
begin

section \<open>Sessions\<close>

text \<open>
  The contract the two session loops of main.rs share. A session may begin with an endpoint that
  was checked before (\<open>quick\<close>); a turn either uses no endpoint or one more, which is the quick
  one or one that the turn itself vouches for; and the loop ends only with a result that is
  accounted for. All of this may rest on an invariant \<open>inv\<close> of the state. \<open>used\<close> is the log of the endpoints, each with its turn and what came of it.
\<close>

locale session_loop =
  fixes step :: "'t \<Rightarrow> 's \<Rightarrow> ('s, 'r) ctl"
    and quick :: "'s \<Rightarrow> 'q option"
    and used :: "'s \<Rightarrow> ('t \<times> 'q \<times> 'u) list"
    and vouches :: "'t \<Rightarrow> 'q \<Rightarrow> bool"
    and accounted :: "'r \<Rightarrow> bool"
    and inv :: "'s \<Rightarrow> bool"
  assumes step_Go: "inv s \<Longrightarrow> step t s = Go s' \<Longrightarrow>
      inv s' \<and> quick s' = None \<and> (quick s = None \<and> used s' = used s
        \<or> (\<exists>q u. used s' = used s @ [(t, q, u)] \<and> (quick s = Some q \<or> quick s = None \<and> vouches t q)))"
    and step_Stop: "inv s \<Longrightarrow> step t s = Stop r \<Longrightarrow> accounted r"
begin

lemma rest_vouched:
  "inv s \<Longrightarrow> quick s = None \<Longrightarrow> run_loop step ts s = Go s' \<Longrightarrow>
    \<exists>us. used s' = used s @ us \<and> (\<forall>(t, q, u) \<in> set us. vouches t q)"
proof (induction ts arbitrary: s)
  case (Cons t ts)
  then obtain s1 where s1: "step t s = Go s1" "run_loop step ts s1 = Go s'" by (auto split: ctl.splits)
  have "inv s1" "quick s1 = None" using step_Go [OF Cons.prems(1) s1(1)] by blast+
  from Cons.IH [OF this s1(2)] obtain us where us: "used s' = used s1 @ us" "\<forall>(t, q, u) \<in> set us. vouches t q" by blast
  from step_Go [OF Cons.prems(1) s1(1)] Cons.prems(2) consider "used s1 = used s" | q u where "used s1 = used s @ [(t, q, u)]" "vouches t q"
    by auto
  then show ?case
  proof cases
    case 1
    then show ?thesis using us by simp
  next
    case 2
    then show ?thesis using us by (intro exI [of _ "(t, q, u) # us"]) simp
  qed
qed simp

lemma run_vouched:
  assumes "inv s" "used s = []" "run_loop step ts s = Go s'" "k < length (used s')" "used s' ! k = (t, q, u)"
  shows "vouches t q \<or> k = 0 \<and> quick s = Some q"
proof (cases ts)
  case Nil
  then show ?thesis using assms by simp
next
  case (Cons t1 ts')
  then obtain s1 where s1: "step t1 s = Go s1" "run_loop step ts' s1 = Go s'" using assms(3) by (auto split: ctl.splits)
  have "inv s1" "quick s1 = None" using step_Go [OF assms(1) s1(1)] by blast+
  from rest_vouched [OF this s1(2)] obtain us where us: "used s' = used s1 @ us" "\<forall>(t, q, u) \<in> set us. vouches t q" by blast
  show ?thesis
  proof (cases "k < length (used s1)")
    case True
    then have "k = 0" "(t, q, u) = hd (used s1)" "used s1 \<noteq> []"
      using step_Go [OF assms(1) s1(1)] assms us(1) by (auto simp: nth_append hd_conv_nth)
    then show ?thesis using step_Go [OF assms(1) s1(1)] assms(2) by auto
  next
    case False
    then have "us ! (k - length (used s1)) = (t, q, u)" "k - length (used s1) < length us"
      using assms(4, 5) us(1) by (simp_all add: nth_append)
    then have "(t, q, u) \<in> set us" using nth_mem by metis
    then show ?thesis using us(2) by blast
  qed
qed

lemma run_accounted: "inv s \<Longrightarrow> run_loop step ts s = Stop r \<Longrightarrow> accounted r"
proof (induction ts arbitrary: s)
  case (Cons t ts)
  then show ?case using step_Stop [of s t] step_Go [of s t] by (cases "step t s") auto
qed simp

end

end
