(* ===== verification/Masque_Session.thy ===== *)
theory Masque_Session
  imports Session_Loop Settings Addr_Text Quic_Tunnel H2_Tunnel Netstack
begin

section \<open>Running over MASQUE (main.rs)\<close>

text \<open>
  \<open>run_masque\<close> with \<open>quick_verify_masque_peer\<close>, \<open>hunt_masque_peer\<close> and \<open>run_masque_tunnel\<close>: which
  gateway a tunnel goes to, what is saved, when the program gives up. The checks of a gateway and
  the tunnels are modelled in \<open>Quic_Verify\<close>, \<open>Tunnelping\<close>, \<open>Quic_Tunnel\<close> and \<open>H2_Tunnel\<close>; here
  they are what a turn of the loop finds, as functions of the parameters they are called with.
\<close>

record gateway_params =
  gp_sni :: str
  gp_authority :: str
  gp_path :: str
  gp_cert_pem :: bytes
  gp_key_pem :: bytes
  gp_ech :: "bytes option"
  gp_noize :: noize_config
  gp_local_ipv4 :: u32

definition probe_params :: "env_vars \<Rightarrow> identity \<Rightarrow> gateway_params" where
  "probe_params env i =
     \<lparr>gp_sni = CONNECT_SNI, gp_authority = default_authority, gp_path = default_path, gp_cert_pem = cert_pem i,
      gp_key_pem = key_pem i, gp_ech = None, gp_noize = noize_config_of env,
      gp_local_ipv4 = parse_local_v4 (ident_ipv4 i)\<rparr>"

subsection \<open>Checking and searching\<close>

text \<open>What the checks of a gateway answer, from the parameters of the check.\<close>

type_synonym net = "gateway_params \<Rightarrow> checks"

definition checks_of :: "env_vars \<Rightarrow> identity \<Rightarrow> net \<Rightarrow> checks" where
  "checks_of env i net = (net (probe_params env i))\<lparr>checks.h2_enabled := H2_Tunnel.h2_enabled env\<rparr>"

definition quick_verify_masque_peer :: "env_vars \<Rightarrow> identity \<Rightarrow> net \<Rightarrow> sock_addr \<Rightarrow> bool" where
  "quick_verify_masque_peer env i net peer =
     (if H2_Tunnel.h2_enabled env then is_ok (checks.verify_h2 (checks_of env i net) (h2_peer env peer) 5000)
      else is_ok (checks.verify_masque (checks_of env i net) peer 5000))"

text \<open>The rest of what a search depends on: random numbers, IPv6 of the host, clock and scan turns.\<close>

record hunt_run =
  hr_rng :: rng
  hr_draws :: nat
  hr_has_v6 :: bool
  hr_start :: nat
  hr_turns :: "scan_turn list"

text \<open>\<open>None\<close>: a panic, or a search that is not over.\<close>

definition hunt_masque_peer :: "env_vars \<Rightarrow> identity \<Rightarrow> net \<Rightarrow> hunt_run \<Rightarrow> str \<Rightarrow> ip_scan \<Rightarrow> sock_addr result option" where
  "hunt_masque_peer env i net h mode_str ip =
     (case hunt_best_gateway (checks_of env i net) (hr_rng h) (hr_has_v6 h) MASQUE_PORTS ip (scan_mode_parse mode_str)
             (hr_start h) (hr_turns h) (hr_draws h) of
        Some (_, Stop (Inr pr)) \<Rightarrow> Some (Inr (SockAddr (pr_ip pr) (pr_port pr)))
      | Some (_, Stop (Inl e)) \<Rightarrow> Some (Inl e)
      | _ \<Rightarrow> None)"

subsection \<open>One tunnel\<close>

text \<open>
  How the task of a tunnel goes: whether it signals ready, the addresses of the edge it passes
  on, and what joining the task gives: the text of a join error, or the result of the task.
\<close>

record tunnel_end =
  te_ready :: bool
  te_offered :: "(ip_addr \<times> u8) list"
  te_joined :: "str + unit result"

text \<open>The task that copies the addresses of the edge into the stack, as one command for each.\<close>

definition sync_addr :: "ip_addr \<times> u8 \<Rightarrow> cmd" where
  "sync_addr a =
     (case a of (IpV4 v4, p) \<Rightarrow> SetAddrs (Some (v4, p)) None | (IpV6 v6, p) \<Rightarrow> SetAddrs None (Some (v6, p)))"

definition before_validation :: "str + unit result \<Rightarrow> aether_error" where
  "before_validation joined =
     Other (case joined of
        Inr (Inr _) \<Rightarrow> ''tunnel exited before validation''
      | Inr (Inl e) \<Rightarrow> ''tunnel failed before validation: '' @ error_text e
      | Inl e \<Rightarrow> ''tunnel task join error: '' @ e)"

definition tunnel_result :: "str + unit result \<Rightarrow> unit result" where
  "tunnel_result joined =
     (case joined of
        Inr (Inr _) \<Rightarrow> Inr ()
      | Inr (Inl e) \<Rightarrow> Inl (Other (''tunnel exited: '' @ error_text e))
      | Inl e \<Rightarrow> Inl (Other (''tunnel task join error: '' @ e)))"

text \<open>
  \<open>tunnel h2 peer params\<close> is how the tunnel goes that is started over HTTP/2 or QUIC. The result
  tells which tunnel was started, the commands its addresses become, whether the SOCKS server ran,
  and what is returned. The configuration of HTTP/2 has no encrypted client hello.
\<close>

record masque_run =
  mr_peer :: "sock_addr option"
  mr_ech :: "bytes option"
  mr_cmds :: "cmd list"
  mr_served :: bool
  mr_result :: "unit result"

definition run_masque_tunnel ::
  "('i, 't, 'u) smoltcp \<Rightarrow> 'i \<Rightarrow> env_vars \<Rightarrow> identity \<Rightarrow> sock_addr \<Rightarrow> bytes option
    \<Rightarrow> (bool \<Rightarrow> sock_addr \<Rightarrow> gateway_params \<Rightarrow> tunnel_end) \<Rightarrow> masque_run" where
  "run_masque_tunnel sm i0 env i peer ech tunnel =
     (case netstack_new sm (ident_ipv4 i) (ident_ipv6 i) TUNNEL_MTU i0 of
        Inl e \<Rightarrow> \<lparr>mr_peer = None, mr_ech = None, mr_cmds = [], mr_served = False, mr_result = Inl e\<rparr>
      | Inr _ \<Rightarrow>
          (let h2 = H2_Tunnel.h2_enabled env;
               target = (if h2 then h2_peer env peer else peer);
               params = (probe_params env i)\<lparr>gp_ech := (if h2 then None else ech)\<rparr>;
               te = tunnel h2 target params;
               cmds = map sync_addr (te_offered te)
           in if \<not> te_ready te then
                \<lparr>mr_peer = Some target, mr_ech = gp_ech params, mr_cmds = cmds, mr_served = False,
                 mr_result = Inl (before_validation (te_joined te))\<rparr>
              else
                \<lparr>mr_peer = Some target, mr_ech = gp_ech params, mr_cmds = cmds, mr_served = True,
                 mr_result = tunnel_result (te_joined te)\<rparr>))"

subsection \<open>The session\<close>

text \<open>What does not change during a session, and its state; \<open>tunnels\<close> and \<open>slept\<close> are what it did.\<close>

record ('p, 'x, 'i, 't, 'u) masque_env =
  me_account :: "('p, 'x) account_env"
  me_smoltcp :: "('i, 't, 'u) smoltcp"
  me_iface :: 'i
  me_console :: console
  me_identity :: identity
  me_ech :: "bytes option"
  me_lastconn :: str
  me_mode :: str
  me_ip :: ip_scan

record masque_turn =
  mt_retry :: net
  mt_scan :: net
  mt_hunt :: hunt_run
  mt_tunnel :: "bool \<Rightarrow> sock_addr \<Rightarrow> gateway_params \<Rightarrow> tunnel_end"

record masque_session =
  ms_world :: world
  quick_peer :: "sock_addr option"
  last_good_peer :: "sock_addr option"
  tunnels :: "(masque_turn \<times> sock_addr \<times> masque_run) list"
  slept :: "nat list"

abbreviation me_vars :: "('p, 'x, 'i, 't, 'u) masque_env \<Rightarrow> env_vars" where
  "me_vars e \<equiv> console.vars (me_console e)"

definition forced_peer :: "env_vars \<Rightarrow> str option" where
  "forced_peer env = env ''AETHER_PEER''"

definition cached_peer :: "('p, 'x) account_env \<Rightarrow> console \<Rightarrow> identity \<Rightarrow> str \<Rightarrow> net \<Rightarrow> world \<Rightarrow> sock_addr option" where
  "cached_peer a c i path net w =
     (if forced_peer (console.vars c) \<noteq> None then None
      else
        (case lastconn_load a path w of
           None \<Rightarrow> None
         | Some cached \<Rightarrow>
             (case parse_sock_addr (lc_peer cached) of
                None \<Rightarrow> None
              | Some peer \<Rightarrow>
                  (if want_quick_reconnect c cached \<and> quick_verify_masque_peer (console.vars c) i net peer
                   then Some peer else None))))"

text \<open>The settings of a search are read only when there is no peer to begin with.\<close>

definition scan_settings :: "console \<Rightarrow> bool \<Rightarrow> str \<times> ip_scan" where
  "scan_settings c have_peer = (if have_peer then ([], V4) else (select_scan_mode_str c, select_ip_version c))"

definition masque_begin ::
  "('p, 'x) account_env \<Rightarrow> ('i, 't, 'u) smoltcp \<Rightarrow> 'i \<Rightarrow> console \<Rightarrow> identity \<Rightarrow> bytes option \<Rightarrow> str \<Rightarrow> net \<Rightarrow> world
    \<Rightarrow> ('p, 'x, 'i, 't, 'u) masque_env \<times> masque_session" where
  "masque_begin a sm i0 c i ech path net w =
     (let quick = cached_peer a c i path net w;
          (mode_str, ip) = scan_settings c (forced_peer (console.vars c) \<noteq> None \<or> quick \<noteq> None)
      in (\<lparr>me_account = a, me_smoltcp = sm, me_iface = i0, me_console = c, me_identity = i, me_ech = ech,
            me_lastconn = path, me_mode = mode_str, me_ip = ip\<rparr>,
          \<lparr>ms_world = w, quick_peer = quick, last_good_peer = None, tunnels = [], slept = []\<rparr>))"

datatype choice = Use sock_addr | Rescan | GiveUp aether_error

definition choose_masque_peer :: "('p, 'x, 'i, 't, 'u) masque_env \<Rightarrow> masque_turn \<Rightarrow> masque_session \<Rightarrow> choice option" where
  "choose_masque_peer e t s =
     (case quick_peer s of
        Some p \<Rightarrow> Some (Use p)
      | None \<Rightarrow>
          (let retried = (case last_good_peer s of
                 Some p \<Rightarrow> (if quick_verify_masque_peer (me_vars e) (me_identity e) (mt_retry t) p then Some p else None)
               | None \<Rightarrow> None)
           in case retried of
                Some p \<Rightarrow> Some (Use p)
              | None \<Rightarrow>
                  (case forced_peer (me_vars e) of
                     Some p \<Rightarrow>
                       (case parse_sock_addr p of
                          Some peer \<Rightarrow> Some (Use peer)
                        | None \<Rightarrow> Some (GiveUp (Other (''bad peer address '' @ p))))
                   | None \<Rightarrow>
                       (case hunt_masque_peer (me_vars e) (me_identity e) (mt_scan t) (mt_hunt t) (me_mode e) (me_ip e) of
                          None \<Rightarrow> None
                        | Some (Inr peer) \<Rightarrow> Some (Use peer)
                        | Some (Inl _) \<Rightarrow> Some Rescan))))"

text \<open>The profile that is saved with a peer.\<close>

definition saved_profile :: "env_vars \<Rightarrow> str" where
  "saved_profile env = (case env ''AETHER_NOIZE'' of Some p \<Rightarrow> p | None \<Rightarrow> ''firewall'')"

definition use_peer :: "('p, 'x, 'i, 't, 'u) masque_env \<Rightarrow> masque_turn \<Rightarrow> sock_addr \<Rightarrow> masque_session \<Rightarrow> masque_session" where
  "use_peer e t peer s =
     (let s = (if forced_peer (me_vars e) = None then
                 s\<lparr>ms_world := lastconn_save (me_account e) (me_lastconn e) (show_sock_addr peer) (saved_profile (me_vars e)) (ms_world s)\<rparr>
               else s);
          s = s\<lparr>last_good_peer := Some peer\<rparr>;
          r = run_masque_tunnel (me_smoltcp e) (me_iface e) (me_vars e) (me_identity e) peer (me_ech e) (mt_tunnel t)
      in s\<lparr>tunnels := tunnels s @ [(t, peer, r)], slept := slept s @ [masque_reconnect_delay (me_vars e)]\<rparr>)"

text \<open>A turn of the loop: \<open>Stop (Some e)\<close> is what \<open>run_masque\<close> returns, which is always an error.\<close>

definition masque_step :: "('p, 'x, 'i, 't, 'u) masque_env \<Rightarrow> masque_turn \<Rightarrow> masque_session
    \<Rightarrow> (masque_session, aether_error option) ctl" where
  "masque_step e t s =
     (case choose_masque_peer e t s of
        None \<Rightarrow> Stop None
      | Some (GiveUp err) \<Rightarrow> Stop (Some err)
      | Some Rescan \<Rightarrow> Go (s\<lparr>quick_peer := None, slept := slept s @ [masque_reconnect_delay (me_vars e)]\<rparr>)
      | Some (Use peer) \<Rightarrow> Go (use_peer e t peer (s\<lparr>quick_peer := None\<rparr>)))"

definition run_masque ::
  "('p, 'x) account_env \<Rightarrow> ('i, 't, 'u) smoltcp \<Rightarrow> 'i \<Rightarrow> console \<Rightarrow> identity \<Rightarrow> bytes option \<Rightarrow> str \<Rightarrow> net \<Rightarrow> world
    \<Rightarrow> masque_turn list \<Rightarrow> (masque_session, aether_error option) ctl" where
  "run_masque a sm i0 c i ech path net w turns =
     (case masque_begin a sm i0 c i ech path net w of (e, s) \<Rightarrow> run_loop (masque_step e) turns s)"

subsection \<open>Which peers are used\<close>

text \<open>
  What speaks for using \<open>peer\<close> in turn \<open>t\<close>: it is the forced one, or it passed the quick check
  in that turn, or the check of a search in that turn.
\<close>

definition vouched :: "env_vars \<Rightarrow> identity \<Rightarrow> masque_turn \<Rightarrow> sock_addr \<Rightarrow> bool" where
  "vouched env i t peer \<longleftrightarrow>
     Option.bind (forced_peer env) parse_sock_addr = Some peer
     \<or> quick_verify_masque_peer env i (mt_retry t) peer
     \<or> (\<exists>limit ironclad. verify_one (checks_of env i (mt_scan t)) (sa_ip peer) (sa_port peer) limit ironclad \<noteq> None)"

lemma hunt_masque_peer_verified:
  assumes "hunt_masque_peer env i net h mode_str ip = Some (Inr peer)"
  shows "\<exists>limit ironclad. verify_one (checks_of env i net) (sa_ip peer) (sa_port peer) limit ironclad \<noteq> None"
proof -
  obtain cands pr where h: "hunt_best_gateway (checks_of env i net) (hr_rng h) (hr_has_v6 h) MASQUE_PORTS ip
      (scan_mode_parse mode_str) (hr_start h) (hr_turns h) (hr_draws h) = Some (cands, Stop (Inr pr))"
    and p: "peer = SockAddr (pr_ip pr) (pr_port pr)"
    using assms by (auto simp: hunt_masque_peer_def split: option.splits prod.splits ctl.splits sum.splits)
  obtain x where "scan_yields (checks_of env i net) (scan_mode_strategy (scan_mode_parse mode_str))
      (scan_mode_parse mode_str = Ironclad) x = Some pr"
    using hunt_best_gateway_verified [OF h] ..
  then obtain ip port limit ironclad where "verify_one (checks_of env i net) ip port limit ironclad = Some pr"
    by (auto simp: scan_yields_def split: scan_item.splits prod.splits)
  moreover from this have "pr_ip pr = ip" "pr_port pr = port" using verify_one_candidate by blast+
  ultimately show ?thesis using p by auto
qed

lemma choose_masque_peer_cases:
  assumes "choose_masque_peer e t s = Some c"
  obtains (quick) p where "quick_peer s = Some p" "c = Use p"
  | (vouched) p where "quick_peer s = None" "c = Use p" "vouched (me_vars e) (me_identity e) t p"
  | (rescan) "quick_peer s = None" "c = Rescan" "forced_peer (me_vars e) = None"
  | (bad) p where "forced_peer (me_vars e) = Some p" "parse_sock_addr p = None"
      "c = GiveUp (Other (''bad peer address '' @ p))"
  using assms hunt_masque_peer_verified [of "me_vars e" "me_identity e" "mt_scan t" "mt_hunt t" "me_mode e" "me_ip e"]
  by (auto simp: choose_masque_peer_def vouched_def Let_def split: option.splits if_splits sum.splits)

definition masque_post :: "('p, 'x, 'i, 't, 'u) masque_env \<Rightarrow> aether_error option \<Rightarrow> bool" where
  "masque_post e r \<longleftrightarrow>
     r = None \<or> (\<exists>p. forced_peer (me_vars e) = Some p \<and> parse_sock_addr p = None \<and>
       r = Some (Other (''bad peer address '' @ p)))"

lemma use_peer_fields [simp]:
  "quick_peer (use_peer e t p s) = quick_peer s" "last_good_peer (use_peer e t p s) = Some p"
  "tunnels (use_peer e t p s) = tunnels s @ [(t, p,
     run_masque_tunnel (me_smoltcp e) (me_iface e) (me_vars e) (me_identity e) p (me_ech e) (mt_tunnel t))]"
  by (simp_all add: use_peer_def Let_def)

interpretation masque: session_loop "masque_step e" quick_peer tunnels "vouched (me_vars e) (me_identity e)" "masque_post e" "\<lambda>_. True" for e
proof
  fix t and s s' :: masque_session
  assume s': "masque_step e t s = Go s'"
  then obtain c where c: "choose_masque_peer e t s = Some c" by (auto simp: masque_step_def split: option.splits)
  show "True \<and> quick_peer s' = None \<and> (quick_peer s = None \<and> tunnels s' = tunnels s
      \<or> (\<exists>q u. tunnels s' = tunnels s @ [(t, q, u)] \<and>
          (quick_peer s = Some q \<or> quick_peer s = None \<and> vouched (me_vars e) (me_identity e) t q)))"
    by (rule choose_masque_peer_cases [OF c]) (use c s' in \<open>auto simp: masque_step_def\<close>)
next
  fix t and s :: masque_session and r
  assume r: "masque_step e t s = Stop r"
  show "masque_post e r"
  proof (cases "choose_masque_peer e t s")
    case (Some c)
    show ?thesis by (rule choose_masque_peer_cases [OF Some]) (use r Some in \<open>auto simp: masque_step_def masque_post_def\<close>)
  qed (use r in \<open>simp add: masque_step_def masque_post_def\<close>)
qed

lemma masque_begin_fields:
  assumes "masque_begin a sm i0 c i ech path net w = (e, s)"
  shows "quick_peer s = cached_peer a c i path net w \<and> me_vars e = console.vars c \<and> me_identity e = i \<and>
    me_account e = a \<and> me_lastconn e = path \<and> ms_world s = w \<and> tunnels s = []"
  using assms by (auto simp: masque_begin_def Let_def split: prod.splits)

subsection \<open>What is saved\<close>

text \<open>With a file system that takes the writes, the last peer used is the one in the file.\<close>

definition saves :: "('p, 'x) account_env \<Rightarrow> str \<Rightarrow> bool" where
  "saves a path \<longleftrightarrow> (\<forall>c. \<exists>t. conn_of a c = Inr t) \<and> (\<forall>t. write_error a path t = None \<and> read_error a path t = None)"

definition saved :: "('p, 'x, 'i, 't, 'u) masque_env \<Rightarrow> masque_session \<Rightarrow> bool" where
  "saved e s \<longleftrightarrow>
     tunnels s = [] \<or> lastconn_load (me_account e) (me_lastconn e) (ms_world s) =
       Some \<lparr>lc_peer = show_sock_addr (fst (snd (last (tunnels s)))), lc_profile = saved_profile (me_vars e)\<rparr>"

lemma use_peer_saved:
  assumes "account_codec (me_account e)" "saves (me_account e) (me_lastconn e)" "forced_peer (me_vars e) = None"
  shows "saved e (use_peer e t p s)"
proof -
  obtain line where t: "conn_of (me_account e) \<lparr>lc_peer = show_sock_addr p, lc_profile = saved_profile (me_vars e)\<rparr> = Inr line"
    using assms(2) unfolding saves_def by blast
  have rw: "write_error (me_account e) (me_lastconn e) line = None" "read_error (me_account e) (me_lastconn e) line = None"
    using assms(2) unfolding saves_def by blast+
  show ?thesis
    using account_codec.lastconn_roundtrip [OF assms(1) t rw] assms(3) by (simp add: saved_def use_peer_def Let_def)
qed

lemma run_saved:
  assumes "account_codec (me_account e)" "saves (me_account e) (me_lastconn e)" "forced_peer (me_vars e) = None"
    and "saved e s" and "run_loop (masque_step e) ts s = Go s'"
  shows "saved e s'"
  using assms(4, 5)
proof (induction ts arbitrary: s)
  case (Cons t ts)
  obtain s1 where s1: "masque_step e t s = Go s1" "run_loop (masque_step e) ts s1 = Go s'"
    using Cons.prems(2) by (auto split: ctl.splits)
  have "saved e s1"
    using s1(1) Cons.prems(1) use_peer_saved [OF assms(1-3)]
    by (auto simp: masque_step_def saved_def split: option.splits choice.splits)
  from Cons.IH [OF this s1(2)] show ?case .
qed simp

subsection \<open>Addresses of the edge\<close>

text \<open>An interface whose addresses are those of the last update, as that of smoltcp is.\<close>

locale interface_addrs =
  fixes sm :: "('i, 't, 'u) smoltcp"
    and addrs :: "'i \<Rightarrow> (ip_addr \<times> u8) list"
  assumes update: "addrs (sm_update_addrs sm as i) = as"
    and route: "addrs (sm_default_route sm g i) = addrs i"
begin

lemma applied: "addrs (apply_addrs sm v4 v6 i) =
    (case v4 of Some (ip, p) \<Rightarrow> [(IpV4 ip, routable_prefix_v4 p)] | None \<Rightarrow> [])
    @ (case v6 of Some (ip, p) \<Rightarrow> [(IpV6 ip, routable_prefix_v6 p)] | None \<Rightarrow> [])"
  by (auto simp: apply_addrs_def update route Let_def split: option.split)

lemma synced: "addrs (iface (handle_cmd sm (sync_addr (a, p)) s)) =
    [(a, case a of IpV4 _ \<Rightarrow> routable_prefix_v4 p | IpV6 _ \<Rightarrow> routable_prefix_v6 p)]"
  by (cases a) (simp_all add: sync_addr_def applied)

end

text \<open>A network stack whose interface is the list of its addresses.\<close>

definition listed :: "((ip_addr \<times> u8) list, toy_tcp, unit) smoltcp" where
  "listed = \<lparr>sm_poll = (\<lambda>i d so. ((i, d), \<lambda>_ t. t, \<lambda>_ u. u, False)), sm_slot = sm_slot toy,
    sm_connect = (\<lambda>_. sm_connect toy ()), sm_bind = sm_bind toy, sm_state = sm_state toy, sm_can_send = sm_can_send toy,
    sm_send = sm_send toy, sm_close = sm_close toy, sm_can_recv = sm_can_recv toy, sm_recv = sm_recv toy,
    sm_udp_send = sm_udp_send toy, sm_udp_can_recv = sm_udp_can_recv toy, sm_udp_recv = sm_udp_recv toy,
    sm_update_addrs = (\<lambda>as _. as), sm_default_route = (\<lambda>_ i. i)\<rparr>"

interpretation listed: interface_addrs listed "\<lambda>i. i"
  by unfold_locales (simp_all add: listed_def)

subsection \<open>Settings that are lost\<close>

text \<open>
  After a quick reconnect the settings of the search were never read: when the tunnel later ends
  and its gateway does not answer, the search is the balanced one over IPv4, whatever
  \<open>AETHER_SCAN\<close> and \<open>AETHER_IP\<close> say.
\<close>

lemma quick_reconnect_forgets_settings:
  assumes "cached_peer a c i path net w = Some p"
  shows "me_mode (fst (masque_begin a sm i0 c i ech path net w)) = []
    \<and> me_ip (fst (masque_begin a sm i0 c i ech path net w)) = V4 \<and> scan_mode_parse [] = Balanced"
proof -
  have "scan_mode_parse [] = Balanced" by code_simp
  then show ?thesis using assms by (simp add: masque_begin_def scan_settings_def)
qed

text \<open>Over HTTP/2 the encrypted client hello that was resolved is not used.\<close>

lemma h2_ignores_ech:
  assumes "H2_Tunnel.h2_enabled env"
  shows "run_masque_tunnel sm i0 env i peer ech tunnel = run_masque_tunnel sm i0 env i peer None tunnel
    \<and> mr_ech (run_masque_tunnel sm i0 env i peer ech tunnel) = None"
  using assms by (simp add: run_masque_tunnel_def Let_def split: sum.split)

subsection \<open>Properties\<close>


definition sample_console :: "env_vars \<Rightarrow> console" where
  "sample_console env = \<lparr>console.vars = env, terminal = False, typed = (\<lambda>_. None)\<rparr>"

definition sample_turn :: masque_turn where
  "sample_turn =
     \<lparr>mt_retry = (\<lambda>_. sample_checks), mt_scan = (\<lambda>_. sample_checks),
      mt_hunt = \<lparr>hr_rng = (\<lambda>_. 0), hr_draws = 0, hr_has_v6 = False, hr_start = 0, hr_turns = []\<rparr>,
      mt_tunnel = (\<lambda>_ _ _. \<lparr>te_ready = True, te_offered = [], te_joined = Inr (Inr ())\<rparr>)\<rparr>"

definition sample_peer :: sock_addr where "sample_peer = SockAddr (IpV4 0xA29FC605) 443"



lemma sample_saves: "saves sample_api path"
  by (simp add: saves_def sample_api_def)




end
