(* ===== verification/Wg_Session.thy ===== *)
theory Wg_Session
  imports Masque_Session Wg_Prober Wireguard
begin

section \<open>Running over WireGuard (main.rs)\<close>

text \<open>
  \<open>run_wireguard\<close> with \<open>hunt_wg_peer\<close> and \<open>run_wireguard_tunnel\<close>: which endpoint and which
  obfuscation profile a tunnel uses, what is saved, when the program gives up. The check of an
  endpoint and the tunnel are modelled in \<open>Wireguard\<close>, the search in \<open>Wg_Prober\<close>; here they are
  what a turn of the loop finds.
\<close>

definition private_key_bytes :: "identity \<Rightarrow> bytes result" where
  "private_key_bytes i = Inr (wg_private_key i)"

definition peer_public_key_bytes :: "identity \<Rightarrow> bytes result" where
  "peer_public_key_bytes i = Inr (wg_peer_public_key i)"

lemmas key_bytes = private_key_bytes_def peer_public_key_bytes_def

definition wg_local_ipv4 :: "identity \<Rightarrow> u32 result" where
  "wg_local_ipv4 i = (case parse_ipv4 (ident_ipv4 i) of Some ip \<Rightarrow> Inr ip | None \<Rightarrow> Inl (Other ''invalid ipv4''))"

definition wg_local_ipv6 :: "identity \<Rightarrow> u128 result" where
  "wg_local_ipv6 i = (case parse_ipv6 (ident_ipv6 i) of Some ip \<Rightarrow> Inr ip | None \<Rightarrow> Inl (Other ''invalid ipv6''))"

text \<open>What \<open>verify_endpoint\<close> is called with besides the endpoint and the time limit.\<close>

record wg_params =
  wp_private_key :: bytes
  wp_peer_public_key :: bytes
  wp_client_id :: bytes
  wp_local_ipv4 :: u32
  wp_profile :: aethernoize_config

definition wg_params_of :: "identity \<Rightarrow> aethernoize_config \<Rightarrow> wg_params result" where
  "wg_params_of i profile =
     proceed (private_key_bytes i) (\<lambda>private_key.
     proceed (peer_public_key_bytes i) (\<lambda>peer_public.
     proceed (wg_local_ipv4 i) (\<lambda>ipv4.
       Inr \<lparr>wp_private_key = private_key, wp_peer_public_key = peer_public, wp_client_id = ident_client_id i,
            wp_local_ipv4 = ipv4, wp_profile = profile\<rparr>)))"

type_synonym wg_net = "wg_params \<Rightarrow> wg_checks"

type_synonym endpoint = "sock_addr \<times> aethernoize_config \<times> str"

subsection \<open>Searching\<close>

definition hunt_wg_peer_with_profile :: "identity \<Rightarrow> wg_net \<Rightarrow> hunt_run \<Rightarrow> str \<Rightarrow> ip_scan \<Rightarrow> aethernoize_config
    \<Rightarrow> sock_addr result option" where
  "hunt_wg_peer_with_profile i net h mode_str ip profile =
     (case wg_params_of i profile of
        Inl e \<Rightarrow> Some (Inl e)
      | Inr params \<Rightarrow>
          (case hunt_best_wg_endpoint (net params) (hr_rng h) (hr_has_v6 h) WG_PORTS ip (wg_scan_mode_parse mode_str)
                  (hr_start h) (hr_turns h) (hr_draws h) of
             Some (_, Stop (Inr pr)) \<Rightarrow> Some (Inr (SockAddr (wpr_ip pr) (wpr_port pr)))
           | Some (_, Stop (Inl e)) \<Rightarrow> Some (Inl e)
           | _ \<Rightarrow> None))"

text \<open>The profiles are tried in order; the search of each has its own run.\<close>

fun hunt_wg_peer :: "identity \<Rightarrow> (nat \<Rightarrow> wg_net) \<Rightarrow> (nat \<Rightarrow> hunt_run) \<Rightarrow> str \<Rightarrow> ip_scan \<Rightarrow> nat
    \<Rightarrow> (str \<times> aethernoize_config) list \<Rightarrow> endpoint result option" where
  "hunt_wg_peer i net h mode_str ip n [] = Some (Inl NoCleanEndpoint)"
| "hunt_wg_peer i net h mode_str ip n ((name, profile) # candidates) =
     (case hunt_wg_peer_with_profile i (net n) (h n) mode_str ip profile of
        None \<Rightarrow> None
      | Some (Inr peer) \<Rightarrow> Some (Inr (peer, profile, name))
      | Some (Inl _) \<Rightarrow> hunt_wg_peer i net h mode_str ip (Suc n) candidates)"

text \<open>Testing an endpoint within a time limit, and the first profile that passes on a forced peer.\<close>

definition endpoint_passes :: "identity \<Rightarrow> wg_net \<Rightarrow> sock_addr \<Rightarrow> aethernoize_config \<Rightarrow> nat \<Rightarrow> bool" where
  "endpoint_passes i net peer profile limit =
     is_ok (proceed (wg_params_of i profile) (\<lambda>params. wg_verify (net params) peer limit))"

fun test_forced :: "identity \<Rightarrow> (nat \<Rightarrow> wg_net) \<Rightarrow> sock_addr \<Rightarrow> nat \<Rightarrow> (str \<times> aethernoize_config) list \<Rightarrow> endpoint option" where
  "test_forced i net peer n [] = None"
| "test_forced i net peer n ((name, profile) # candidates) =
     (if endpoint_passes i (net n) peer profile 10000 then Some (peer, profile, name)
      else test_forced i net peer (Suc n) candidates)"

subsection \<open>One tunnel\<close>

record wg_config =
  wc_private_key :: bytes
  wc_peer_public_key :: bytes
  wc_peer_endpoint :: sock_addr
  wc_local_ipv4 :: u32
  wc_local_ipv6 :: u128
  wc_client_id :: bytes
  wc_preshared_key :: "bytes option"
  wc_keepalive :: "nat option"
  wc_aethernoize :: aethernoize_config

definition wg_config_of :: "identity \<Rightarrow> sock_addr \<Rightarrow> nat \<Rightarrow> aethernoize_config \<Rightarrow> wg_config result" where
  "wg_config_of i peer keepalive profile =
     proceed (private_key_bytes i) (\<lambda>private_key.
     proceed (peer_public_key_bytes i) (\<lambda>peer_public.
     proceed (wg_local_ipv4 i) (\<lambda>ipv4.
     proceed (wg_local_ipv6 i) (\<lambda>ipv6.
       Inr \<lparr>wc_private_key = private_key, wc_peer_public_key = peer_public, wc_peer_endpoint = peer,
            wc_local_ipv4 = ipv4, wc_local_ipv6 = ipv6, wc_client_id = ident_client_id i, wc_preshared_key = None,
            wc_keepalive = Some keepalive, wc_aethernoize = profile\<rparr>))))"

text \<open>
  What becomes of a tunnel, from its configuration: what \<open>WgTunnel::new\<close> and then \<open>run\<close> return.
  The result tells the configuration of the tunnel that ran, if one did, and what is returned.
\<close>

record wg_life =
  wl_new :: "unit result"
  wl_run :: "unit result"

definition run_wireguard_tunnel ::
  "('i, 't, 'u) smoltcp \<Rightarrow> 'i \<Rightarrow> env_vars \<Rightarrow> identity \<Rightarrow> sock_addr \<Rightarrow> aethernoize_config \<Rightarrow> (wg_config \<Rightarrow> wg_life)
    \<Rightarrow> wg_config option \<times> unit result" where
  "run_wireguard_tunnel sm i0 env i peer profile life =
     (case wg_config_of i peer (wg_keepalive_secs env) profile of
        Inl e \<Rightarrow> (None, Inl e)
      | Inr cfg \<Rightarrow>
          (case wl_new (life cfg) of
             Inl e \<Rightarrow> (None, Inl e)
           | Inr _ \<Rightarrow>
               (case netstack_new sm (ident_ipv4 i) (ident_ipv6 i) TUNNEL_MTU i0 of
                  Inl e \<Rightarrow> (None, Inl e)
                | Inr _ \<Rightarrow>
                    (Some cfg,
                     (case wl_run (life cfg) of
                        Inr _ \<Rightarrow> Inr ()
                      | Inl e \<Rightarrow> Inl (Other (''wireguard tunnel exited: '' @ error_text e)))))))"

subsection \<open>The session\<close>

record ('p, 'x, 'i, 't, 'u) wg_session_env =
  we_account :: "('p, 'x) account_env"
  we_smoltcp :: "('i, 't, 'u) smoltcp"
  we_iface :: 'i
  we_vars :: env_vars
  we_identity :: identity
  we_lastconn :: str
  we_mode :: str
  we_ip :: ip_scan

text \<open>
  What a turn finds: the check of the last good endpoint, those of the profiles on a forced
  peer, the searches, and the tunnel.
\<close>

record wg_turn =
  wt_retry :: wg_net
  wt_test :: "nat \<Rightarrow> wg_net"
  wt_scan :: "nat \<Rightarrow> wg_net"
  wt_hunt :: "nat \<Rightarrow> hunt_run"
  wt_tunnel :: "wg_config \<Rightarrow> wg_life"

record wg_session =
  ws_world :: world
  wg_quick :: "endpoint option"
  wg_last_good :: "endpoint option"
  wg_tunnels :: "(wg_turn \<times> endpoint \<times> wg_config option \<times> unit result) list"
  wg_slept :: "nat list"

definition wg_forced_peer :: "env_vars \<Rightarrow> str option" where
  "wg_forced_peer env = (case env ''AETHER_WG_PEER'' of Some p \<Rightarrow> Some p | None \<Rightarrow> env ''AETHER_PEER'')"

definition wg_cached_peer :: "('p, 'x) account_env \<Rightarrow> console \<Rightarrow> identity \<Rightarrow> str \<Rightarrow> wg_net \<Rightarrow> world \<Rightarrow> endpoint option" where
  "wg_cached_peer a c i path net w =
     (if wg_forced_peer (console.vars c) \<noteq> None then None
      else
        (case lastconn_load a path w of
           None \<Rightarrow> None
         | Some cached \<Rightarrow>
             (case parse_sock_addr (lc_peer cached) of
                None \<Rightarrow> None
              | Some peer \<Rightarrow>
                  (let profile = aethernoize_from_profile (lc_profile cached) in
                   if want_quick_reconnect c cached \<and> endpoint_passes i net peer profile 6000
                   then Some (peer, profile, lc_profile cached) else None))))"

definition wg_begin ::
  "('p, 'x) account_env \<Rightarrow> ('i, 't, 'u) smoltcp \<Rightarrow> 'i \<Rightarrow> console \<Rightarrow> identity \<Rightarrow> str \<Rightarrow> wg_net \<Rightarrow> world
    \<Rightarrow> (('p, 'x, 'i, 't, 'u) wg_session_env \<times> wg_session) result" where
  "wg_begin a sm i0 c i path net w =
     proceed (private_key_bytes i) (\<lambda>_.
     proceed (peer_public_key_bytes i) (\<lambda>_.
     proceed (wg_local_ipv4 i) (\<lambda>_.
       (let quick = wg_cached_peer a c i path net w;
            (mode_str, ip) = scan_settings c (wg_forced_peer (console.vars c) \<noteq> None \<or> quick \<noteq> None)
        in Inr (\<lparr>we_account = a, we_smoltcp = sm, we_iface = i0, we_vars = console.vars c, we_identity = i,
                  we_lastconn = path, we_mode = mode_str, we_ip = ip\<rparr>,
                \<lparr>ws_world = w, wg_quick = quick, wg_last_good = None, wg_tunnels = [], wg_slept = []\<rparr>)))))"

datatype wg_choice = WgUse endpoint | WgRescan | WgGiveUp aether_error

text \<open>Without a known endpoint: the forced peer, or a search.\<close>

definition find_wg_peer :: "('p, 'x, 'i, 't, 'u) wg_session_env \<Rightarrow> wg_turn \<Rightarrow> wg_choice option" where
  "find_wg_peer e t =
     (case wg_forced_peer (we_vars e) of
        Some p \<Rightarrow>
          (case parse_sock_addr p of
             None \<Rightarrow> Some (WgGiveUp (Other (''bad peer address '' @ p)))
           | Some peer \<Rightarrow>
               (case test_forced (we_identity e) (wt_test t) peer 0 (wg_profile_candidates (we_vars e)) of
                  Some q \<Rightarrow> Some (WgUse q)
                | None \<Rightarrow> Some (WgGiveUp NoCleanEndpoint)))
      | None \<Rightarrow>
          (case hunt_wg_peer (we_identity e) (wt_scan t) (wt_hunt t) (we_mode e) (we_ip e) 0
                  (wg_profile_candidates (we_vars e)) of
             None \<Rightarrow> None
           | Some (Inr q) \<Rightarrow> Some (WgUse q)
           | Some (Inl _) \<Rightarrow> Some WgRescan))"

definition choose_wg_peer :: "('p, 'x, 'i, 't, 'u) wg_session_env \<Rightarrow> wg_turn \<Rightarrow> wg_session \<Rightarrow> wg_choice option" where
  "choose_wg_peer e t s =
     (case wg_quick s of
        Some q \<Rightarrow> Some (WgUse q)
      | None \<Rightarrow>
          (case wg_last_good s of
             Some (p, profile, name) \<Rightarrow>
               (if endpoint_passes (we_identity e) (wt_retry t) p profile 6000 then Some (WgUse (p, profile, name))
                else find_wg_peer e t)
           | None \<Rightarrow> find_wg_peer e t))"

definition use_endpoint :: "('p, 'x, 'i, 't, 'u) wg_session_env \<Rightarrow> wg_turn \<Rightarrow> endpoint \<Rightarrow> wg_session \<Rightarrow> wg_session" where
  "use_endpoint e t q s =
     (case q of (peer, profile, name) \<Rightarrow>
        (let s = (if wg_forced_peer (we_vars e) = None then
                    s\<lparr>ws_world := lastconn_save (we_account e) (we_lastconn e) (show_sock_addr peer) name (ws_world s)\<rparr>
                  else s);
             s = s\<lparr>wg_last_good := Some (peer, profile, name)\<rparr>;
             r = run_wireguard_tunnel (we_smoltcp e) (we_iface e) (we_vars e) (we_identity e) peer profile (wt_tunnel t)
         in s\<lparr>wg_tunnels := wg_tunnels s @ [(t, q, r)], wg_slept := wg_slept s @ [wg_reconnect_delay (we_vars e)]\<rparr>))"

definition wg_session_step :: "('p, 'x, 'i, 't, 'u) wg_session_env \<Rightarrow> wg_turn \<Rightarrow> wg_session
    \<Rightarrow> (wg_session, aether_error option) ctl" where
  "wg_session_step e t s =
     (case choose_wg_peer e t s of
        None \<Rightarrow> Stop None
      | Some (WgGiveUp err) \<Rightarrow> Stop (Some err)
      | Some WgRescan \<Rightarrow> Go (s\<lparr>wg_quick := None, wg_slept := wg_slept s @ [wg_reconnect_delay (we_vars e)]\<rparr>)
      | Some (WgUse q) \<Rightarrow> Go (use_endpoint e t q (s\<lparr>wg_quick := None\<rparr>)))"

definition run_wireguard ::
  "('p, 'x) account_env \<Rightarrow> ('i, 't, 'u) smoltcp \<Rightarrow> 'i \<Rightarrow> console \<Rightarrow> identity \<Rightarrow> str \<Rightarrow> wg_net \<Rightarrow> world \<Rightarrow> wg_turn list
    \<Rightarrow> (wg_session, aether_error option) ctl" where
  "run_wireguard a sm i0 c i path net w turns =
     (case wg_begin a sm i0 c i path net w of
        Inl err \<Rightarrow> Stop (Some err)
      | Inr (e, s) \<Rightarrow> run_loop (wg_session_step e) turns s)"

subsection \<open>Which endpoints are used\<close>

text \<open>The profile of an endpoint is the one its name stands for.\<close>

fun named :: "endpoint \<Rightarrow> bool" where
  "named (peer, profile, name) \<longleftrightarrow> profile = aethernoize_from_profile name"

text \<open>
  What a turn finds about an endpoint: with its profile it passes the check of WireGuard, as the
  last good one, as a forced one or in a search.
\<close>

fun wg_vouched :: "identity \<Rightarrow> wg_turn \<Rightarrow> endpoint \<Rightarrow> bool" where
  "wg_vouched i t (peer, profile, name) \<longleftrightarrow>
     profile = aethernoize_from_profile name \<and>
     (\<exists>net \<in> {wt_retry t} \<union> range (wt_test t) \<union> range (wt_scan t). \<exists>limit. endpoint_passes i net peer profile limit)"

lemma candidates_named: "(name, profile) \<in> set (wg_profile_candidates env) \<Longrightarrow> profile = aethernoize_from_profile name"
  by (auto simp: wg_profile_candidates_def)

lemma hunt_with_profile_passes:
  assumes "hunt_wg_peer_with_profile i net h mode_str ip profile = Some (Inr peer)"
  shows "\<exists>limit. endpoint_passes i net peer profile limit"
proof -
  obtain params cands pr where params: "wg_params_of i profile = Inr params"
    and h: "hunt_best_wg_endpoint (net params) (hr_rng h) (hr_has_v6 h) WG_PORTS ip (wg_scan_mode_parse mode_str)
      (hr_start h) (hr_turns h) (hr_draws h) = Some (cands, Stop (Inr pr))"
    and p: "peer = SockAddr (wpr_ip pr) (wpr_port pr)"
    using assms by (auto simp: hunt_wg_peer_with_profile_def split: option.splits prod.splits ctl.splits sum.splits)
  obtain x where "wg_scan_yields (net params) (wg_scan_mode_strategy (wg_scan_mode_parse mode_str))
      (wg_scan_mode_parse mode_str = WgIronclad) x = Some pr"
    using hunt_best_wg_endpoint_verified [OF h] ..
  then obtain a port limit ironclad where v: "verify_one_wg (net params) a port limit ironclad = Some pr"
    by (auto simp: wg_scan_yields_def split: scan_item.splits prod.splits)
  then have "peer = SockAddr a port" using p verify_one_wg_candidate by fastforce
  then have "is_ok (wg_verify (net params) peer limit)"
    using v by (auto simp: verify_one_wg_def Let_def split: sum.splits)
  then show ?thesis using params by (auto simp: endpoint_passes_def)
qed

lemma hunt_wg_peer_vouched:
  "hunt_wg_peer i net h mode_str ip n cands = Some (Inr (peer, profile, name)) \<Longrightarrow>
    (name, profile) \<in> set cands \<and> (\<exists>m limit. endpoint_passes i (net m) peer profile limit)"
proof (induction i net h mode_str ip n cands rule: hunt_wg_peer.induct)
  case (2 i net h mode_str ip n name' profile' cands)
  show ?case
  proof (cases "hunt_wg_peer_with_profile i (net n) (h n) mode_str ip profile'")
    case (Some r)
    then show ?thesis using 2 hunt_with_profile_passes [of i "net n" "h n" mode_str ip profile'] by (cases r) auto
  qed (use 2 in simp)
qed simp

lemma test_forced_vouched:
  "test_forced i net p n cands = Some (peer, profile, name) \<Longrightarrow>
    peer = p \<and> (name, profile) \<in> set cands \<and> (\<exists>m. endpoint_passes i (net m) peer profile 10000)"
  by (induction i net p n cands rule: test_forced.induct) (auto split: if_splits)

lemma hunt_wg_peer_fails: "hunt_wg_peer i net h mode_str ip n cands = Some (Inl e) \<Longrightarrow> e = NoCleanEndpoint"
  by (induction i net h mode_str ip n cands rule: hunt_wg_peer.induct) (auto split: option.splits sum.splits)

lemma wg_vouchedI:
  assumes "(name, profile) \<in> set (wg_profile_candidates env)" "endpoint_passes i net peer profile limit"
    and "net \<in> {wt_retry t} \<union> range (wt_test t) \<union> range (wt_scan t)"
  shows "wg_vouched i t (peer, profile, name)"
  using assms candidates_named by auto

lemma find_wg_peer_use:
  assumes "find_wg_peer e t = Some (WgUse q)"
  shows "wg_vouched (we_identity e) t q"
proof (cases q)
  case (fields peer profile name)
  show ?thesis
  proof (cases "wg_forced_peer (we_vars e)")
    case None
    then have "hunt_wg_peer (we_identity e) (wt_scan t) (wt_hunt t) (we_mode e) (we_ip e) 0 (wg_profile_candidates (we_vars e))
        = Some (Inr (peer, profile, name))"
      using assms fields by (auto simp: find_wg_peer_def split: option.splits sum.splits)
    from hunt_wg_peer_vouched [OF this] obtain m limit where
      "(name, profile) \<in> set (wg_profile_candidates (we_vars e))" "endpoint_passes (we_identity e) (wt_scan t m) peer profile limit"
      by blast
    then show ?thesis unfolding fields by (rule wg_vouchedI) simp
  next
    case (Some p)
    then obtain p' where "test_forced (we_identity e) (wt_test t) p' 0 (wg_profile_candidates (we_vars e)) = Some (peer, profile, name)"
      using assms fields by (auto simp: find_wg_peer_def split: option.splits)
    from test_forced_vouched [OF this] obtain m where
      "(name, profile) \<in> set (wg_profile_candidates (we_vars e))" "endpoint_passes (we_identity e) (wt_test t m) peer profile 10000"
      by blast
    then show ?thesis unfolding fields by (rule wg_vouchedI) simp
  qed
qed

lemma find_wg_peer_rescan: "find_wg_peer e t = Some WgRescan \<Longrightarrow> wg_forced_peer (we_vars e) = None"
  by (auto simp: find_wg_peer_def split: option.splits)

lemma find_wg_peer_gives_up:
  "find_wg_peer e t = Some (WgGiveUp err) \<Longrightarrow> \<exists>p. wg_forced_peer (we_vars e) = Some p \<and>
    (err = NoCleanEndpoint \<or> parse_sock_addr p = None \<and> err = Other (''bad peer address '' @ p))"
  by (auto simp: find_wg_peer_def split: option.splits sum.splits)

lemma choose_wg_peer_find:
  assumes "choose_wg_peer e t s = Some c" and "\<forall>q. wg_last_good s = Some q \<longrightarrow> named q"
  obtains (quick) q where "wg_quick s = Some q" "c = WgUse q"
  | (vouched) q where "wg_quick s = None" "c = WgUse q" "wg_vouched (we_identity e) t q"
  | (found) "wg_quick s = None" "find_wg_peer e t = Some c" "\<forall>q. c \<noteq> WgUse q"
proof (cases "wg_quick s")
  case (Some q)
  then show ?thesis using assms(1) quick by (simp add: choose_wg_peer_def)
next
  case None
  show ?thesis
  proof (cases "find_wg_peer e t = Some c")
    case True
    then show ?thesis using None vouched [OF None] found [OF None] find_wg_peer_use by (cases "\<exists>q. c = WgUse q") blast+
  next
    case False
    then obtain p profile name where l: "wg_last_good s = Some (p, profile, name)" "c = WgUse (p, profile, name)"
        "endpoint_passes (we_identity e) (wt_retry t) p profile 6000"
      using assms(1) None by (auto simp: choose_wg_peer_def split: option.splits if_splits)
    then have "wg_vouched (we_identity e) t (p, profile, name)" using assms(2) by auto
    then show ?thesis using vouched [OF None l(2)] by blast
  qed
qed

definition wg_post :: "('p, 'x, 'i, 't, 'u) wg_session_env \<Rightarrow> aether_error option \<Rightarrow> bool" where
  "wg_post e r \<longleftrightarrow>
     r = None \<or> (\<exists>p. wg_forced_peer (we_vars e) = Some p \<and>
       (r = Some NoCleanEndpoint \<or> parse_sock_addr p = None \<and> r = Some (Other (''bad peer address '' @ p))))"

definition all_named :: "wg_session \<Rightarrow> bool" where
  "all_named s \<longleftrightarrow> (\<forall>q. wg_quick s = Some q \<or> wg_last_good s = Some q \<longrightarrow> named q)"

lemma wg_vouched_named: "wg_vouched i t q \<Longrightarrow> named q"
  by (cases q) simp

lemma use_endpoint_fields [simp]:
  "wg_quick (use_endpoint e t q s) = wg_quick s" "wg_last_good (use_endpoint e t q s) = Some q"
  "\<exists>u. wg_tunnels (use_endpoint e t q s) = wg_tunnels s @ [(t, q, u)]"
  by (cases q; simp add: use_endpoint_def Let_def)+

interpretation wg_session: session_loop "wg_session_step e" wg_quick wg_tunnels "wg_vouched (we_identity e)" "wg_post e" all_named for e
proof
  fix t and s s' :: wg_session
  assume inv: "all_named s" and s': "wg_session_step e t s = Go s'"
  then obtain c where c: "choose_wg_peer e t s = Some c" by (auto simp: wg_session_step_def split: option.splits)
  have named: "\<forall>q. wg_last_good s = Some q \<longrightarrow> named q" using inv by (simp add: all_named_def)
  have use: "all_named (use_endpoint e t q (s\<lparr>wg_quick := None\<rparr>))" if "named q" for q
    using that by (simp add: all_named_def)
  have log: "\<exists>u. wg_tunnels (use_endpoint e t q (s\<lparr>wg_quick := None\<rparr>)) = wg_tunnels s @ [(t, q, u)]" for q
    using use_endpoint_fields(3) [of e t q "s\<lparr>wg_quick := None\<rparr>"] by simp
  show "all_named s' \<and> wg_quick s' = None \<and> (wg_quick s = None \<and> wg_tunnels s' = wg_tunnels s
      \<or> (\<exists>q u. wg_tunnels s' = wg_tunnels s @ [(t, q, u)] \<and>
          (wg_quick s = Some q \<or> wg_quick s = None \<and> wg_vouched (we_identity e) t q)))"
  proof (rule choose_wg_peer_find [OF c named])
    fix q assume q: "wg_quick s = Some q" "c = WgUse q"
    then have "s' = use_endpoint e t q (s\<lparr>wg_quick := None\<rparr>)" using s' c by (simp add: wg_session_step_def)
    moreover have "named q" using inv q unfolding all_named_def by blast
    ultimately show ?thesis using q log [of q] use [of q] by (auto simp del: split_paired_Ex)
  next
    fix q assume q: "wg_quick s = None" "c = WgUse q" "wg_vouched (we_identity e) t q"
    then have "s' = use_endpoint e t q (s\<lparr>wg_quick := None\<rparr>)" using s' c by (simp add: wg_session_step_def)
    then show ?thesis using q log [of q] use [OF wg_vouched_named [OF q(3)]] by (auto simp del: wg_vouched.simps split_paired_Ex)
  next
    assume q: "wg_quick s = None" "\<forall>q. c \<noteq> WgUse q"
    then show ?thesis using s' c inv by (cases c) (auto simp: wg_session_step_def all_named_def)
  qed
next
  fix t and s :: wg_session and r
  assume inv: "all_named s" and r: "wg_session_step e t s = Stop r"
  show "wg_post e r"
  proof (cases "choose_wg_peer e t s")
    case (Some c)
    then obtain err where "c = WgGiveUp err" "r = Some err" using r by (cases c) (auto simp: wg_session_step_def)
    moreover have "find_wg_peer e t = Some c"
      by (rule choose_wg_peer_find [OF Some]) (use inv calculation in \<open>auto simp: all_named_def\<close>)
    ultimately show ?thesis using find_wg_peer_gives_up [of e t err] by (auto simp: wg_post_def)
  qed (use r in \<open>simp add: wg_session_step_def wg_post_def\<close>)
qed

subsection \<open>Addresses that are refused\<close>

text \<open>
  An identity without a plain IPv6 address never gets a tunnel, although its endpoints pass the
  check: each turn verifies or searches again, fails to start the tunnel, and sleeps.
\<close>

lemma wg_needs_ipv6:
  assumes "parse_ipv4 (ident_ipv4 i) = Some ip" "parse_ipv6 (ident_ipv6 i) = None"
  shows "run_wireguard_tunnel sm i0 env i peer profile life = (None, Inl (Other ''invalid ipv6''))"
  using assms by (simp add: run_wireguard_tunnel_def wg_config_of_def key_bytes wg_local_ipv4_def wg_local_ipv6_def)

lemma cidr_accepted_by_stack_only:
  "parse_v4 ''172.16.0.2/32'' = Inr (Some (0xAC100002, 32)) \<and> parse_ipv4 ''172.16.0.2/32'' = None"
  by code_simp

subsection \<open>Properties\<close>


definition sample_wg_turn :: wg_turn where
  "sample_wg_turn =
     \<lparr>wt_retry = (\<lambda>_. sample_wg_checks), wt_test = (\<lambda>_ _. sample_wg_checks), wt_scan = (\<lambda>_ _. sample_wg_checks),
      wt_hunt = (\<lambda>_. mt_hunt sample_turn), wt_tunnel = (\<lambda>_. \<lparr>wl_new = Inr (), wl_run = Inr ()\<rparr>)\<rparr>"


end
