(* ===== verification/Run.thy ===== *)
theory Run
  imports Wg_Session Stack_Client Socks Tunnelping
begin

section \<open>Starting the program, and WARP in WARP (main.rs)\<close>

subsection \<open>One peer for WARP in WARP\<close>

text \<open>
  \<open>select_peer\<close>: a forced peer is taken as it is, without a check. \<open>net\<close>, \<open>wg_net\<close> and \<open>h\<close> are
  what a search finds; \<open>None\<close> is a panic or a search that is not over.
\<close>

definition select_peer :: "console \<Rightarrow> identity \<Rightarrow> protocol \<Rightarrow> net \<Rightarrow> wg_net \<Rightarrow> hunt_run \<Rightarrow> sock_addr result option" where
  "select_peer c i protocol net wg_net h =
     (let env = console.vars c;
          force_peer = (case protocol of MasqueProtocol \<Rightarrow> forced_peer env | _ \<Rightarrow> wg_forced_peer env)
      in case force_peer of
           Some p \<Rightarrow>
             Some (case parse_sock_addr p of None \<Rightarrow> Inl (Other (''bad peer address '' @ p)) | Some peer \<Rightarrow> Inr peer)
         | None \<Rightarrow>
             (let mode_str = select_scan_mode_str c; ip = select_ip_version c in
              case protocol of
                MasqueProtocol \<Rightarrow> hunt_masque_peer env i net h mode_str ip
              | _ \<Rightarrow> hunt_wg_peer_with_profile i wg_net h mode_str ip (aethernoize_config_of env)))"

subsection \<open>A tunnel in the background\<close>

definition establish_wg ::
  "('i, 't, 'u) smoltcp \<Rightarrow> 'i \<Rightarrow> env_vars \<Rightarrow> identity \<Rightarrow> sock_addr \<Rightarrow> nat \<Rightarrow> bool \<Rightarrow> nat \<Rightarrow> (wg_config \<Rightarrow> wg_life)
    \<Rightarrow> (wg_config \<times> ('i, 't, 'u) netstack) result" where
  "establish_wg sm i0 env i peer mtu obfuscate keepalive life =
     proceed (wg_config_of i peer keepalive
       (if obfuscate then aethernoize_config_of env else aethernoize_from_profile ''off'')) (\<lambda>cfg.
     proceed (wl_new (life cfg)) (\<lambda>_.
     proceed (netstack_new sm (ident_ipv4 i) (ident_ipv6 i) mtu i0) (\<lambda>stack.
       Inr (cfg, stack))))"

subsection \<open>The forwarder between the tunnels\<close>

text \<open>
  The set-up of \<open>spawn_udp_forwarder\<close>: binding the local socket, its address, and a UDP socket of
  the outer stack.
\<close>

record forwarder_setup =
  fs_bind :: "str option"
  fs_local :: "str + sock_addr"
  fs_udp :: "nat result"

definition spawn_udp_forwarder :: "forwarder_setup \<Rightarrow> (sock_addr \<times> nat) result" where
  "spawn_udp_forwarder fs =
     (case fs_bind fs of
        Some e \<Rightarrow> Inl (Io e)
      | None \<Rightarrow>
          (case fs_local fs of
             Inl e \<Rightarrow> Inl (Io e)
           | Inr local_addr \<Rightarrow> proceed (fs_udp fs) (\<lambda>udp. Inr (local_addr, udp))))"

text \<open>
  The two tasks: \<open>FromInner\<close> is a receive on the local socket, with whether the outer stack then
  takes the datagram; \<open>FromOuter\<close> is a datagram of the outer stack, or its end.
\<close>

datatype forward_event = FromInner "str + (bytes \<times> sock_addr)" bool | FromOuter "(sock_addr \<times> bytes) option"

record forwarder =
  inner_peer :: "sock_addr option"
  to_outer :: "(sock_addr \<times> bytes) list"
  to_inner :: "(bytes \<times> sock_addr) list"
  up_ended :: bool
  down_ended :: bool

definition forwarder_start :: forwarder where
  "forwarder_start = \<lparr>inner_peer = None, to_outer = [], to_inner = [], up_ended = False, down_ended = False\<rparr>"

fun forward_step :: "sock_addr \<Rightarrow> forward_event \<Rightarrow> forwarder \<Rightarrow> forwarder" where
  "forward_step remote (FromInner r taken) s =
     (if up_ended s then s
      else
        (case r of
           Inl _ \<Rightarrow> s\<lparr>up_ended := True\<rparr>
         | Inr (d, sender) \<Rightarrow>
             (let s = s\<lparr>inner_peer := Some sender\<rparr> in
              if taken then s\<lparr>to_outer := to_outer s @ [(remote, take 65536 d)]\<rparr> else s\<lparr>up_ended := True\<rparr>)))"
| "forward_step remote (FromOuter m) s =
     (if down_ended s then s
      else
        (case m of
           None \<Rightarrow> s\<lparr>down_ended := True\<rparr>
         | Some (_, data) \<Rightarrow>
             (case inner_peer s of
                Some dst \<Rightarrow> s\<lparr>to_inner := to_inner s @ [(data, dst)]\<rparr>
              | None \<Rightarrow> s)))"

subsection \<open>WARP in WARP\<close>

text \<open>What was established, with the wait between the tunnels in milliseconds, and what is returned.\<close>

record warp_run =
  wr_outer :: "wg_config option"
  wr_inner :: "wg_config option"
  wr_forwards_to :: "sock_addr option"
  wr_slept :: nat

definition run_warp_in_warp ::
  "('i, 't, 'u) smoltcp \<Rightarrow> 'i \<Rightarrow> env_vars \<Rightarrow> identity \<Rightarrow> identity \<Rightarrow> sock_addr \<Rightarrow> (wg_config \<Rightarrow> wg_life) \<Rightarrow> forwarder_setup
    \<Rightarrow> (wg_config \<Rightarrow> wg_life) \<Rightarrow> unit result \<Rightarrow> warp_run \<times> unit result" where
  "run_warp_in_warp sm i0 env primary secondary peer life_outer fs life_inner serving =
     (let r = \<lparr>wr_outer = None, wr_inner = None, wr_forwards_to = None, wr_slept = 0\<rparr> in
      case establish_wg sm i0 env primary peer TUNNEL_MTU True 5 life_outer of
        Inl e \<Rightarrow> (r, Inl e)
      | Inr (outer, _) \<Rightarrow>
          (let r = r\<lparr>wr_outer := Some outer, wr_slept := 1500\<rparr> in
           case spawn_udp_forwarder fs of
             Inl e \<Rightarrow> (r, Inl e)
           | Inr (fwd, _) \<Rightarrow>
               (let r = r\<lparr>wr_forwards_to := Some peer\<rparr> in
                case establish_wg sm i0 env secondary fwd INNER_MTU False 20 life_inner of
                  Inl e \<Rightarrow> (r, Inl e)
                | Inr (inner, _) \<Rightarrow> (r\<lparr>wr_inner := Some inner\<rparr>, serving))))"

subsection \<open>The accept loop of SOCKS5 (socks.rs)\<close>

text \<open>The clients whose handlers were started; a bad accept ends the server, \<open>handle_client\<close> is in \<open>Socks\<close>.\<close>

fun serve_step :: "str + sock_addr \<Rightarrow> sock_addr list \<Rightarrow> (sock_addr list, unit result) ctl" where
  "serve_step (Inr peer) cs = Go (cs @ [peer])"
| "serve_step (Inl e) cs = Stop (Inl (Io e))"

definition socks_serve :: "str option \<Rightarrow> (str + sock_addr) list \<Rightarrow> (sock_addr list, unit result) ctl" where
  "socks_serve bind_err accepts =
     (case bind_err of Some e \<Rightarrow> Stop (Inl (Io e)) | None \<Rightarrow> run_loop serve_step accepts [])"

subsection \<open>main\<close>

text \<open>What \<open>main\<close> runs after its set-up, or what it returns; exiting after the help text is success.\<close>

datatype job =
    Masque_Job console identity "bytes option" sock_addr str
  | Wireguard_Job console identity sock_addr str
  | Warp_Job console identity identity sock_addr sock_addr
  | Quit "unit result"

definition DEFAULT_LISTEN :: sock_addr where "DEFAULT_LISTEN = SockAddr (IpV4 (ipv4_new 127 0 0 1)) 1819"

definition listen_addr :: "env_vars \<Rightarrow> sock_addr" where
  "listen_addr env =
     (case env ''AETHER_SOCKS'' of
        None \<Rightarrow> DEFAULT_LISTEN
      | Some s \<Rightarrow> (case parse_sock_addr s of None \<Rightarrow> DEFAULT_LISTEN | Some a \<Rightarrow> a))"

definition base_config :: "env_vars \<Rightarrow> str" where
  "base_config env = (case env ''AETHER_CONFIG'' of Some p \<Rightarrow> p | None \<Rightarrow> DEFAULT_CONFIG)"

text \<open>The question mark operator of \<open>main\<close> on a load that may panic.\<close>

definition and_load :: "(world \<times> identity result) option \<Rightarrow> (identity \<Rightarrow> world \<Rightarrow> (world \<times> job) option) \<Rightarrow> (world \<times> job) option" where
  "and_load l k = do {
     (w, r) \<leftarrow> l;
     case r of Inl e \<Rightarrow> Some (w, Quit (Inl e)) | Inr i \<Rightarrow> k i w
   }"

definition main_masque :: "('p, 'x) account_env \<Rightarrow> bytes result option \<Rightarrow> console \<Rightarrow> world \<Rightarrow> (world \<times> job) option" where
  "main_masque a fetched c w =
     (let c = select_masque_transport c; env = console.vars c; path = masque_config_path env (base_config env) in
      and_load (load_or_provision_masque a path w) (\<lambda>i w. do {
        ech \<leftarrow> resolve_ech a fetched env;
        Some (w, Masque_Job c i ech (listen_addr env) (lastconn_path path))
      }))"

definition main_wireguard :: "('p, 'x) account_env \<Rightarrow> console \<Rightarrow> world \<Rightarrow> (world \<times> job) option" where
  "main_wireguard a c w =
     (let env = console.vars c; path = warp_config_path env (base_config env) in
      and_load (load_or_provision_warp a path w) (\<lambda>i w.
        Some (w, Wireguard_Job c i (listen_addr env) (lastconn_path path))))"

definition main_warp :: "('p, 'x) account_env \<Rightarrow> net \<Rightarrow> wg_net \<Rightarrow> hunt_run \<Rightarrow> console \<Rightarrow> world \<Rightarrow> (world \<times> job) option" where
  "main_warp a net wg_net h c w =
     (let env = console.vars c; primary_path = warp_config_path env (base_config env);
          secondary_path = derive_sibling_path primary_path ''secondary'' in
      and_load (load_or_provision_warp a primary_path w) (\<lambda>primary w.
      and_load (load_or_provision_warp a secondary_path w) (\<lambda>secondary w. do {
        r \<leftarrow> select_peer c primary WireGuardProtocol net wg_net h;
        Some (w, case r of Inl e \<Rightarrow> Quit (Inl e) | Inr peer \<Rightarrow> Warp_Job c primary secondary peer (listen_addr env))
      })))"

definition main_job :: "('p, 'x) account_env \<Rightarrow> bytes result option \<Rightarrow> net \<Rightarrow> wg_net \<Rightarrow> hunt_run \<Rightarrow> console \<Rightarrow> str list \<Rightarrow> world
    \<Rightarrow> (world \<times> job) option" where
  "main_job a fetched net wg_net h c args w =
     (case parse_and_apply args (console.vars c) of
        Exited \<Rightarrow> Some (w, Quit (Inr ()))
      | CliError e \<Rightarrow> Some (w, Quit (Inl e))
      | Applied env \<Rightarrow>
          (let c = c\<lparr>console.vars := env\<rparr> in
           case main_protocol c of
             MasqueProtocol \<Rightarrow> main_masque a fetched c w
           | WireGuardProtocol \<Rightarrow> main_wireguard a c w
           | WarpInWarp \<Rightarrow> main_warp a net wg_net h c w))"

subsection \<open>What the forwarder carries\<close>

fun from_inner :: "forward_event \<Rightarrow> bytes list" where
  "from_inner (FromInner (Inr (d, _)) _) = [d]"
| "from_inner _ = []"

fun from_outer :: "forward_event \<Rightarrow> bytes list" where
  "from_outer (FromOuter (Some (_, d))) = [d]"
| "from_outer _ = []"

text \<open>An event of an inner tunnel at \<open>a\<close>: its datagrams fit the buffer and nothing fails.\<close>

fun smooth :: "sock_addr \<Rightarrow> forward_event \<Rightarrow> bool" where
  "smooth a (FromInner (Inr (d, sender)) taken) \<longleftrightarrow> sender = a \<and> taken \<and> length d \<le> 65536"
| "smooth a (FromOuter (Some _)) \<longleftrightarrow> True"
| "smooth a _ \<longleftrightarrow> False"

lemma smooth_cases:
  assumes "smooth a ev"
  obtains (up) d where "ev = FromInner (Inr (d, a)) True" "length d \<le> 65536" | (down) src d where "ev = FromOuter (Some (src, d))"
  using assms by (induction a ev rule: smooth.induct) auto

lemma forward_known:
  assumes "\<forall>ev \<in> set es. smooth a ev" "inner_peer s = Some a" "\<not> up_ended s" "\<not> down_ended s"
  shows "to_outer (fold (forward_step remote) es s) = to_outer s @ map (Pair remote) (concat (map from_inner es))
    \<and> to_inner (fold (forward_step remote) es s) = to_inner s @ map (\<lambda>d. (d, a)) (concat (map from_outer es))"
  using assms
proof (induction es arbitrary: s)
  case (Cons ev es)
  have "smooth a ev" using Cons.prems(1) by simp
  then show ?case by (cases rule: smooth_cases) (use Cons in \<open>simp_all add: Let_def\<close>)
qed simp

lemma forward_unknown:
  assumes "\<forall>ev \<in> set es. smooth a ev \<and> from_inner ev = []" "inner_peer s = None" "\<not> down_ended s"
  shows "fold (forward_step remote) es s = s"
  using assms
proof (induction es)
  case (Cons ev es)
  have "smooth a ev" using Cons.prems(1) by simp
  then show ?case by (cases rule: smooth_cases) (use Cons in simp_all)
qed simp

subsection \<open>Files a session leaves alone\<close>

lemma lastconn_save_frame:
  "q \<noteq> path \<Longrightarrow> files (lastconn_save a path peer profile w) q = files w q"
  by (auto simp: lastconn_save_def write_file_def split: sum.split option.split)

lemma masque_step_frame:
  "masque_step e t s = Go s' \<Longrightarrow> q \<noteq> me_lastconn e \<Longrightarrow> files (ms_world s') q = files (ms_world s) q"
  by (auto simp: masque_step_def use_peer_def Let_def lastconn_save_frame split: option.splits choice.splits)

lemma masque_run_frame:
  "run_loop (masque_step e) ts s = Go s' \<Longrightarrow> q \<noteq> me_lastconn e \<Longrightarrow> files (ms_world s') q = files (ms_world s) q"
proof (induction ts arbitrary: s)
  case (Cons t ts)
  then obtain s1 where s1: "masque_step e t s = Go s1" "run_loop (masque_step e) ts s1 = Go s'" by (auto split: ctl.splits)
  show ?case using Cons.IH [OF s1(2) Cons.prems(2)] masque_step_frame [OF s1(1) Cons.prems(2)] by simp
qed simp

lemma config_load_frame: "files w' path = files w path \<Longrightarrow> config_load a path w' = config_load a path w"
  by (simp add: config_load_def read_to_string_def)

lemma lastconn_path_differs: "lastconn_path path \<noteq> path"
proof -
  have "length (lastconn_path path) \<noteq> length path" by (simp add: lastconn_path_def length_derive_sibling_path)
  then show ?thesis by metis
qed

subsection \<open>Identities that are loaded\<close>

definition keys_sized :: "identity \<Rightarrow> bool" where
  "keys_sized i \<longleftrightarrow> length (wg_private_key i) = 32 \<and> length (wg_peer_public_key i) = 32 \<and> length (ident_client_id i) = 3"

lemma config_load_keys: "config_load a path w = Some (Inr (Some i)) \<Longrightarrow> keys_sized i"
  using identity_of_wf by (fastforce simp: config_load_def keys_sized_def split: if_splits sum.splits)

lemma provision_keys: "provision_wg a mdl loc jwt w = (w', Inr i) \<Longrightarrow> keys_sized i"
  by (rule provision_wg_cases) (auto simp: keys_sized_def clamped_def)

lemma warp_identity_keys:
  assumes "load_or_provision_warp a path w = Some (w', Inr i)"
  shows "keys_sized i"
proof -
  obtain loaded where l: "config_load a path w = Some loaded"
    using assms by (auto simp: load_or_provision_warp_def bind_eq_Some_conv)
  show ?thesis
  proof (cases loaded)
    case (Inl e)
    then show ?thesis using assms l by (simp add: load_or_provision_warp_def)
  next
    case (Inr x)
    then show ?thesis using assms l config_load_keys [of a path w] provision_keys [of a]
      by (cases x) (fastforce simp: load_or_provision_warp_def andthen_Inr)+
  qed
qed

lemma and_load_cases:
  assumes "and_load l k = Some (w', job)"
  obtains (loaded) i w where "l = Some (w, Inr i)" "k i w = Some (w', job)" | (failed) e where "job = Quit (Inl e)"
proof -
  obtain w r where l: "l = Some (w, r)" using assms by (cases l) (auto simp: and_load_def)
  show ?thesis using assms l loaded failed by (cases r) (auto simp: and_load_def)
qed

lemma main_masque_cases:
  assumes "main_masque a fetched c w = Some (w', job)"
  obtains (started) i ech path c' listen where "load_or_provision_masque a path w = Some (w', Inr i)"
      "job = Masque_Job c' i ech listen (lastconn_path path)" "c' = select_masque_transport c"
      "path = masque_config_path (console.vars c') (base_config (console.vars c'))" "listen = listen_addr (console.vars c')"
  | (failed) e where "job = Quit (Inl e)"
proof -
  let ?c = "select_masque_transport c"
  let ?path = "masque_config_path (console.vars ?c) (base_config (console.vars ?c))"
  have l: "and_load (load_or_provision_masque a ?path w) (\<lambda>i w. do {
      ech \<leftarrow> resolve_ech a fetched (console.vars ?c);
      Some (w, Masque_Job ?c i ech (listen_addr (console.vars ?c)) (lastconn_path ?path)) }) = Some (w', job)"
    using assms by (simp add: main_masque_def Let_def)
  show ?thesis by (rule and_load_cases [OF l]) (use started failed in \<open>auto simp: bind_eq_Some_conv\<close>)
qed

lemma main_warp_cases:
  assumes "main_warp a net wg_net h c w = Some (w', job)"
  shows "(\<exists>e. job = Quit (Inl e)) \<or> (\<exists>primary secondary peer listen.
    job = Warp_Job c primary secondary peer listen \<and> keys_sized primary \<and> keys_sized secondary)"
proof (rule and_load_cases [OF assms [unfolded main_warp_def Let_def]])
  let ?path = "warp_config_path (console.vars c) (base_config (console.vars c))"
  fix primary w1
  assume p: "load_or_provision_warp a ?path w = Some (w1, Inr primary)"
    and rest: "and_load (load_or_provision_warp a (derive_sibling_path ?path ''secondary'') w1) (\<lambda>secondary w. do {
        r \<leftarrow> select_peer c primary WireGuardProtocol net wg_net h;
        Some (w, case r of Inl e \<Rightarrow> Quit (Inl e) | Inr peer \<Rightarrow> Warp_Job c primary secondary peer (listen_addr (console.vars c)))
      }) = Some (w', job)"
  show ?thesis
  proof (rule and_load_cases [OF rest])
    fix secondary w2
    assume s: "load_or_provision_warp a (derive_sibling_path ?path ''secondary'') w1 = Some (w2, Inr secondary)"
      and job: "do { r \<leftarrow> select_peer c primary WireGuardProtocol net wg_net h;
        Some (w2, case r of Inl e \<Rightarrow> Quit (Inl e) | Inr peer \<Rightarrow> Warp_Job c primary secondary peer (listen_addr (console.vars c)))
      } = Some (w', job)"
    then obtain r where "select_peer c primary WireGuardProtocol net wg_net h = Some r"
      by (cases "select_peer c primary WireGuardProtocol net wg_net h") auto
    then show ?thesis using job warp_identity_keys [OF p] warp_identity_keys [OF s] by (cases r) auto
  qed simp
qed simp

text \<open>An identity for both tunnels of a sample.\<close>

definition sample_identity6 :: identity where
  "sample_identity6 = sample_identity\<lparr>ident_ipv6 := ''::1''\<rparr>"

lemma sample_addrs: "parse_ipv4 ''172.16.0.2'' = Some 0xAC100002" "parse_v4 ''172.16.0.2'' = Inr (Some (0xAC100002, 32))"
  by code_simp+

lemma sample_config: "\<exists>cfg. wg_config_of sample_identity6 peer keepalive profile = Inr cfg \<and> wc_peer_endpoint cfg = peer"
  by (simp add: wg_config_of_def key_bytes wg_local_ipv4_def wg_local_ipv6_def sample_identity6_def sample_identity_def
      sample_addrs parse_ipv6_loopback)

lemma sample_new6: "\<exists>st. netstack_new toy (ident_ipv4 sample_identity6) (ident_ipv6 sample_identity6) mtu () = Inr st"
  by (simp add: netstack_new_def sample_identity6_def sample_identity_def sample_addrs parse_v6_loopback)

definition sample_life :: "wg_config \<Rightarrow> wg_life" where
  "sample_life cfg = \<lparr>wl_new = Inr (), wl_run = Inr ()\<rparr>"

definition sample_local :: sock_addr where "sample_local = SockAddr (IpV4 0x7F000001) 40000"

subsection \<open>Tunnels whose end is only logged\<close>

text \<open>
  WARP in WARP does not notice the end of its tunnels: whatever they return, the same is
  established and returned, and nothing reconnects.
\<close>

lemma establish_wg_ignores_end:
  "(\<And>cfg. wl_new (life cfg) = wl_new (life' cfg)) \<Longrightarrow>
    establish_wg sm i0 env i peer mtu obfuscate keepalive life = establish_wg sm i0 env i peer mtu obfuscate keepalive life'"
  by (simp add: establish_wg_def)

lemma warp_in_warp_ignores_end:
  assumes "\<And>cfg. wl_new (life_outer cfg) = wl_new (life_outer' cfg)" "\<And>cfg. wl_new (life_inner cfg) = wl_new (life_inner' cfg)"
  shows "run_warp_in_warp sm i0 env primary secondary peer life_outer fs life_inner serving =
    run_warp_in_warp sm i0 env primary secondary peer life_outer' fs life_inner' serving"
  unfolding run_warp_in_warp_def establish_wg_ignores_end [of life_outer life_outer', OF assms(1)]
    establish_wg_ignores_end [of life_inner life_inner', OF assms(2)] ..

subsection \<open>Properties\<close>

text \<open>The tunnels of WARP in WARP are nested: when the inner tunnel is there, it uses the second identity,
  no obfuscation and the address of the forwarder; the forwarder sends to the edge; and the outer
  tunnel, with the first identity and the obfuscation asked for, goes to that edge. Without the inner
  tunnel an error is returned, and with it what the SOCKS server returns.\<close>

theorem warp_in_warp_nested:
  assumes "run_warp_in_warp sm i0 env primary secondary peer life_outer fs life_inner serving = (r, res)"
  shows "case wr_inner r of
      Some inner \<Rightarrow> res = serving \<and> wr_forwards_to r = Some peer \<and>
        (\<exists>fwd udp. spawn_udp_forwarder fs = Inr (fwd, udp) \<and>
          wg_config_of secondary fwd 20 (aethernoize_from_profile ''off'') = Inr inner) \<and>
        (\<exists>outer. wr_outer r = Some outer \<and> wg_config_of primary peer 5 (aethernoize_config_of env) = Inr outer)
    | None \<Rightarrow> \<exists>e. res = Inl e"
  using assms
  by (auto simp: run_warp_in_warp_def establish_wg_def proceed_Inr Let_def split: sum.splits prod.splits)

theorem warp_in_warp_nested_witness:
  "\<exists>r inner outer. fst (run_warp_in_warp toy () Map.empty sample_identity6 sample_identity6 sample_peer sample_life
      \<lparr>fs_bind = None, fs_local = Inr sample_local, fs_udp = Inr 1\<rparr> sample_life (Inr ())) = r \<and> wr_inner r = Some inner \<and>
    wr_outer r = Some outer \<and> wg_config_of sample_identity6 sample_local 20 (aethernoize_from_profile ''off'') = Inr inner"
proof -
  let ?fs = "\<lparr>fs_bind = None, fs_local = Inr sample_local, fs_udp = Inr 1\<rparr>"
  obtain outer where out: "wg_config_of sample_identity6 sample_peer 5 (aethernoize_config_of Map.empty) = Inr outer"
    using sample_config by blast
  obtain inner where i: "wg_config_of sample_identity6 sample_local 20 (aethernoize_from_profile ''off'') = Inr inner"
    using sample_config by blast
  obtain st where st: "netstack_new toy (ident_ipv4 sample_identity6) (ident_ipv6 sample_identity6) TUNNEL_MTU () = Inr st"
    using sample_new6 by blast
  obtain st' where st': "netstack_new toy (ident_ipv4 sample_identity6) (ident_ipv6 sample_identity6) INNER_MTU () = Inr st'"
    using sample_new6 by blast
  obtain r where r: "run_warp_in_warp toy () Map.empty sample_identity6 sample_identity6 sample_peer sample_life ?fs sample_life (Inr ())
      = (r, Inr ())" "wr_inner r = Some inner"
    by (simp add: run_warp_in_warp_def establish_wg_def out i st st' sample_life_def spawn_udp_forwarder_def Let_def)
  from warp_in_warp_nested [OF r(1)] r(2) have "\<exists>outer. wr_outer r = Some outer" by auto
  then show ?thesis using r i by auto
qed

text \<open>C37. The forwarder is transparent for the one tunnel behind it: after the first datagram of the inner tunnel,
  every datagram it sends goes to the edge and every datagram that comes back goes to it, unchanged and in
  order; what came before the first is dropped.\<close>

theorem forwarder_transparent:
  assumes "\<forall>ev \<in> set (pre @ es). smooth a ev" and "\<forall>ev \<in> set pre. from_inner ev = []"
    and "es \<noteq> [] \<longrightarrow> from_inner (hd es) \<noteq> []"
  shows "to_outer (fold (forward_step remote) (pre @ es) forwarder_start) = map (Pair remote) (concat (map from_inner es))
    \<and> to_inner (fold (forward_step remote) (pre @ es) forwarder_start) = map (\<lambda>d. (d, a)) (concat (map from_outer es))"
proof -
  have pre: "fold (forward_step remote) pre forwarder_start = forwarder_start"
    by (rule forward_unknown) (use assms(1, 2) in \<open>auto simp: forwarder_start_def\<close>)
  show ?thesis
  proof (cases es)
    case Nil
    then show ?thesis using pre by (simp add: forwarder_start_def)
  next
    case (Cons ev es')
    have "smooth a ev" "from_inner ev \<noteq> []" using assms(1, 3) Cons by auto
    then obtain d where ev: "ev = FromInner (Inr (d, a)) True" "length d \<le> 65536" by (cases rule: smooth_cases) auto
    let ?s = "forward_step remote ev forwarder_start"
    have "\<forall>ev \<in> set es'. smooth a ev" "inner_peer ?s = Some a" "\<not> up_ended ?s" "\<not> down_ended ?s"
        "to_outer ?s = [(remote, d)]" "to_inner ?s = []"
      using assms(1) Cons ev by (simp_all add: forwarder_start_def Let_def)
    with forward_known [of es' a ?s remote] show ?thesis using pre Cons ev by simp
  qed
qed

theorem forwarder_transparent_witness:
  "to_inner (fold (forward_step sample_peer) [FromOuter (Some (sample_peer, [9])),
     FromInner (Inr ([1, 2], SockAddr (IpV4 0x7F000001) 5000)) True, FromOuter (Some (sample_peer, [3]))] forwarder_start)
   = [([3], SockAddr (IpV4 0x7F000001) 5000)]"
  using forwarder_transparent [of "[FromOuter (Some (sample_peer, [9]))]"
      "[FromInner (Inr ([1, 2], SockAddr (IpV4 0x7F000001) 5000)) True, FromOuter (Some (sample_peer, [3]))]"
      "SockAddr (IpV4 0x7F000001) 5000" sample_peer]
  by simp


lemma sample_main:
  assumes "load_or_provision_masque sample_api ''aether-masque.toml'' fresh_world = Some (w, Inr i)"
  shows "main_masque sample_api None (sample_console Map.empty) fresh_world = Some (w,
      Masque_Job (sample_console Map.empty) i None DEFAULT_LISTEN (lastconn_path ''aether-masque.toml''))
    \<and> main_job sample_api None net wg_net h (sample_console Map.empty) [] fresh_world = Some (w,
      Masque_Job (sample_console Map.empty) i None DEFAULT_LISTEN (lastconn_path ''aether-masque.toml''))"
proof -
  let ?c = "sample_console Map.empty"
  have c: "select_masque_transport ?c = ?c" "main_protocol ?c = MasqueProtocol" "?c\<lparr>console.vars := Map.empty\<rparr> = ?c"
    "console.vars ?c = Map.empty"
    by (simp_all add: select_masque_transport_def main_protocol_def select_protocol_def prompt_line_def sample_console_def Let_def)
  have "derive_sibling_path ''aether.toml'' ''masque'' = ''aether-masque.toml''" by code_simp
  then have path: "masque_config_path Map.empty (base_config Map.empty) = ''aether-masque.toml''"
    by (simp add: masque_config_path_def base_config_def DEFAULT_CONFIG_def)
  show ?thesis
    by (simp add: main_job_def main_masque_def and_load_def resolve_ech_def listen_addr_def assms c path Let_def)
qed


text \<open>C14. A restart finds its identity: after the program was started over MASQUE and its session ran through any
  turns, however its tunnels ended, starting it again in the world it left runs the same job with the same
  identity, without a request to the server, a new key or a write to a file.\<close>

theorem masque_restart:
  assumes "account_codec a" and "\<forall>path t. read_error a path t = None"
    and "main_masque a fetched c w = Some (w1, Masque_Job c1 i ech listen store)"
    and "run_masque a sm i0 c1 i ech store net w1 turns = Go s"
    and "resolve_ech a fetched' (console.vars (select_masque_transport c)) = Some ech'"
  shows "main_masque a fetched' c (ms_world s) = Some (ms_world s, Masque_Job c1 i ech' listen store)"
proof (rule main_masque_cases [OF assms(3)])
  fix i' ech0 path c' listen'
  assume l: "load_or_provision_masque a path w = Some (w1, Inr i')"
    and job: "Masque_Job c1 i ech listen store = Masque_Job c' i' ech0 listen' (lastconn_path path)"
    and c': "c' = select_masque_transport c" "path = masque_config_path (console.vars c') (base_config (console.vars c'))"
      "listen' = listen_addr (console.vars c')"
  obtain e s0 where b: "masque_begin a sm i0 c1 i ech store net w1 = (e, s0)" by fastforce
  have "run_loop (masque_step e) turns s0 = Go s" using assms(4) b by (simp add: run_masque_def)
  from masque_run_frame [OF this] have f: "files (ms_world s) path = files w1 path"
    using masque_begin_fields [OF b] job lastconn_path_differs [of path] by simp
  have "config_load a path w1 = Some (Inr (Some i')) \<and> has_masque_credentials i'"
    by (rule masque_identity_stored [OF assms(1) _ l]) (use assms(2) in blast)
  then have "load_or_provision_masque a path (ms_world s) = Some (ms_world s, Inr i')"
    using config_load_frame [OF f, of a] by (simp add: load_or_provision_masque_def)
  then show ?thesis using c' job assms(5) by (simp add: main_masque_def and_load_def Let_def)
qed simp

theorem masque_restart_witness:
  "\<exists>w i. main_masque sample_api None (sample_console Map.empty) w = Some (w,
      Masque_Job (sample_console Map.empty) i None DEFAULT_LISTEN (lastconn_path ''aether-masque.toml''))"
proof -
  obtain w i where "load_or_provision_masque sample_api ''aether-masque.toml'' fresh_world = Some (w, Inr i)"
    using sample_start by blast
  from conjunct1 [OF sample_main [OF this]]
  have m: "main_masque sample_api None (sample_console Map.empty) fresh_world = Some (w,
      Masque_Job (sample_console Map.empty) i None DEFAULT_LISTEN (lastconn_path ''aether-masque.toml''))" .
  have rd: "\<forall>path t. read_error sample_api path t = None" by (simp add: sample_api_def)
  obtain s where s: "run_masque sample_api toy () (sample_console Map.empty) i None (lastconn_path ''aether-masque.toml'')
      (\<lambda>_. sample_checks) w [] = Go s"
    using that by (cases "masque_begin sample_api toy () (sample_console Map.empty) i None
      (lastconn_path ''aether-masque.toml'') (\<lambda>_. sample_checks) w") (simp add: run_masque_def)
  have "resolve_ech sample_api None (console.vars (select_masque_transport (sample_console Map.empty))) = Some None"
    by (simp add: resolve_ech_def select_masque_transport_def prompt_line_def sample_console_def)
  from masque_restart [OF sample_crates.account_codec_axioms rd m s this] show ?thesis by blast
qed

end
